(* ===== verification/Prelude.thy ===== *)
theory Prelude
  imports Main "HOL-Library.Word" "HOL-Library.AList" "HOL-Library.List_Lexorder"
    "HOL-Library.Product_Lexorder" "HOL-Library.Multiset" "HOL-Library.Monad_Syntax"
begin

text \<open>
  What every component shares: Rust strings as lists of Unicode scalar values with the
  string operations of the standard library that the daemon calls, \<open>i64\<close> arithmetic,
  hash maps, and the generic lemmas and hint collections of the component proofs.

  A Rust \<open>str\<close> is a sequence of Unicode scalar values (\<open>chars()\<close>) and, at the same
  time, their UTF-8 bytes (\<open>as_bytes()\<close>).  The model keeps the scalar values (type
  \<open>rstr\<close>) and encodes to bytes where the code looks at bytes (\<open>utf8\<close>).  The order of
  \<open>str\<close> values is the lexicographic order of either view, which agree.
\<close>

named_theorems str_simps \<open>unfolding of the string primitives on constructor terms\<close>
named_theorems wf_intros \<open>the well-formedness invariants, as introduction rules\<close>

section \<open>Strings\<close>

type_synonym uchar = int
type_synonym rstr = "uchar list"

definition lit :: "string \<Rightarrow> rstr" where
  "lit s = map of_char s"

lemma lit_Nil [simp]: "lit [] = []"
  by (simp add: lit_def)

lemma lit_Cons [str_simps]: "lit (c # cs) = of_char c # lit cs"
  by (simp add: lit_def)

lemma lit_eq [simp]: "lit s = lit t \<longleftrightarrow> s = t"
proof
  assume "lit s = lit t"
  then have "map (of_char :: char \<Rightarrow> int) s = map of_char t" by (simp add: lit_def)
  then show "s = t" by (rule map_injective) (simp add: inj_def)
qed simp

lemma lit_eq_Nil [simp]: "lit s = [] \<longleftrightarrow> s = []" "[] = lit s \<longleftrightarrow> s = []"
  by (auto simp: lit_def)

lemma length_lit [simp]: "length (lit s) = length s"
  by (simp add: lit_def)

text \<open>\<open>char::is_whitespace\<close>: the Unicode property \<open>White_Space\<close>.\<close>

definition is_whitespace :: "uchar \<Rightarrow> bool" where
  "is_whitespace c \<longleftrightarrow>
     (9 \<le> c \<and> c \<le> 13) \<or> c = 32 \<or> c = 133 \<or> c = 160 \<or> c = 5760 \<or>
     (8192 \<le> c \<and> c \<le> 8202) \<or> c = 8232 \<or> c = 8233 \<or> c = 8239 \<or> c = 8287 \<or> c = 12288"

abbreviation NL :: uchar where "NL \<equiv> 10"
abbreviation CR :: uchar where "CR \<equiv> 13"
abbreviation SP :: uchar where "SP \<equiv> 32"
abbreviation TAB :: uchar where "TAB \<equiv> 9"
abbreviation HASH :: uchar where "HASH \<equiv> 35"

lemma is_whitespace_code [simp]:
  "is_whitespace 9" "is_whitespace 10" "is_whitespace 13" "is_whitespace 32"
  "\<not> is_whitespace 35"
  by (simp_all add: is_whitespace_def)

definition trim_start :: "rstr \<Rightarrow> rstr" where
  "trim_start s = dropWhile is_whitespace s"

definition trim_end :: "rstr \<Rightarrow> rstr" where
  "trim_end s = rev (dropWhile is_whitespace (rev s))"

definition trim :: "rstr \<Rightarrow> rstr" where
  "trim s = trim_end (trim_start s)"

definition trim_end_matches :: "uchar \<Rightarrow> rstr \<Rightarrow> rstr" where
  "trim_end_matches c s = rev (dropWhile (\<lambda>x. x = c) (rev s))"

definition starts_with :: "rstr \<Rightarrow> rstr \<Rightarrow> bool" where
  "starts_with p s \<longleftrightarrow> take (length p) s = p"

definition strip_prefix :: "rstr \<Rightarrow> rstr \<Rightarrow> rstr option" where
  "strip_prefix p s = (if starts_with p s then Some (drop (length p) s) else None)"

text \<open>
  \<open>s.find(pat)\<close> followed by slicing at the offset found: \<open>break_on pat s\<close> is the pair
  \<open>(s[..off], s[off..])\<close> of the first occurrence.
\<close>

fun break_on :: "rstr \<Rightarrow> rstr \<Rightarrow> (rstr \<times> rstr) option" where
  "break_on pat [] = (if pat = [] then Some ([], []) else None)"
| "break_on pat (c # cs) =
     (if starts_with pat (c # cs) then Some ([], c # cs)
      else map_option (\<lambda>(a, b). (c # a, b)) (break_on pat cs))"

text \<open>\<open>s.split_once(c)\<close> and \<open>s.rsplit_once(c)\<close> for a character delimiter.\<close>

fun split_once :: "uchar \<Rightarrow> rstr \<Rightarrow> (rstr \<times> rstr) option" where
  "split_once d [] = None"
| "split_once d (c # cs) =
     (if c = d then Some ([], cs) else map_option (\<lambda>(a, b). (c # a, b)) (split_once d cs))"

definition rsplit_once :: "uchar \<Rightarrow> rstr \<Rightarrow> (rstr \<times> rstr) option" where
  "rsplit_once d s = map_option (\<lambda>(a, b). (rev b, rev a)) (split_once d (rev s))"

text \<open>\<open>split_inclusive\<close> on newline and \<open>lines()\<close>, which strips one LF or CRLF of each.\<close>

fun split_inclusive :: "rstr \<Rightarrow> rstr list" where
  "split_inclusive [] = []"
| "split_inclusive (c # cs) =
     (if c = NL then [c] # split_inclusive cs
      else (case split_inclusive cs of [] \<Rightarrow> [[c]] | l # ls \<Rightarrow> (c # l) # ls))"

lemma split_inclusive_line [simp]:
  "NL \<notin> set l \<Longrightarrow> split_inclusive (l @ NL # s) = (l @ [NL]) # split_inclusive s"
  by (induction l) auto

definition chop_eol :: "rstr \<Rightarrow> rstr" where
  "chop_eol l =
     (if l \<noteq> [] \<and> last l = NL then
        (let m = butlast l in if m \<noteq> [] \<and> last m = CR then butlast m else m)
      else l)"

definition lines :: "rstr \<Rightarrow> rstr list" where
  "lines s = map chop_eol (split_inclusive s)"

text \<open>\<open>split_whitespace()\<close>: the non-empty runs between whitespace.\<close>

fun split_ws_acc :: "rstr \<Rightarrow> rstr \<Rightarrow> rstr list" where
  "split_ws_acc cur [] = (if cur = [] then [] else [rev cur])"
| "split_ws_acc cur (c # cs) =
     (if is_whitespace c
      then (if cur = [] then split_ws_acc [] cs else rev cur # split_ws_acc [] cs)
      else split_ws_acc (c # cur) cs)"

definition split_whitespace :: "rstr \<Rightarrow> rstr list" where
  "split_whitespace s = split_ws_acc [] s"

fun join :: "rstr \<Rightarrow> rstr list \<Rightarrow> rstr" where
  "join sep [] = []"
| "join sep [x] = x"
| "join sep (x # y # xs) = x @ sep @ join sep (y # xs)"

subsection \<open>Numbers as text\<close>

fun show_nat :: "nat \<Rightarrow> rstr" where
  "show_nat n = (if n < 10 then [48 + int n] else show_nat (n div 10) @ [48 + int (n mod 10)])"

declare show_nat.simps [simp del]

definition show_int :: "int \<Rightarrow> rstr" where
  "show_int i = (if i < 0 then lit ''-'' @ show_nat (nat (- i)) else show_nat (nat i))"

definition show_bool :: "bool \<Rightarrow> rstr" where
  "show_bool b = (if b then lit ''true'' else lit ''false'')"

text \<open>\<open>char::to_digit(radix)\<close> for radix 10 and 16.\<close>

definition to_digit :: "int \<Rightarrow> uchar \<Rightarrow> int option" where
  "to_digit radix c =
     (if 48 \<le> c \<and> c \<le> 57 \<and> c - 48 < radix then Some (c - 48)
      else if 97 \<le> c \<and> c \<le> 122 \<and> c - 87 < radix then Some (c - 87)
      else if 65 \<le> c \<and> c \<le> 90 \<and> c - 55 < radix then Some (c - 55)
      else None)"

text \<open>\<open>str::parse\<close> of an unsigned integer with maximum \<open>m\<close>: an optional plus sign, digits.\<close>

fun digits_val :: "int \<Rightarrow> rstr \<Rightarrow> int option" where
  "digits_val acc [] = Some acc"
| "digits_val acc (c # cs) =
     (case to_digit 10 c of Some d \<Rightarrow> digits_val (acc * 10 + d) cs | None \<Rightarrow> None)"

definition parse_unsigned :: "int \<Rightarrow> rstr \<Rightarrow> int option" where
  "parse_unsigned m s =
     (let s' = (case s of c # r \<Rightarrow> if c = 43 then r else s | [] \<Rightarrow> []) in
      if s' = [] then None
      else (case digits_val 0 s' of Some v \<Rightarrow> if v \<le> m then Some v else None | None \<Rightarrow> None))"

text \<open>A decimal with an optional minus sign.\<close>

definition parse_decimal :: "rstr \<Rightarrow> int option" where
  "parse_decimal s =
     (case s of c # r \<Rightarrow> if c = 45 then map_option uminus (digits_val 0 r) else digits_val 0 s
      | [] \<Rightarrow> None)"

lemma digits_val_append:
  "digits_val acc (a @ b) = Option.bind (digits_val acc a) (\<lambda>v. digits_val v b)"
  by (induction a arbitrary: acc) (auto split: option.splits)

lemma digits_val_show_nat: "digits_val 0 (show_nat n) = Some (int n)"
proof (induction n rule: show_nat.induct)
  case (1 n)
  then show ?case
    by (subst show_nat.simps) (auto simp: digits_val_append to_digit_def zdiv_int zmod_int)
qed

lemma show_nat_digits: "\<forall>c \<in> set (show_nat n). 48 \<le> c \<and> c \<le> 57"
proof (induction n rule: show_nat.induct)
  case (1 n)
  then show ?case by (subst (1) show_nat.simps) auto
qed

lemma show_nat_nonempty [simp]: "show_nat n \<noteq> []"
  by (subst show_nat.simps) simp

lemma show_nat_Cons:
  obtains c cs where "show_nat n = c # cs" "48 \<le> c" "c \<le> 57"
  using show_nat_digits [of n] show_nat_nonempty [of n] by (cases "show_nat n") auto

lemma parse_unsigned_show_nat: "int n \<le> m \<Longrightarrow> parse_unsigned m (show_nat n) = Some (int n)"
  by (rule show_nat_Cons [of n]) (use digits_val_show_nat [of n] in \<open>auto simp: parse_unsigned_def\<close>)

lemma parse_decimal_show_int: "parse_decimal (show_int i) = Some i"
proof (cases "i < 0")
  case True
  then show ?thesis by (simp add: show_int_def parse_decimal_def str_simps digits_val_show_nat)
next
  case False
  then show ?thesis
    by (rule_tac n = "nat i" in show_nat_Cons)
      (use digits_val_show_nat [of "nat i"] in \<open>auto simp: show_int_def parse_decimal_def\<close>)
qed

lemma show_int_inject [simp]: "show_int i = show_int j \<longleftrightarrow> i = j"
  by (metis parse_decimal_show_int option.inject)

text \<open>UTF-8 (\<open>as_bytes\<close>), bytes as octets.\<close>

definition utf8_char :: "uchar \<Rightarrow> 8 word list" where
  "utf8_char c =
     (if c < 128 then [of_int c]
      else if c < 2048 then [of_int (192 + c div 64), of_int (128 + c mod 64)]
      else if c < 65536 then
        [of_int (224 + c div 4096), of_int (128 + c div 64 mod 64), of_int (128 + c mod 64)]
      else [of_int (240 + c div 262144), of_int (128 + c div 4096 mod 64),
            of_int (128 + c div 64 mod 64), of_int (128 + c mod 64)])"

definition utf8 :: "rstr \<Rightarrow> 8 word list" where
  "utf8 s = concat (map utf8_char s)"

section \<open>64-bit signed arithmetic\<close>

text \<open>
  An \<open>i64\<close> is an \<open>int\<close> with its width written out where the code can leave it: plain
  \<open>+\<close> and \<open>*\<close> wrap (the release profile of the crate keeps overflow checks off),
  \<open>saturating_add\<close> clamps.
\<close>

definition i64_min :: int where "i64_min = - (2 ^ 63)"
definition i64_max :: int where "i64_max = 2 ^ 63 - 1"

definition is_i64 :: "int \<Rightarrow> bool" where
  "is_i64 x \<longleftrightarrow> i64_min \<le> x \<and> x \<le> i64_max"

definition wrap64 :: "int \<Rightarrow> int" where
  "wrap64 x = (x + 2 ^ 63) mod 2 ^ 64 - 2 ^ 63"

definition sat_add64 :: "int \<Rightarrow> int \<Rightarrow> int" where
  "sat_add64 a b = max i64_min (min i64_max (a + b))"

lemma wrap64_id [simp]: "is_i64 x \<Longrightarrow> wrap64 x = x"
  by (simp add: wrap64_def is_i64_def i64_min_def i64_max_def)

lemma wrap64_range: "is_i64 (wrap64 x)"
  by (simp add: wrap64_def is_i64_def i64_min_def i64_max_def)

lemma sat_add64_range: "is_i64 (sat_add64 a b)"
  by (simp add: sat_add64_def is_i64_def i64_min_def i64_max_def)

section \<open>Hash maps\<close>

text \<open>
  A \<open>HashMap\<close> is an association list with distinct keys; the order of the list is the
  map's iteration order, which Rust leaves unspecified.  Theorems hold for every order.
  \<open>get\<close> is \<open>map_of\<close>, \<open>insert\<close> and a write through \<open>get_mut\<close> are \<open>AList.update\<close>
  (in place when the key is present), \<open>values()\<close> is \<open>map snd\<close>.
\<close>

type_synonym 'v hmap = "(rstr \<times> 'v) list"

definition hm_ok :: "'v hmap \<Rightarrow> bool" where
  "hm_ok m \<longleftrightarrow> distinct (map fst m)"

abbreviation hm_get :: "'v hmap \<Rightarrow> rstr \<Rightarrow> 'v option" where
  "hm_get m k \<equiv> map_of m k"

abbreviation hm_put :: "'v hmap \<Rightarrow> rstr \<Rightarrow> 'v \<Rightarrow> 'v hmap" where
  "hm_put m k v \<equiv> AList.update k v m"

abbreviation hm_values :: "'v hmap \<Rightarrow> 'v list" where
  "hm_values m \<equiv> map snd m"

lemma hm_get_put: "hm_get (hm_put m k v) = (hm_get m)(k \<mapsto> v)"
  by (simp add: update_conv' fun_upd_def)

lemma hm_ok_put [wf_intros]: "hm_ok m \<Longrightarrow> hm_ok (hm_put m k v)"
  by (simp add: hm_ok_def distinct_update)

lemma hm_put_present:
  "hm_get m k = Some v0 \<Longrightarrow> map fst (hm_put m k v) = map fst m"
  by (induction m) auto

lemma hm_put_same: "hm_get m k = Some v \<Longrightarrow> hm_put m k v = m"
  by (induction m) auto

text \<open>A property of every value survives a write of a value that has it.\<close>

lemma hm_all_put:
  "\<forall>v \<in> set (hm_values m). P v \<Longrightarrow> P x \<Longrightarrow> \<forall>v \<in> set (hm_values (hm_put m k x)). P v"
  by (induction m) auto

section \<open>Lists\<close>

definition nth_opt :: "'a list \<Rightarrow> nat \<Rightarrow> 'a option" where
  "nth_opt xs i = (if i < length xs then Some (xs ! i) else None)"

lemma nth_opt_Some [simp]: "i < length xs \<Longrightarrow> nth_opt xs i = Some (xs ! i)"
  by (simp add: nth_opt_def)

lemma nth_opt_eq_Some: "nth_opt xs i = Some x \<longleftrightarrow> i < length xs \<and> x = xs ! i"
  by (auto simp: nth_opt_def)

lemma nth_opt_eq_None: "nth_opt xs i = None \<longleftrightarrow> length xs \<le> i"
  by (auto simp: nth_opt_def)

text \<open>The index of the first element with a property (\<open>iter().position\<close>).\<close>

fun position :: "('a \<Rightarrow> bool) \<Rightarrow> 'a list \<Rightarrow> nat option" where
  "position P [] = None"
| "position P (x # xs) = (if P x then Some 0 else map_option Suc (position P xs))"

lemma position_Some:
  "position P xs = Some i \<Longrightarrow> i < length xs \<and> P (xs ! i) \<and> (\<forall>j < i. \<not> P (xs ! j))"
  by (induction xs arbitrary: i) (auto simp: less_Suc_eq_0_disj split: if_splits)

lemma position_None: "position P xs = None \<longleftrightarrow> (\<forall>x \<in> set xs. \<not> P x)"
  by (induction xs) auto

lemma position_unique:
  "i < length xs \<Longrightarrow> P (xs ! i) \<Longrightarrow> (\<And>j. j < length xs \<Longrightarrow> P (xs ! j) \<Longrightarrow> j = i)
   \<Longrightarrow> position P xs = Some i"
proof (induction xs arbitrary: i)
  case (Cons x xs)
  show ?case
  proof (cases i)
    case 0
    with Cons.prems show ?thesis by simp
  next
    case (Suc k)
    have "\<not> P x" using Cons.prems(3) [of 0] Suc by auto
    moreover have "position P xs = Some k"
    proof (rule Cons.IH)
      show "k < length xs" "P (xs ! k)" using Cons.prems(1,2) Suc by auto
      show "j = k" if "j < length xs" "P (xs ! j)" for j
        using Cons.prems(3) [of "Suc j"] that Suc by simp
    qed
    ultimately show ?thesis using Suc by simp
  qed
qed simp

section \<open>Interfaces shared by components\<close>

text \<open>
  A component with state, driven by events: what it promises is an invariant that every
  event keeps.  The client lemma is the invariant of every run.
\<close>

locale invariant_machine =
  fixes step :: "'s \<Rightarrow> 'e \<Rightarrow> 's"
    and inv :: "'s \<Rightarrow> bool"
  assumes step_inv: "inv s \<Longrightarrow> inv (step s e)"
begin

lemma run_inv: "inv s \<Longrightarrow> inv (foldl step s es)"
  by (induction es arbitrary: s) (auto simp: step_inv)

end

text \<open>
  A publish backend that reconciles: what it is asked to publish is compared with the
  live state, and it writes only on a difference.  \<open>publish r w\<close> is the world after the
  call and whether it wrote.  \<open>good r w\<close> says that request and world are within the
  contract, \<open>same r r'\<close> that two requests publish the same thing.  A client that asks
  for the same thing on every tick writes at most once, on the first tick.
\<close>

fun run_publish :: "('r \<Rightarrow> 'w \<Rightarrow> 'w \<times> bool) \<Rightarrow> 'r list \<Rightarrow> 'w \<Rightarrow> 'w \<times> bool list" where
  "run_publish publish [] w = (w, [])"
| "run_publish publish (r # rs) w =
     (case publish r w of (w', b) \<Rightarrow>
        (case run_publish publish rs w' of (w'', bs) \<Rightarrow> (w'', b # bs)))"

locale reconciling_publisher =
  fixes publish :: "'r \<Rightarrow> 'w \<Rightarrow> 'w \<times> bool"
    and good :: "'r \<Rightarrow> 'w \<Rightarrow> bool"
    and same :: "'r \<Rightarrow> 'r \<Rightarrow> bool"
  assumes good_publish: "good r w \<Longrightarrow> good r' w \<Longrightarrow> good r' (fst (publish r w))"
    and quiet: "good r w \<Longrightarrow> \<not> snd (publish r w) \<Longrightarrow> fst (publish r w) = w"
    and settled: "good r w \<Longrightarrow> good r' w \<Longrightarrow> same r r' \<Longrightarrow>
      \<not> snd (publish r' (fst (publish r w)))"
begin

lemma settled_ticks:
  assumes "good r w" and "\<forall>r' \<in> set rs. good r' w \<and> same r r'"
  shows "run_publish publish rs (fst (publish r w)) =
    (fst (publish r w), replicate (length rs) False)"
  using assms(2)
proof (induction rs)
  case (Cons r' rs)
  let ?w = "fst (publish r w)"
  from Cons.prems have "\<not> snd (publish r' ?w)" using settled [OF assms(1)] by simp
  moreover have "good r' ?w" using Cons.prems good_publish [OF assms(1)] by simp
  ultimately have "publish r' ?w = (?w, False)" using quiet [of r' ?w] by (metis prod.collapse)
  with Cons show ?case by simp
qed simp

lemma writes_at_most_once:
  assumes "good r w" and "\<forall>r' \<in> set rs. good r' w \<and> same r r'"
  shows "run_publish publish (r # rs) w =
    (fst (publish r w), snd (publish r w) # replicate (length rs) False)"
  using settled_ticks [OF assms] by (simp add: split_beta)

end

end
