(* ===== verification/NetAddr.thy ===== *)
theory NetAddr
  imports Prelude
begin

text \<open>
  The standard library's \<open>str::parse::<IpAddr>\<close>, which config validation
  (\<open>config.rs\<close>) and the probe tick (\<open>engine/mod.rs\<close>) use to decide what may be
  published as an address.  The readers follow \<open>core::net::parser\<close>: each takes the
  remaining text and returns the value read with the text after it, or \<open>None\<close>.

  The facts the other components need: an accepted literal is non-empty and consists of
  hexadecimal digits, colons and dots only, so it has no whitespace and no comment sign.
\<close>

definition read_number :: "int \<Rightarrow> nat \<Rightarrow> bool \<Rightarrow> int \<Rightarrow> rstr \<Rightarrow> (int \<times> rstr) option" where
  "read_number radix max_digits allow_zero_prefix limit s =
     (let ds = takeWhile (\<lambda>c. to_digit radix c \<noteq> None) s;
          n = foldl (\<lambda>a c. a * radix + the (to_digit radix c)) 0 ds
      in if ds = [] \<or> max_digits < length ds then None
         else if \<not> allow_zero_prefix \<and> hd ds = 48 \<and> 1 < length ds then None
         else if limit < n then None
         else Some (n, drop (length ds) s))"

definition read_separator ::
  "uchar \<Rightarrow> nat \<Rightarrow> (rstr \<Rightarrow> ('a \<times> rstr) option) \<Rightarrow> rstr \<Rightarrow> ('a \<times> rstr) option" where
  "read_separator sep index inner s =
     (if index = 0 then inner s
      else (case s of [] \<Rightarrow> None | c # cs \<Rightarrow> if c = sep then inner cs else None))"

abbreviation DOT :: uchar where "DOT \<equiv> 46"
abbreviation COLON :: uchar where "COLON \<equiv> 58"

definition read_ipv4_addr :: "rstr \<Rightarrow> (int list \<times> rstr) option" where
  "read_ipv4_addr s = do {
     (a, s1) \<leftarrow> read_separator DOT 0 (read_number 10 3 False 255) s;
     (b, s2) \<leftarrow> read_separator DOT 1 (read_number 10 3 False 255) s1;
     (c, s3) \<leftarrow> read_separator DOT 2 (read_number 10 3 False 255) s2;
     (d, s4) \<leftarrow> read_separator DOT 3 (read_number 10 3 False 255) s3;
     Some ([a, b, c, d], s4)
   }"

text \<open>
  \<open>read_groups n i s\<close> reads at most \<open>n\<close> groups from position \<open>i\<close>; the flag says that
  the last two groups came from an embedded IPv4 address, which needs two free groups.
\<close>

fun read_groups :: "nat \<Rightarrow> nat \<Rightarrow> rstr \<Rightarrow> int list \<times> bool \<times> rstr" where
  "read_groups 0 i s = ([], False, s)"
| "read_groups (Suc r) i s =
     (case (if 0 < r then read_separator COLON i read_ipv4_addr s else None) of
        Some (os, s') \<Rightarrow> ([os ! 0 * 256 + os ! 1, os ! 2 * 256 + os ! 3], True, s')
      | None \<Rightarrow>
          (case read_separator COLON i (read_number 16 4 True 65535) s of
             None \<Rightarrow> ([], False, s)
           | Some (g, s') \<Rightarrow>
               (case read_groups r (Suc i) s' of (gs, v4, s'') \<Rightarrow> (g # gs, v4, s''))))"

definition read_ipv6_addr :: "rstr \<Rightarrow> (int list \<times> rstr) option" where
  "read_ipv6_addr s =
     (case read_groups 8 0 s of (hd_groups, hd_v4, s1) \<Rightarrow>
        if length hd_groups = 8 then Some (hd_groups, s1)
        else if hd_v4 then None
        else if starts_with [COLON, COLON] s1 then
          (case read_groups (8 - (length hd_groups + 1)) 0 (drop 2 s1) of (tl_groups, _, s2) \<Rightarrow>
             Some (hd_groups @ replicate (8 - length hd_groups - length tl_groups) 0 @ tl_groups,
                   s2))
        else None)"

datatype ip_addr = V4 "int list" | V6 "int list"

definition read_ip_addr :: "rstr \<Rightarrow> (ip_addr \<times> rstr) option" where
  "read_ip_addr s =
     (case read_ipv4_addr s of
        Some (os, s') \<Rightarrow> Some (V4 os, s')
      | None \<Rightarrow> map_option (\<lambda>(gs, s'). (V6 gs, s')) (read_ipv6_addr s))"

definition parse_ip :: "rstr \<Rightarrow> ip_addr option" where
  "parse_ip s =
     (case read_ip_addr s of Some (a, []) \<Rightarrow> Some a | _ \<Rightarrow> None)"

definition is_ip_literal :: "rstr \<Rightarrow> bool" where
  "is_ip_literal s \<longleftrightarrow> parse_ip s \<noteq> None"

section \<open>What the readers consume\<close>

definition addr_char :: "uchar \<Rightarrow> bool" where
  "addr_char c \<longleftrightarrow> to_digit 16 c \<noteq> None \<or> c = COLON \<or> c = DOT"

text \<open>\<open>s\<close> is a run of address characters followed by \<open>rest\<close>.\<close>

definition eats :: "rstr \<Rightarrow> rstr \<Rightarrow> bool" where
  "eats s rest \<longleftrightarrow> (\<exists>pre. s = pre @ rest \<and> (\<forall>c \<in> set pre. addr_char c))"

definition eats1 :: "rstr \<Rightarrow> rstr \<Rightarrow> bool" where
  "eats1 s rest \<longleftrightarrow> (\<exists>pre. pre \<noteq> [] \<and> s = pre @ rest \<and> (\<forall>c \<in> set pre. addr_char c))"

lemma eats_refl [simp]: "eats s s"
  by (auto simp: eats_def)

lemma eatsI: "s = pre @ rest \<Longrightarrow> (\<And>c. c \<in> set pre \<Longrightarrow> addr_char c) \<Longrightarrow> eats s rest"
  by (auto simp: eats_def)

lemma eats1I:
  "s = pre @ rest \<Longrightarrow> pre \<noteq> [] \<Longrightarrow> (\<And>c. c \<in> set pre \<Longrightarrow> addr_char c) \<Longrightarrow> eats1 s rest"
  by (auto simp: eats1_def)

lemma eats_trans: assumes "eats a b" "eats b c" shows "eats a c"
proof -
  from assms obtain p q where "a = p @ b" "b = q @ c"
    "\<forall>c \<in> set p. addr_char c" "\<forall>c \<in> set q. addr_char c"
    unfolding eats_def by blast
  then show ?thesis by (intro eatsI [of _ "p @ q"]) auto
qed

lemma eats1_eats: "eats1 a b \<Longrightarrow> eats a b"
  by (auto simp: eats1_def eats_def)

lemma eats1_trans: assumes "eats1 a b" "eats b c" shows "eats1 a c"
proof -
  from assms obtain p q where "p \<noteq> []" "a = p @ b" "b = q @ c"
    "\<forall>c \<in> set p. addr_char c" "\<forall>c \<in> set q. addr_char c"
    unfolding eats_def eats1_def by blast
  then show ?thesis by (intro eats1I [of _ "p @ q"]) auto
qed

lemma eats1_Cons: assumes "addr_char c" "eats s rest" shows "eats1 (c # s) rest"
proof -
  from assms obtain p where "s = p @ rest" "\<forall>c \<in> set p. addr_char c"
    unfolding eats_def by blast
  with assms(1) show ?thesis by (intro eats1I [of _ "c # p"]) auto
qed

lemma to_digit_10_16: "to_digit 10 c = Some d \<Longrightarrow> to_digit 16 c = Some d"
  by (auto simp: to_digit_def split: if_splits)

lemma to_digit_addr_char: "to_digit 10 c \<noteq> None \<or> to_digit 16 c \<noteq> None \<Longrightarrow> addr_char c"
  by (auto simp: addr_char_def dest: to_digit_10_16)

lemma read_number_eats:
  assumes "read_number radix m z lim s = Some (n, rest)" and "radix = 10 \<or> radix = 16"
  shows "eats1 s rest"
proof -
  let ?ds = "takeWhile (\<lambda>c. to_digit radix c \<noteq> None) s"
  from assms(1) have "?ds \<noteq> []" and rest: "rest = drop (length ?ds) s"
    by (auto simp: read_number_def Let_def split: if_splits)
  moreover have "s = ?ds @ rest"
    unfolding rest dropWhile_eq_drop [symmetric] by simp
  moreover have "\<forall>c \<in> set ?ds. addr_char c"
    using assms(2) by (auto dest!: set_takeWhileD intro!: to_digit_addr_char)
  ultimately show ?thesis unfolding eats1_def by blast
qed

lemma read_separator_eats:
  assumes "read_separator sep i inner s = Some (v, rest)" and "addr_char sep"
    and "\<And>s v rest. inner s = Some (v, rest) \<Longrightarrow> eats1 s rest"
  shows "eats1 s rest"
  using assms
  by (auto simp: read_separator_def eats1_eats split: if_splits list.splits intro: eats1_Cons)

lemma addr_char_seps [simp]: "addr_char DOT" "addr_char COLON"
  by (simp_all add: addr_char_def)

lemma read_ipv4_addr_eats:
  assumes "read_ipv4_addr s = Some (v, rest)" shows "eats1 s rest"
proof -
  have step: "eats1 s rest" if "read_separator DOT i (read_number 10 3 False 255) s = Some (v, rest)"
    for i s v rest
    using that by (rule read_separator_eats) (auto intro: read_number_eats)
  from assms obtain a b c d s1 s2 s3
    where "read_separator DOT 0 (read_number 10 3 False 255) s = Some (a, s1)"
      "read_separator DOT 1 (read_number 10 3 False 255) s1 = Some (b, s2)"
      "read_separator DOT 2 (read_number 10 3 False 255) s2 = Some (c, s3)"
      "read_separator DOT 3 (read_number 10 3 False 255) s3 = Some (d, rest)"
    by (auto simp: read_ipv4_addr_def bind_eq_Some_conv)
  then have "eats1 s s1" "eats1 s1 s2" "eats1 s2 s3" "eats1 s3 rest"
    by (auto dest: step)
  then show ?thesis by (meson eats1_eats eats1_trans)
qed

lemma read_groups_eats: "read_groups n i s = (gs, v4, rest) \<Longrightarrow> eats s rest"
proof (induction n i s arbitrary: gs v4 rest rule: read_groups.induct)
  case (2 r i s)
  have v4_eats: "eats1 s rest" if "read_separator COLON i read_ipv4_addr s = Some (v, rest)" for v rest
    using that by (rule read_separator_eats) (auto intro: read_ipv4_addr_eats)
  have num_eats: "eats1 s rest"
    if "read_separator COLON i (read_number 16 4 True 65535) s = Some (v, rest)" for v rest
    using that by (rule read_separator_eats) (auto intro: read_number_eats)
  consider (v4) v s' where "0 < r" "read_separator COLON i read_ipv4_addr s = Some (v, s')" "rest = s'"
    | (stop) "rest = s"
    | (num) v s' gs' v4'
      where "(if 0 < r then read_separator COLON i read_ipv4_addr s else None) = None"
        "read_separator COLON i (read_number 16 4 True 65535) s = Some (v, s')"
        "read_groups r (Suc i) s' = (gs', v4', rest)"
    using "2.prems" by (auto split: if_splits option.splits prod.splits)
  then show ?case
  proof cases
    case v4
    then show ?thesis using eats1_eats [OF v4_eats [OF v4(2)]] by simp
  next
    case stop
    then show ?thesis by simp
  next
    case num
    from num(3) have "eats s' rest" by (rule "2.IH" [OF num(1,2) refl])
    with num(2) show ?thesis by (blast intro: eats_trans eats1_eats num_eats)
  qed
qed simp

lemma starts_with_split: "starts_with p s \<Longrightarrow> s = p @ drop (length p) s"
  unfolding starts_with_def by (metis append_take_drop_id)

lemma read_ipv6_addr_eats: "read_ipv6_addr s = Some (v, rest) \<Longrightarrow> eats s rest"
proof -
  assume a: "read_ipv6_addr s = Some (v, rest)"
  obtain hg v4 s1 where hg: "read_groups 8 0 s = (hg, v4, s1)" by (metis prod_cases3)
  then have 1: "eats s s1" by (rule read_groups_eats)
  show ?thesis
  proof (cases "length hg = 8")
    case True
    with a hg 1 show ?thesis by (simp add: read_ipv6_addr_def)
  next
    case False
    obtain tg v4' s2 where tg: "read_groups (8 - (length hg + 1)) 0 (drop 2 s1) = (tg, v4', s2)"
      by (metis prod_cases3)
    from False a hg tg have st: "starts_with [COLON, COLON] s1" and "rest = s2"
      by (auto simp: read_ipv6_addr_def split: if_splits)
    have "eats s1 (drop 2 s1)"
      using starts_with_split [OF st] by (intro eatsI [of _ "[COLON, COLON]"]) (auto simp: numeral_2_eq_2)
    moreover have "eats (drop 2 s1) s2" using tg by (rule read_groups_eats)
    ultimately show ?thesis using 1 \<open>rest = s2\<close> by (blast intro: eats_trans)
  qed
qed

lemma is_ip_literal_chars:
  assumes "is_ip_literal s" and "c \<in> set s"
  shows "addr_char c"
proof -
  from assms(1) obtain a where "read_ip_addr s = Some (a, [])"
    by (auto simp: is_ip_literal_def parse_ip_def split: option.splits prod.splits list.splits)
  then consider v where "read_ipv4_addr s = Some (v, [])" | v where "read_ipv6_addr s = Some (v, [])"
    by (auto simp: read_ip_addr_def split: option.splits)
  then have "eats s []"
    by cases (blast intro: eats1_eats read_ipv4_addr_eats read_ipv6_addr_eats)+
  then show ?thesis using assms(2) by (simp add: eats_def)
qed

lemma not_is_ip_literal_Nil: "\<not> is_ip_literal []"
  by code_simp

lemma is_ip_literal_nonempty: "is_ip_literal s \<Longrightarrow> s \<noteq> []"
  using not_is_ip_literal_Nil by blast

lemma addr_char_not_space: "addr_char c \<Longrightarrow> \<not> is_whitespace c \<and> c \<noteq> HASH"
  by (auto simp: addr_char_def is_whitespace_def to_digit_def split: if_splits)

lemma is_ip_literal_token:
  "is_ip_literal s \<Longrightarrow> s \<noteq> [] \<and> (\<forall>c \<in> set s. \<not> is_whitespace c \<and> c \<noteq> HASH)"
  using is_ip_literal_nonempty is_ip_literal_chars addr_char_not_space by blast

lemma is_ip_literal_examples:
  "is_ip_literal (lit ''192.0.2.10'')" "is_ip_literal (lit ''::1'')"
  "is_ip_literal (lit ''2001:db8::1'')" "is_ip_literal (lit ''10.8.0.1'')"
  "\<not> is_ip_literal (lit ''192.0.2'')" "\<not> is_ip_literal (lit ''192.0.02.1'')"
  "\<not> is_ip_literal (lit ''host-b'')" "\<not> is_ip_literal (lit ''1:2:3'')"
  by code_simp+

end
