(* ===== verification/Utf8.thy ===== *)
theory Utf8
  imports Prelude
begin

text \<open>
  \<open>String::from_utf8_lossy\<close> of the standard library, which the daemon applies to whatever
  a child process or a peer sent: each maximal invalid prefix becomes one U+FFFD.  It is
  the inverse of \<open>utf8\<close> (\<open>as_bytes\<close>) on every string.
\<close>

section \<open>Definitions\<close>

definition REPLACEMENT :: uchar where "REPLACEMENT = 65533"

definition cont_byte :: "int \<Rightarrow> bool" where
  "cont_byte b \<longleftrightarrow> 128 \<le> b \<and> b < 192"

text \<open>The second byte a three or four byte sequence may have, by its first.\<close>

definition second_byte :: "int \<Rightarrow> int \<Rightarrow> bool" where
  "second_byte b c \<longleftrightarrow>
     (if b = 224 then 160 \<le> c \<and> c < 192
      else if b = 237 then 128 \<le> c \<and> c < 160
      else if b = 240 then 144 \<le> c \<and> c < 192
      else if b = 244 then 128 \<le> c \<and> c < 144
      else cont_byte c)"

definition lossy_step :: "int \<Rightarrow> int list \<Rightarrow> uchar \<times> int list" where
  "lossy_step b rest =
     (if b < 128 then (b, rest)
      else if 194 \<le> b \<and> b \<le> 223 then
        (case rest of
           c # r \<Rightarrow> if cont_byte c then ((b - 192) * 64 + (c - 128), r) else (REPLACEMENT, rest)
         | [] \<Rightarrow> (REPLACEMENT, []))
      else if 224 \<le> b \<and> b \<le> 239 then
        (case rest of
           c # r \<Rightarrow>
             if second_byte b c then
               (case r of
                  d # q \<Rightarrow> if cont_byte d
                    then ((b - 224) * 4096 + (c - 128) * 64 + (d - 128), q) else (REPLACEMENT, r)
                | [] \<Rightarrow> (REPLACEMENT, []))
             else (REPLACEMENT, rest)
         | [] \<Rightarrow> (REPLACEMENT, []))
      else if 240 \<le> b \<and> b \<le> 244 then
        (case rest of
           c # r \<Rightarrow>
             if second_byte b c then
               (case r of
                  d # q \<Rightarrow>
                    if cont_byte d then
                      (case q of
                         e # p \<Rightarrow> if cont_byte e
                           then ((b - 240) * 262144 + (c - 128) * 4096 + (d - 128) * 64 + (e - 128), p)
                           else (REPLACEMENT, q)
                       | [] \<Rightarrow> (REPLACEMENT, []))
                    else (REPLACEMENT, r)
                | [] \<Rightarrow> (REPLACEMENT, []))
             else (REPLACEMENT, rest)
         | [] \<Rightarrow> (REPLACEMENT, []))
      else (REPLACEMENT, rest))"

lemma lossy_step_length: "lossy_step b rest = (c, r) \<Longrightarrow> length r \<le> length rest"
  by (auto simp: lossy_step_def split: if_splits list.splits)

function lossy :: "int list \<Rightarrow> rstr" where
  "lossy [] = []"
| "lossy (b # bs) = (case lossy_step b bs of (c, r) \<Rightarrow> c # lossy r)"
  by pat_completeness auto
termination
  by (relation "measure length") (auto simp: less_Suc_eq_le dest: lossy_step_length [OF sym])

definition from_utf8_lossy :: "8 word list \<Rightarrow> rstr" where
  "from_utf8_lossy bs = lossy (map uint bs)"

section \<open>ASCII in what is decoded\<close>

text \<open>An ASCII byte is never part of a longer sequence, and comes only from itself.\<close>

lemma lossy_step_ascii:
  assumes "lossy_step b0 bs = (c, r)" and "0 \<le> b" "b < 128"
  shows "lossy_step b0 (bs @ b # s) = (c, r @ b # s)"
proof -
  have nc: "\<not> cont_byte b" "\<not> second_byte b0 b"
    using assms(2,3) by (auto simp: cont_byte_def second_byte_def)
  show ?thesis
  proof (cases bs)
    case Nil
    with assms nc show ?thesis by (auto simp: lossy_step_def)
  next
    case (Cons c1 bs1)
    show ?thesis
    proof (cases bs1)
      case Nil
      with Cons assms nc show ?thesis by (auto simp: lossy_step_def split: if_splits)
    next
      case (Cons c2 bs2)
      with \<open>bs = c1 # bs1\<close> assms nc show ?thesis
        by (cases bs2) (auto simp: lossy_step_def split: if_splits)
    qed
  qed
qed

lemma lossy_ascii: "0 \<le> b \<Longrightarrow> b < 128 \<Longrightarrow> lossy (a @ b # s) = lossy a @ b # lossy s"
proof (induction a rule: lossy.induct)
  case 1
  then show ?case by (simp add: lossy_step_def)
next
  case (2 b0 bs)
  obtain c r where cr: "lossy_step b0 bs = (c, r)" by fastforce
  from lossy_step_ascii [OF this "2.prems", of s] 2 cr show ?case by simp
qed

lemma lossy_step_ascii_only:
  "lossy_step b rest = (c, r) \<Longrightarrow> c < 128 \<Longrightarrow> b = c \<and> r = rest"
  by (auto simp: lossy_step_def cont_byte_def second_byte_def REPLACEMENT_def split: list.splits if_splits)

lemma lossy_step_rest: "lossy_step b rest = (c, r) \<Longrightarrow> set r \<subseteq> set rest"
  by (auto simp: lossy_step_def split: if_splits list.splits)

lemma lossy_ascii_only: "c \<in> set (lossy bs) \<Longrightarrow> c < 128 \<Longrightarrow> c \<in> set bs"
proof (induction bs rule: lossy.induct)
  case (2 b bs)
  obtain c' r where cr: "lossy_step b bs = (c', r)" by fastforce
  with 2 lossy_step_ascii_only [OF cr] lossy_step_rest [OF cr] show ?case by auto
qed simp

section \<open>Round trip\<close>

text \<open>The Unicode scalar values, what a Rust \<open>char\<close> can be.\<close>

definition scalar :: "uchar \<Rightarrow> bool" where
  "scalar c \<longleftrightarrow> 0 \<le> c \<and> c \<le> 1114111 \<and> \<not> (55296 \<le> c \<and> c \<le> 57343)"

lemma uint_byte: "uint (of_int k :: 8 word) = k mod 256"
  by (simp add: uint_word_of_int)

lemma uint_byte_small: "0 \<le> k \<Longrightarrow> k < 256 \<Longrightarrow> uint (of_int k :: 8 word) = k"
  by (simp add: uint_byte)

lemma base64_digits:
  fixes c :: int
  shows "c div 4096 * 4096 + c div 64 mod 64 * 64 + c mod 64 = c"
    and "c div 262144 * 262144 + c div 4096 mod 64 * 4096 + c div 64 mod 64 * 64 + c mod 64 = c"
proof -
  have "c div 4096 = c div 64 div 64" "c div 262144 = c div 4096 div 64"
    using zdiv_zmult2_eq [of 64 c 64] zdiv_zmult2_eq [of 64 c 4096] by simp_all
  moreover have "k div 64 * 64 + k mod 64 = k" for k :: int by simp
  note this [of c] this [of "c div 64"] this [of "c div 4096"]
  ultimately show "c div 4096 * 4096 + c div 64 mod 64 * 64 + c mod 64 = c"
    and "c div 262144 * 262144 + c div 4096 mod 64 * 4096 + c div 64 mod 64 * 64 + c mod 64 = c"
    by linarith+
qed

lemma lossy_step_3:
  assumes "0 \<le> h" "h \<le> 15" "0 \<le> m" "m < 64" "0 \<le> l" "l < 64"
    and "h = 0 \<Longrightarrow> 32 \<le> m" "h = 13 \<Longrightarrow> m < 32"
  shows "lossy_step (224 + h) ((128 + m) # (128 + l) # r) = (h * 4096 + m * 64 + l, r)"
  using assms by (simp add: lossy_step_def cont_byte_def second_byte_def)

lemma lossy_step_4:
  assumes "0 \<le> h" "h \<le> 4" "0 \<le> n" "n < 64" "0 \<le> m" "m < 64" "0 \<le> l" "l < 64"
    and "h = 0 \<Longrightarrow> 16 \<le> n" "h = 4 \<Longrightarrow> n < 16"
  shows "lossy_step (240 + h) ((128 + n) # (128 + m) # (128 + l) # r) =
    (h * 262144 + n * 4096 + m * 64 + l, r)"
  using assms by (simp add: lossy_step_def cont_byte_def second_byte_def)

lemma lossy_char:
  assumes "scalar c"
  shows "\<exists>b bs. map uint (utf8_char c) = b # bs \<and> lossy_step b (bs @ r) = (c, r)"
proof -
  consider "c < 128" | "128 \<le> c" "c < 2048" | "2048 \<le> c" "c < 65536" | "65536 \<le> c" by linarith
  then show ?thesis
  proof cases
    case 1
    with assms show ?thesis by (simp add: utf8_char_def uint_byte scalar_def lossy_step_def)
  next
    case 2
    let ?h = "c div 64" and ?l = "c mod 64"
    have *: "2 \<le> ?h" "?h \<le> 31" "0 \<le> ?l" "?l < 64" "?h * 64 + ?l = c" using 2 by auto
    then have "map uint (utf8_char c) = [192 + ?h, 128 + ?l]"
      using 2 * unfolding utf8_char_def by (simp only: list.map uint_byte if_False if_True not_less split: if_splits) simp
    with * show ?thesis by (simp add: lossy_step_def cont_byte_def)
  next
    case 3
    let ?h = "c div 4096" and ?m = "c div 64 mod 64" and ?l = "c mod 64"
    have r: "0 \<le> ?h" "?h \<le> 15" "0 \<le> ?m" "?m < 64" "0 \<le> ?l" "?l < 64" using 3 by auto
    have c: "?h * 4096 + ?m * 64 + ?l = c" by (rule base64_digits)
    have "lossy_step (224 + ?h) ((128 + ?m) # (128 + ?l) # r) = (?h * 4096 + ?m * 64 + ?l, r)"
    proof (rule lossy_step_3 [OF r])
      show "?h = 0 \<Longrightarrow> 32 \<le> ?m" using 3 r c by linarith
      show "?h = 13 \<Longrightarrow> ?m < 32" using r c assms unfolding scalar_def by linarith
    qed
    moreover have "map uint (utf8_char c) = [224 + ?h, 128 + ?m, 128 + ?l]"
    proof -
      from 3 have "\<not> c < 128" "\<not> c < 2048" "c < 65536" by simp_all
      then have "utf8_char c = [of_int (224 + ?h), of_int (128 + ?m), of_int (128 + ?l)]"
        unfolding utf8_char_def by (simp only: if_False if_True)
      moreover have "224 + ?h < 256" "128 + ?m < 256" "128 + ?l < 256" using r by linarith+
      ultimately show ?thesis using r by (simp only: list.map uint_byte_small add_nonneg_nonneg zero_le_numeral)
    qed
    ultimately show ?thesis unfolding c by (intro exI conjI) (assumption, simp only: append.simps)
  next
    case 4
    let ?h = "c div 262144" and ?n = "c div 4096 mod 64" and ?m = "c div 64 mod 64"
      and ?l = "c mod 64"
    have r: "0 \<le> ?h" "?h \<le> 4" "0 \<le> ?n" "?n < 64" "0 \<le> ?m" "?m < 64" "0 \<le> ?l" "?l < 64"
      using 4 assms by (auto simp: scalar_def)
    have c: "?h * 262144 + ?n * 4096 + ?m * 64 + ?l = c" by (rule base64_digits)
    have "lossy_step (240 + ?h) ((128 + ?n) # (128 + ?m) # (128 + ?l) # r) =
        (?h * 262144 + ?n * 4096 + ?m * 64 + ?l, r)"
    proof (rule lossy_step_4 [OF r])
      show "?h = 0 \<Longrightarrow> 16 \<le> ?n" using 4 r c by linarith
      show "?h = 4 \<Longrightarrow> ?n < 16" using r c assms unfolding scalar_def by linarith
    qed
    moreover have "map uint (utf8_char c) = [240 + ?h, 128 + ?n, 128 + ?m, 128 + ?l]"
    proof -
      from 4 have "\<not> c < 128" "\<not> c < 2048" "\<not> c < 65536" by simp_all
      then have "utf8_char c = [of_int (240 + ?h), of_int (128 + ?n), of_int (128 + ?m), of_int (128 + ?l)]"
        unfolding utf8_char_def by (simp only: if_False)
      moreover have "240 + ?h < 256" "128 + ?n < 256" "128 + ?m < 256" "128 + ?l < 256" using r by linarith+
      ultimately show ?thesis using r by (simp only: list.map uint_byte_small add_nonneg_nonneg zero_le_numeral)
    qed
    ultimately show ?thesis unfolding c by (intro exI conjI) (assumption, simp only: append.simps)
  qed
qed

lemma from_utf8_lossy_utf8: "\<forall>c \<in> set s. scalar c \<Longrightarrow> from_utf8_lossy (utf8 s) = s"
proof (induction s)
  case (Cons c s)
  then obtain b bs where "map uint (utf8_char c) = b # bs"
    "lossy_step b (bs @ map uint (utf8 s)) = (c, map uint (utf8 s))"
    using lossy_char [of c "map uint (utf8 s)"] by auto
  with Cons show ?case by (simp add: from_utf8_lossy_def utf8_def)
qed (simp add: from_utf8_lossy_def utf8_def)

end
