(* ===== verification/Config.thy ===== *)
theory Config
  imports NetAddr
begin

unbundle bit_operations_syntax

text \<open>
  \<open>src/config.rs\<close>: the configuration types, the defaulting pass, the derived transport
  identity, and validation.  \<open>serde_json\<close> and the file system are parameters of
  \<open>config_load\<close>.  An error string of the source is a constructor of \<open>verr\<close> with the
  values the message quotes.  A \<open>Result<(), String>\<close> is a \<open>verr option\<close>, \<open>Some e\<close> for
  \<open>Err(e)\<close>.

  The specification of validation is \<open>config_ok\<close>, a conjunction of conditions on the
  configuration; validation accepts exactly the configurations that satisfy it.
\<close>

section \<open>Types\<close>

record probe =
  p_method :: rstr
  p_target :: rstr
  p_port :: int
  p_path :: rstr
  p_bind_to_interface :: bool
  p_interval_ms :: int
  p_timeout_ms :: int
  p_up_threshold :: int
  p_down_threshold :: int
  p_exec :: rstr

record transport =
  t_ident :: rstr
  t_address :: rstr
  t_interface :: rstr
  t_priority :: int
  t_provider_id :: rstr
  t_probe :: probe

record default_probe =
  d_interval_ms :: int
  d_timeout_ms :: int
  d_up_threshold :: int
  d_down_threshold :: int

record peer =
  pe_hostnames :: "rstr list"
  pe_transports :: "transport list"
  pe_min_hold_ms :: int
  pe_on_all_down :: rstr
  pe_max_age_sec :: "int option"

record uplink =
  u_transports :: "transport list"
  u_min_hold_ms :: int
  u_route_metric :: bool
  u_metric_base :: int
  u_metric_step :: int

record daemon =
  dm_state_dir :: rstr
  dm_runtime_dir :: rstr
  dm_hosts_file :: rstr
  dm_ip_path :: rstr
  dm_default_probe :: default_probe

record config =
  c_daemon :: daemon
  c_peers :: "peer hmap"
  c_uplinks :: "uplink hmap"

definition ON_ALL_DOWN_LAST_KNOWN_GOOD :: rstr where
  "ON_ALL_DOWN_LAST_KNOWN_GOOD = lit ''lastKnownGood''"

definition ON_ALL_DOWN_UNPUBLISH :: rstr where
  "ON_ALL_DOWN_UNPUBLISH = lit ''unpublish''"

lemma on_all_down_distinct [simp]:
  "ON_ALL_DOWN_LAST_KNOWN_GOOD \<noteq> ON_ALL_DOWN_UNPUBLISH"
  "ON_ALL_DOWN_UNPUBLISH \<noteq> ON_ALL_DOWN_LAST_KNOWN_GOOD"
  by (simp_all add: ON_ALL_DOWN_LAST_KNOWN_GOOD_def ON_ALL_DOWN_UNPUBLISH_def)

section \<open>Defaults\<close>

definition or_int :: "int \<Rightarrow> int \<Rightarrow> int" where
  "or_int v d = (if v = 0 then d else v)"

definition or_str :: "rstr \<Rightarrow> rstr \<Rightarrow> rstr" where
  "or_str s d = (if s = [] then d else s)"

lemma or_int_simps [simp]: "or_int (or_int v d) d = or_int v d" "d \<noteq> 0 \<Longrightarrow> or_int v d \<noteq> 0"
  by (auto simp: or_int_def)

lemma or_str_simps [simp]: "or_str (or_str s d) d = or_str s d" "d \<noteq> [] \<Longrightarrow> or_str s d \<noteq> []"
  by (auto simp: or_str_def)

definition effective_target :: "transport \<Rightarrow> rstr" where
  "effective_target t =
     (if p_target (t_probe t) \<noteq> [] then p_target (t_probe t) else t_address t)"

definition probe_apply_defaults :: "default_probe \<Rightarrow> probe \<Rightarrow> probe" where
  "probe_apply_defaults d p =
     p\<lparr>p_method := or_str (p_method p) (lit ''tcp''),
       p_port := or_int (p_port p) 22,
       p_path := or_str (p_path p) (lit ''/''),
       p_interval_ms := or_int (p_interval_ms p) (d_interval_ms d),
       p_timeout_ms := or_int (p_timeout_ms p) (d_timeout_ms d),
       p_up_threshold := or_int (p_up_threshold p) (d_up_threshold d),
       p_down_threshold := or_int (p_down_threshold p) (d_down_threshold d)\<rparr>"

text \<open>The derived identity: 64-bit FNV-1a over the UTF-8 bytes of a canonical text.\<close>

definition canonical :: "transport \<Rightarrow> rstr" where
  "canonical t =
     lit ''provider='' @ t_provider_id t @ [NL] @
     lit ''interface='' @ t_interface t @ [NL] @
     lit ''address='' @ t_address t @ [NL] @
     lit ''method='' @ p_method (t_probe t) @ [NL] @
     lit ''target='' @ p_target (t_probe t) @ [NL] @
     lit ''port='' @ show_int (p_port (t_probe t)) @ [NL] @
     lit ''path='' @ p_path (t_probe t) @ [NL] @
     lit ''bind='' @ show_bool (p_bind_to_interface (t_probe t)) @ [NL] @
     lit ''exec='' @ p_exec (t_probe t)"

definition fnv1a :: "8 word list \<Rightarrow> 64 word" where
  "fnv1a bs = foldl (\<lambda>h b. (h XOR ucast b) * 0x100000001b3) 0xcbf29ce484222325 bs"

definition hex_digit :: "int \<Rightarrow> uchar" where
  "hex_digit n = (if n < 10 then 48 + n else 87 + n)"

text \<open>\<open>{:016x}\<close> of a \<open>u64\<close>: its sixteen nibbles, most significant first.\<close>

definition hex16 :: "64 word \<Rightarrow> rstr" where
  "hex16 h = map (\<lambda>i. hex_digit (uint h div 16 ^ i mod 16)) (rev [0..<16])"

definition assign_transport_id :: "transport \<Rightarrow> transport" where
  "assign_transport_id t =
     (if t_ident t \<noteq> [] then t
      else t\<lparr>t_ident := lit ''auto-'' @ hex16 (fnv1a (utf8 (canonical t)))\<rparr>)"

definition peer_transport_defaults :: "default_probe \<Rightarrow> transport \<Rightarrow> transport" where
  "peer_transport_defaults d t =
     (let p = probe_apply_defaults d (t_probe t);
          p' = p\<lparr>p_target := or_str (p_target p) (t_address t)\<rparr>
      in assign_transport_id (t\<lparr>t_probe := p'\<rparr>))"

definition uplink_transport_defaults :: "default_probe \<Rightarrow> transport \<Rightarrow> transport" where
  "uplink_transport_defaults d t =
     assign_transport_id (t\<lparr>t_probe := probe_apply_defaults d (t_probe t)\<rparr>)"

definition default_probe_defaults :: "default_probe \<Rightarrow> default_probe" where
  "default_probe_defaults d =
     d\<lparr>d_interval_ms := or_int (d_interval_ms d) 3000,
       d_timeout_ms := or_int (d_timeout_ms d) 800,
       d_up_threshold := or_int (d_up_threshold d) 2,
       d_down_threshold := or_int (d_down_threshold d) 3\<rparr>"

definition daemon_defaults :: "daemon \<Rightarrow> daemon" where
  "daemon_defaults dm =
     dm\<lparr>dm_state_dir := or_str (dm_state_dir dm) (lit ''/var/lib/nixnet''),
        dm_runtime_dir := or_str (dm_runtime_dir dm) (lit ''nixnet''),
        dm_hosts_file := or_str (dm_hosts_file dm) (lit ''/run/nixnet/hosts''),
        dm_ip_path := or_str (dm_ip_path dm) (lit ''ip''),
        dm_default_probe := default_probe_defaults (dm_default_probe dm)\<rparr>"

definition peer_defaults :: "default_probe \<Rightarrow> peer \<Rightarrow> peer" where
  "peer_defaults d p =
     p\<lparr>pe_on_all_down := or_str (pe_on_all_down p) ON_ALL_DOWN_LAST_KNOWN_GOOD,
       pe_min_hold_ms := or_int (pe_min_hold_ms p) 10000,
       pe_transports := map (peer_transport_defaults d) (pe_transports p)\<rparr>"

definition uplink_defaults :: "default_probe \<Rightarrow> uplink \<Rightarrow> uplink" where
  "uplink_defaults d u =
     u\<lparr>u_min_hold_ms := or_int (u_min_hold_ms u) 15000,
       u_metric_base := or_int (u_metric_base u) 100,
       u_metric_step := or_int (u_metric_step u) 10,
       u_transports := map (uplink_transport_defaults d) (u_transports u)\<rparr>"

definition apply_defaults :: "config \<Rightarrow> config" where
  "apply_defaults c =
     (let dm = daemon_defaults (c_daemon c); d = dm_default_probe dm
      in \<lparr>c_daemon = dm,
          c_peers = map (\<lambda>(n, p). (n, peer_defaults d p)) (c_peers c),
          c_uplinks = map (\<lambda>(n, u). (n, uplink_defaults d u)) (c_uplinks c)\<rparr>)"

section \<open>Validation\<close>

datatype group_word = PeerWord | UplinkWord

datatype verr =
    DefaultProbeNotPositive rstr int
  | HostnamesEmpty rstr
  | HostnameNotToken rstr rstr
  | HostnameClaimedTwice rstr rstr rstr
  | IdEmpty group_word rstr nat
  | IdDuplicate group_word rstr nat nat rstr
  | ProbeInvalid group_word rstr nat verr
  | MethodUnknown rstr
  | ExecMissing
  | PortOutOfRange rstr int
  | ProbeNotPositive rstr int
  | AddressNotIp rstr nat
  | OnAllDownUnknown rstr rstr
  | MaxAgeNotPositive rstr int
  | MetricStepNotPositive rstr int
  | InterfaceMissing rstr nat
  | TargetMissing rstr nat

text \<open>\<open>a?; b\<close>: the first error of a sequence of checks.\<close>

fun first_error :: "'e option list \<Rightarrow> 'e option" where
  "first_error [] = None"
| "first_error (Some e # _) = Some e"
| "first_error (None # es) = first_error es"

lemma first_error_None [simp]: "first_error es = None \<longleftrightarrow> (\<forall>e \<in> set es. e = None)"
  by (induction es rule: first_error.induct) auto

definition check :: "bool \<Rightarrow> 'e \<Rightarrow> 'e option" where
  "check ok e = (if ok then None else Some e)"

lemma check_None [simp]: "check ok e = None \<longleftrightarrow> ok"
  by (simp add: check_def)

text \<open>\<open>for (i, x) in xs.iter().enumerate() { f(i, x)?; }\<close>\<close>

definition each_enumerated :: "(nat \<Rightarrow> 'a \<Rightarrow> 'e option) \<Rightarrow> 'a list \<Rightarrow> 'e option" where
  "each_enumerated f xs = first_error (map (\<lambda>(i, x). f i x) (enumerate 0 xs))"

lemma set_enumerate_0: "set (enumerate 0 xs) = (\<lambda>i. (i, xs ! i)) ` {..<length xs}"
  by (auto simp: in_set_enumerate_eq image_iff)

lemma each_enumerated_None:
  "each_enumerated f xs = None \<longleftrightarrow> (\<forall>i < length xs. f i (xs ! i) = None)"
  by (auto simp: each_enumerated_def set_enumerate_0)

definition is_hosts_token :: "rstr \<Rightarrow> bool" where
  "is_hosts_token h \<longleftrightarrow> h \<noteq> [] \<and> (\<forall>c \<in> set h. \<not> is_whitespace c) \<and> HASH \<notin> set h"

text \<open>The hostname loop: \<open>seen\<close> is the map \<open>seen_hostnames\<close>, threaded across peers.\<close>

fun validate_hostnames ::
  "rstr \<Rightarrow> (rstr \<rightharpoonup> rstr) \<Rightarrow> rstr list \<Rightarrow> verr + (rstr \<rightharpoonup> rstr)" where
  "validate_hostnames name seen [] = Inr seen"
| "validate_hostnames name seen (h # hs) =
     (if \<not> is_hosts_token h then Inl (HostnameNotToken name h)
      else (case seen h of
              Some owner \<Rightarrow> Inl (HostnameClaimedTwice h owner name)
            | None \<Rightarrow> validate_hostnames name (seen(h \<mapsto> name)) hs))"

fun validate_ids_from ::
  "group_word \<Rightarrow> rstr \<Rightarrow> (rstr \<rightharpoonup> nat) \<Rightarrow> nat \<Rightarrow> transport list \<Rightarrow> verr option" where
  "validate_ids_from kind name seen i [] = None"
| "validate_ids_from kind name seen i (t # ts) =
     (if trim (t_ident t) = [] then Some (IdEmpty kind name i)
      else (case seen (t_ident t) of
              Some first \<Rightarrow> Some (IdDuplicate kind name first i (t_ident t))
            | None \<Rightarrow> validate_ids_from kind name (seen(t_ident t \<mapsto> i)) (Suc i) ts))"

definition validate_transport_ids :: "group_word \<Rightarrow> rstr \<Rightarrow> transport list \<Rightarrow> verr option" where
  "validate_transport_ids kind name ts = validate_ids_from kind name Map.empty 0 ts"

definition validate_probe :: "probe \<Rightarrow> verr option" where
  "validate_probe p =
     first_error
       ([check (p_method p \<in> set (map lit [''tcp'', ''icmp'', ''http'', ''exec'']))
           (MethodUnknown (p_method p)),
         check (\<not> (p_method p = lit ''exec'' \<and> p_exec p = [])) ExecMissing,
         check (\<not> ((p_method p = lit ''tcp'' \<or> p_method p = lit ''http'') \<and>
                    \<not> (1 \<le> p_port p \<and> p_port p \<le> 65535)))
           (PortOutOfRange (p_method p) (p_port p))] @
        map (\<lambda>(name, value). check (\<not> value \<le> 0) (ProbeNotPositive name value))
          [(lit ''intervalMs'', p_interval_ms p), (lit ''timeoutMs'', p_timeout_ms p),
           (lit ''upThreshold'', p_up_threshold p), (lit ''downThreshold'', p_down_threshold p)])"

definition validate_default_probe :: "default_probe \<Rightarrow> verr option" where
  "validate_default_probe d =
     first_error
       (map (\<lambda>(name, value). check (\<not> value \<le> 0) (DefaultProbeNotPositive name value))
          [(lit ''intervalMs'', d_interval_ms d), (lit ''timeoutMs'', d_timeout_ms d),
           (lit ''upThreshold'', d_up_threshold d), (lit ''downThreshold'', d_down_threshold d)])"

definition validate_peer_transport :: "rstr \<Rightarrow> nat \<Rightarrow> transport \<Rightarrow> verr option" where
  "validate_peer_transport name i t =
     first_error
       [map_option (ProbeInvalid PeerWord name i) (validate_probe (t_probe t)),
        check (\<not> (t_address t \<noteq> [] \<and> \<not> is_ip_literal (t_address t))) (AddressNotIp name i)]"

text \<open>The body of the peer loop after the hostnames.\<close>

definition validate_peer_rest :: "rstr \<Rightarrow> peer \<Rightarrow> verr option" where
  "validate_peer_rest name p =
     first_error
       [validate_transport_ids PeerWord name (pe_transports p),
        each_enumerated (validate_peer_transport name) (pe_transports p),
        check (\<not> (pe_on_all_down p \<noteq> ON_ALL_DOWN_LAST_KNOWN_GOOD \<and>
                   pe_on_all_down p \<noteq> ON_ALL_DOWN_UNPUBLISH))
          (OnAllDownUnknown name (pe_on_all_down p)),
        (case pe_max_age_sec p of
           None \<Rightarrow> None
         | Some v \<Rightarrow> check (\<not> v \<le> 0) (MaxAgeNotPositive name v))]"

fun validate_peers :: "(rstr \<rightharpoonup> rstr) \<Rightarrow> peer hmap \<Rightarrow> verr option" where
  "validate_peers seen [] = None"
| "validate_peers seen ((name, p) # ps) =
     (if pe_hostnames p = [] then Some (HostnamesEmpty name)
      else (case validate_hostnames name seen (pe_hostnames p) of
              Inl e \<Rightarrow> Some e
            | Inr seen' \<Rightarrow>
                (case validate_peer_rest name p of
                   Some e \<Rightarrow> Some e
                 | None \<Rightarrow> validate_peers seen' ps)))"

definition validate_uplink_transport :: "rstr \<Rightarrow> nat \<Rightarrow> transport \<Rightarrow> verr option" where
  "validate_uplink_transport name i t =
     first_error
       [check (t_interface t \<noteq> []) (InterfaceMissing name i),
        map_option (ProbeInvalid UplinkWord name i) (validate_probe (t_probe t)),
        check (\<not> (p_method (t_probe t) \<noteq> lit ''exec'' \<and> p_target (t_probe t) = []))
          (TargetMissing name i)]"

definition validate_uplink :: "rstr \<Rightarrow> uplink \<Rightarrow> verr option" where
  "validate_uplink name u =
     first_error
       [validate_transport_ids UplinkWord name (u_transports u),
        check (\<not> (u_route_metric u \<and> u_metric_step u \<le> 0))
          (MetricStepNotPositive name (u_metric_step u)),
        each_enumerated (validate_uplink_transport name) (u_transports u)]"

text \<open>
  \<open>names.sort()\<close> and a lookup of each name in turn: the keys are distinct, so this is
  the association list sorted by key.
\<close>

definition by_name :: "'v hmap \<Rightarrow> 'v hmap" where
  "by_name m = sort_key fst m"

definition validate :: "config \<Rightarrow> verr option" where
  "validate c =
     first_error
       [validate_default_probe (dm_default_probe (c_daemon c)),
        validate_peers Map.empty (by_name (c_peers c)),
        first_error (map (\<lambda>(n, u). validate_uplink n u) (by_name (c_uplinks c)))]"

datatype config_error =
    ReadError rstr rstr
  | ParseError rstr rstr
  | ValidateError rstr verr

definition config_load ::
  "(rstr \<Rightarrow> rstr + rstr) \<Rightarrow> (rstr \<Rightarrow> rstr + config) \<Rightarrow> rstr \<Rightarrow> config_error + config" where
  "config_load read_to_string from_str path =
     (case read_to_string path of
        Inl e \<Rightarrow> Inl (ReadError path e)
      | Inr data \<Rightarrow>
          (case from_str data of
             Inl e \<Rightarrow> Inl (ParseError path e)
           | Inr cfg \<Rightarrow>
               (let cfg' = apply_defaults cfg
                in case validate cfg' of
                     Some e \<Rightarrow> Inl (ValidateError path e)
                   | None \<Rightarrow> Inr cfg')))"

definition needs_net_admin :: "config \<Rightarrow> bool" where
  "needs_net_admin c \<longleftrightarrow> list_ex u_route_metric (hm_values (c_uplinks c))"

definition transport_needs_raw :: "transport \<Rightarrow> bool" where
  "transport_needs_raw t \<longleftrightarrow>
     p_method (t_probe t) = lit ''icmp'' \<or> p_bind_to_interface (t_probe t)"

definition needs_net_raw :: "config \<Rightarrow> bool" where
  "needs_net_raw c \<longleftrightarrow>
     (if list_ex (\<lambda>p. list_ex transport_needs_raw (pe_transports p)) (hm_values (c_peers c))
      then True
      else list_ex (\<lambda>u. list_ex transport_needs_raw (u_transports u)) (hm_values (c_uplinks c)))"

section \<open>What validation accepts\<close>

definition probe_ok :: "probe \<Rightarrow> bool" where
  "probe_ok p \<longleftrightarrow>
     p_method p \<in> {lit ''tcp'', lit ''icmp'', lit ''http'', lit ''exec''} \<and>
     (p_method p = lit ''exec'' \<longrightarrow> p_exec p \<noteq> []) \<and>
     (p_method p \<in> {lit ''tcp'', lit ''http''} \<longrightarrow> 1 \<le> p_port p \<and> p_port p \<le> 65535) \<and>
     0 < p_interval_ms p \<and> 0 < p_timeout_ms p \<and> 0 < p_up_threshold p \<and> 0 < p_down_threshold p"

definition ids_ok :: "transport list \<Rightarrow> bool" where
  "ids_ok ts \<longleftrightarrow> distinct (map t_ident ts) \<and> (\<forall>t \<in> set ts. trim (t_ident t) \<noteq> [])"

definition peer_ok :: "peer \<Rightarrow> bool" where
  "peer_ok p \<longleftrightarrow>
     pe_hostnames p \<noteq> [] \<and> (\<forall>h \<in> set (pe_hostnames p). is_hosts_token h) \<and>
     ids_ok (pe_transports p) \<and>
     (\<forall>t \<in> set (pe_transports p).
        probe_ok (t_probe t) \<and> (t_address t = [] \<or> is_ip_literal (t_address t))) \<and>
     pe_on_all_down p \<in> {ON_ALL_DOWN_LAST_KNOWN_GOOD, ON_ALL_DOWN_UNPUBLISH} \<and>
     (\<forall>v. pe_max_age_sec p = Some v \<longrightarrow> 0 < v)"

definition uplink_ok :: "uplink \<Rightarrow> bool" where
  "uplink_ok u \<longleftrightarrow>
     ids_ok (u_transports u) \<and> (u_route_metric u \<longrightarrow> 0 < u_metric_step u) \<and>
     (\<forall>t \<in> set (u_transports u).
        t_interface t \<noteq> [] \<and> probe_ok (t_probe t) \<and>
        (p_method (t_probe t) = lit ''exec'' \<or> p_target (t_probe t) \<noteq> []))"

definition config_ok :: "config \<Rightarrow> bool" where
  "config_ok c \<longleftrightarrow>
     0 < d_interval_ms (dm_default_probe (c_daemon c)) \<and>
     0 < d_timeout_ms (dm_default_probe (c_daemon c)) \<and>
     0 < d_up_threshold (dm_default_probe (c_daemon c)) \<and>
     0 < d_down_threshold (dm_default_probe (c_daemon c)) \<and>
     (\<forall>p \<in> set (hm_values (c_peers c)). peer_ok p) \<and>
     distinct (concat (map pe_hostnames (hm_values (c_peers c)))) \<and>
     (\<forall>u \<in> set (hm_values (c_uplinks c)). uplink_ok u)"

lemma map_option_None_iff [simp]: "map_option f x = None \<longleftrightarrow> x = None"
  by (cases x) auto

lemma validate_probe_iff: "validate_probe p = None \<longleftrightarrow> probe_ok p"
  by (auto simp: validate_probe_def probe_ok_def)

lemma validate_default_probe_iff:
  "validate_default_probe d = None \<longleftrightarrow>
     0 < d_interval_ms d \<and> 0 < d_timeout_ms d \<and> 0 < d_up_threshold d \<and> 0 < d_down_threshold d"
  by (auto simp: validate_default_probe_def)

lemma validate_ids_from_iff:
  "validate_ids_from k n seen i ts = None \<longleftrightarrow>
     distinct (map t_ident ts) \<and> (\<forall>t \<in> set ts. trim (t_ident t) \<noteq> [] \<and> t_ident t \<notin> dom seen)"
proof (induction ts arbitrary: seen i)
  case (Cons t ts)
  show ?case
  proof (cases "trim (t_ident t) = [] \<or> t_ident t \<in> dom seen")
    case False
    then have "validate_ids_from k n seen i (t # ts) =
        validate_ids_from k n (seen(t_ident t \<mapsto> i)) (Suc i) ts"
      by (auto split: option.splits)
    moreover have "t_ident t \<notin> t_ident ` set ts \<longleftrightarrow> (\<forall>x \<in> set ts. t_ident x \<noteq> t_ident t)"
      by (auto simp: image_iff)
    ultimately show ?thesis using False by (simp only: Cons.IH) auto
  qed (auto split: option.splits)
qed simp

lemma validate_transport_ids_iff: "validate_transport_ids k n ts = None \<longleftrightarrow> ids_ok ts"
  by (auto simp: validate_transport_ids_def validate_ids_from_iff ids_ok_def)

lemma validate_hostnames_iff:
  "(\<exists>seen'. validate_hostnames n seen hs = Inr seen') \<longleftrightarrow>
     (\<forall>h \<in> set hs. is_hosts_token h \<and> h \<notin> dom seen) \<and> distinct hs"
  by (induction hs arbitrary: seen) (auto split: option.splits)

lemma validate_hostnames_dom:
  assumes "validate_hostnames n seen hs = Inr seen'"
  shows "dom seen' = dom seen \<union> set hs"
  using assms
proof (induction hs arbitrary: seen)
  case (Cons h hs)
  then have "validate_hostnames n (seen(h \<mapsto> n)) hs = Inr seen'"
    by (auto split: option.splits if_splits)
  then have "dom seen' = dom (seen(h \<mapsto> n)) \<union> set hs" by (rule Cons.IH)
  then show ?case by simp
qed simp

lemma each_None_iff: "(\<forall>i < length xs. P (xs ! i)) \<longleftrightarrow> (\<forall>x \<in> set xs. P x)"
  by (simp add: all_set_conv_all_nth)

lemma validate_peer_rest_iff:
  "validate_peer_rest n p = None \<longleftrightarrow>
     ids_ok (pe_transports p) \<and>
     (\<forall>t \<in> set (pe_transports p).
        probe_ok (t_probe t) \<and> (t_address t = [] \<or> is_ip_literal (t_address t))) \<and>
     pe_on_all_down p \<in> {ON_ALL_DOWN_LAST_KNOWN_GOOD, ON_ALL_DOWN_UNPUBLISH} \<and>
     (\<forall>v. pe_max_age_sec p = Some v \<longrightarrow> 0 < v)"
  by (auto simp: validate_peer_rest_def validate_transport_ids_iff each_enumerated_None
      validate_peer_transport_def validate_probe_iff all_set_conv_all_nth split: option.splits)

lemma validate_peers_iff:
  "validate_peers seen ps = None \<longleftrightarrow>
     (\<forall>p \<in> set (hm_values ps). peer_ok p) \<and>
     distinct (concat (map pe_hostnames (hm_values ps))) \<and>
     (\<forall>p \<in> set (hm_values ps). set (pe_hostnames p) \<inter> dom seen = {})"
proof (induction seen ps rule: validate_peers.induct)
  case (2 seen name p ps)
  show ?case
  proof (cases "validate_hostnames name seen (pe_hostnames p)")
    case (Inl e)
    then have "\<not> ((\<forall>h \<in> set (pe_hostnames p). is_hosts_token h \<and> h \<notin> dom seen) \<and>
        distinct (pe_hostnames p))"
      using validate_hostnames_iff [of name seen "pe_hostnames p"] by auto
    with Inl show ?thesis by (auto simp: peer_ok_def)
  next
    case (Inr seen')
    then have ok: "\<forall>h \<in> set (pe_hostnames p). is_hosts_token h \<and> h \<notin> dom seen"
      "distinct (pe_hostnames p)"
      using validate_hostnames_iff [of name seen "pe_hostnames p"] by auto
    from Inr have dom: "dom seen' = dom seen \<union> set (pe_hostnames p)"
      by (rule validate_hostnames_dom)
    show ?thesis
    proof (cases "pe_hostnames p \<noteq> [] \<and> validate_peer_rest name p = None")
      case True
      then have "peer_ok p" using ok by (auto simp: peer_ok_def validate_peer_rest_iff)
      moreover have disj: "set (pe_hostnames p) \<inter> dom seen = {}" using ok(1) by blast
      moreover have eq: "validate_peers seen ((name, p) # ps) = validate_peers seen' ps"
        using True Inr by simp
      moreover have IH: "validate_peers seen' ps = None \<longleftrightarrow>
          (\<forall>p \<in> set (hm_values ps). peer_ok p) \<and>
          distinct (concat (map pe_hostnames (hm_values ps))) \<and>
          (\<forall>p \<in> set (hm_values ps). set (pe_hostnames p) \<inter> dom seen' = {})"
        using "2.IH" [OF _ Inr] True by simp
      ultimately show ?thesis using ok(2)
        unfolding eq IH dom by (simp add: Int_Un_distrib ball_conj_distrib) blast
    next
      case False
      then have "\<not> peer_ok p" by (auto simp: peer_ok_def validate_peer_rest_iff)
      with False Inr show ?thesis by (auto split: option.splits)
    qed
  qed
qed simp

lemma validate_uplink_iff: "validate_uplink n u = None \<longleftrightarrow> uplink_ok u"
  by (auto simp: validate_uplink_def uplink_ok_def validate_transport_ids_iff each_enumerated_None
      validate_uplink_transport_def validate_probe_iff all_set_conv_all_nth)

lemma mset_by_name: "mset (by_name m) = mset m"
  by (simp add: by_name_def)

lemma set_by_name [simp]: "set (by_name m) = set m"
  by (simp add: by_name_def)

lemma distinct_concat_by_name:
  "distinct (concat (map f (hm_values (by_name m)))) \<longleftrightarrow> distinct (concat (map f (hm_values m)))"
proof -
  have "mset (concat (map f (hm_values (by_name m)))) = mset (concat (map f (hm_values m)))"
    by (simp add: mset_concat mset_map flip: sum_mset_sum_list mset_by_name [of m])
  then show ?thesis by (rule mset_eq_imp_distinct_iff)
qed

lemma validate_wf: "validate c = None \<longleftrightarrow> config_ok c"
  using distinct_concat_by_name [of pe_hostnames "c_peers c"]
  by (auto simp: validate_def config_ok_def validate_default_probe_iff validate_peers_iff
      validate_uplink_iff simp del: distinct_concat_iff)

text \<open>
  C23.  Validation accepts a configuration exactly when it is well-formed in the sense of
  \<open>config_ok\<close>: the declarative conditions on hostnames, transports, identities,
  thresholds and metrics, with no hostname claimed twice across the peers.  The order in
  which the validator visits the hash maps does not matter for the verdict.
\<close>

theorem validate_iff_config_ok: "validate c = None \<longleftrightarrow> config_ok c"
  by (rule validate_wf)

lemma probe_apply_defaults_idem [simp]:
  "probe_apply_defaults d (probe_apply_defaults d p) = probe_apply_defaults d p"
  by (simp add: probe_apply_defaults_def)

lemma assign_transport_id_nonempty: "t_ident (assign_transport_id t) \<noteq> []"
  by (simp add: assign_transport_id_def)

lemma assign_transport_id_fields [simp]:
  "t_probe (assign_transport_id t) = t_probe t"
  "t_address (assign_transport_id t) = t_address t"
  "t_interface (assign_transport_id t) = t_interface t"
  "t_priority (assign_transport_id t) = t_priority t"
  by (simp_all add: assign_transport_id_def)

lemma assign_transport_id_again:
  "t_ident t \<noteq> [] \<Longrightarrow> assign_transport_id t = t"
  by (simp add: assign_transport_id_def)

lemma transport_defaults_idem [simp]:
  "peer_transport_defaults d (peer_transport_defaults d t) = peer_transport_defaults d t"
  "uplink_transport_defaults d (uplink_transport_defaults d t) = uplink_transport_defaults d t"
  by (simp_all add: peer_transport_defaults_def uplink_transport_defaults_def Let_def
      probe_apply_defaults_def assign_transport_id_def)

text \<open>
  Filling in the defaults is idempotent: a configuration that went through it once,
  assigned transport identities included, is left alone by a second pass.
\<close>

lemma apply_defaults_maps [simp]:
  "hm_ok (c_peers (apply_defaults c)) = hm_ok (c_peers c)"
  "hm_ok (c_uplinks (apply_defaults c)) = hm_ok (c_uplinks c)"
  by (simp_all add: apply_defaults_def Let_def hm_ok_def comp_def case_prod_unfold)

lemma apply_defaults_idem: "apply_defaults (apply_defaults c) = apply_defaults c"
  by (simp add: apply_defaults_def Let_def peer_defaults_def uplink_defaults_def daemon_defaults_def
      default_probe_defaults_def split_beta comp_def)

lemma fnv1a_vectors:
  "fnv1a (utf8 []) = 0xcbf29ce484222325"
  "fnv1a (utf8 (lit ''a'')) = 0xaf63dc4c8601ec8c"
  "fnv1a (utf8 (lit ''foobar'')) = 0x85944171f73967e8"
  by code_simp+

lemma hex16_vector: "hex16 0xaf63dc4c8601ec8c = lit ''af63dc4c8601ec8c''"
  by code_simp

end
