(* ===== verification/Atomic.thy ===== *)
theory Atomic
  imports Prelude
begin

text \<open>
  \<open>src/atomic.rs\<close>: create a temporary file, write, optionally chmod, fsync, rename over
  the target, fsync the directory.  A file system call that can fail is a \<open>stage\<close>; a
  run of \<open>write_impl\<close> is given, for each stage, the error it returns there (or none).
  The early return of the source drops the temporary file, which removes it, so only the
  target is part of the model.  \<open>seen_after\<close> is the target after each stage, what
  another process (or a crash) can see.
\<close>

record 'd disk_file =
  f_data :: 'd
  f_mode :: int

datatype stage = Create | WriteAll | Chmod | SyncFile | Persist | OpenDir | SyncDir

type_synonym faults = "stage \<Rightarrow> rstr option"

definition no_faults :: faults where
  "no_faults = (\<lambda>_. None)"

definition TEMPFILE_MODE :: int where "TEMPFILE_MODE = 6 * 64"

text \<open>The stages in source order, each with the target it leaves when it succeeds.\<close>

definition stages :: "int option \<Rightarrow> stage list" where
  "stages mode =
     [Create, WriteAll] @ (case mode of Some _ \<Rightarrow> [Chmod] | None \<Rightarrow> []) @
     [SyncFile, Persist, OpenDir, SyncDir]"

text \<open>The order of the stages is that of their execution; \<open>stages\<close> lists them by it.\<close>

primrec stage_rank :: "stage \<Rightarrow> nat" where
  "stage_rank Create = 0"
| "stage_rank WriteAll = 1"
| "stage_rank Chmod = 2"
| "stage_rank SyncFile = 3"
| "stage_rank Persist = 4"
| "stage_rank OpenDir = 5"
| "stage_rank SyncDir = 6"

lemma stage_rank_inject [simp]: "stage_rank a = stage_rank b \<longleftrightarrow> a = b"
  by (cases a; cases b) simp_all

instantiation stage :: linorder
begin

definition less_eq_stage :: "stage \<Rightarrow> stage \<Rightarrow> bool" where
  "less_eq_stage a b \<longleftrightarrow> stage_rank a \<le> stage_rank b"

definition less_stage :: "stage \<Rightarrow> stage \<Rightarrow> bool" where
  "less_stage a b \<longleftrightarrow> stage_rank a < stage_rank b"

instance
proof
  fix a b :: stage
  show "a \<le> b \<Longrightarrow> b \<le> a \<Longrightarrow> a = b" by (simp add: less_eq_stage_def)
qed (auto simp: less_eq_stage_def less_stage_def)

end

lemma stages_sorted: "sorted_wrt (<) (stages mode)"
  by (cases mode) (simp_all add: stages_def less_stage_def)

definition new_file :: "int option \<Rightarrow> 'd \<Rightarrow> 'd disk_file" where
  "new_file mode data =
     \<lparr>f_data = data, f_mode = (case mode of Some m \<Rightarrow> m | None \<Rightarrow> TEMPFILE_MODE)\<rparr>"

fun run_stages ::
  "faults \<Rightarrow> 'd disk_file \<Rightarrow> stage list \<Rightarrow> 'd disk_file option \<Rightarrow> (rstr option) \<times> 'd disk_file option" where
  "run_stages flt new [] target = (None, target)"
| "run_stages flt new (st # sts) target =
     (case flt st of
        Some e \<Rightarrow> (Some e, target)
      | None \<Rightarrow> run_stages flt new sts (if st = Persist then Some new else target))"

definition write_impl ::
  "faults \<Rightarrow> int option \<Rightarrow> 'd \<Rightarrow> 'd disk_file option \<Rightarrow> (rstr option) \<times> 'd disk_file option" where
  "write_impl flt mode data target = run_stages flt (new_file mode data) (stages mode) target"

definition write_with_chmod ::
  "faults \<Rightarrow> int \<Rightarrow> 'd \<Rightarrow> 'd disk_file option \<Rightarrow> (rstr option) \<times> 'd disk_file option" where
  "write_with_chmod flt mode data target = write_impl flt (Some mode) data target"

definition write_no_chmod ::
  "faults \<Rightarrow> 'd \<Rightarrow> 'd disk_file option \<Rightarrow> (rstr option) \<times> 'd disk_file option" where
  "write_no_chmod flt data target = write_impl flt None data target"

text \<open>What an observer sees of the target if the process stops after \<open>n\<close> stages.\<close>

definition seen_after :: "faults \<Rightarrow> int option \<Rightarrow> 'd \<Rightarrow> nat \<Rightarrow> 'd disk_file option \<Rightarrow> 'd disk_file option" where
  "seen_after flt mode data n target =
     snd (run_stages flt (new_file mode data) (take n (stages mode)) target)"

lemma run_stages_target:
  "snd (run_stages flt new sts target) \<in> {target, Some new}"
  by (induction sts arbitrary: target) (auto split: option.splits)

lemma run_stages_ok:
  "fst (run_stages flt new sts target) = None \<Longrightarrow>
     snd (run_stages flt new sts target) = (if Persist \<in> set sts then Some new else target)"
proof (induction sts arbitrary: target)
  case (Cons st sts)
  then show ?case by (cases "flt st") auto
qed simp

lemma run_stages_before_persist:
  "Persist \<notin> set sts \<Longrightarrow> snd (run_stages flt new sts target) = target"
  by (induction sts arbitrary: target) (auto split: option.splits)

lemma run_stages_append:
  "run_stages flt new (xs @ ys) target =
     (case run_stages flt new xs target of
        (Some e, t) \<Rightarrow> (Some e, t) | (None, t) \<Rightarrow> run_stages flt new ys t)"
  by (induction xs arbitrary: target) (auto split: option.splits)

lemma write_impl_ok:
  "fst (write_impl flt mode data target) = None \<Longrightarrow>
     snd (write_impl flt mode data target) = Some (new_file mode data)"
  unfolding write_impl_def by (subst run_stages_ok) (auto simp: stages_def)

lemma write_impl_cases:
  "snd (write_impl flt mode data target) \<in> {target, Some (new_file mode data)}"
  unfolding write_impl_def by (rule run_stages_target)

lemma write_impl_no_faults:
  "write_impl no_faults mode data target = (None, Some (new_file mode data))"
  by (simp add: write_impl_def stages_def no_faults_def split: option.splits)

section \<open>The interface\<close>

text \<open>
  What the clients of \<open>atomic.rs\<close> rely on: a write leaves the target as it was or puts a
  whole new file, with its mode, in its place, the latter always if it reports no error.
\<close>

fun run_writes ::
  "(faults \<Rightarrow> 'd \<Rightarrow> 'd disk_file option \<Rightarrow> rstr option \<times> 'd disk_file option) \<Rightarrow> (faults \<times> 'd) list \<Rightarrow>
   'd disk_file option \<Rightarrow> 'd disk_file option" where
  "run_writes wr [] target = target"
| "run_writes wr ((flt, data) # ws) target = run_writes wr ws (snd (wr flt data target))"

locale atomic_writer =
  fixes wr :: "faults \<Rightarrow> 'd \<Rightarrow> 'd disk_file option \<Rightarrow> rstr option \<times> 'd disk_file option"
    and mode :: int
  assumes all_or_nothing:
      "snd (wr flt data target) = target \<or> snd (wr flt data target) = Some \<lparr>f_data = data, f_mode = mode\<rparr>"
    and ok_written:
      "fst (wr flt data target) = None \<Longrightarrow> snd (wr flt data target) = Some \<lparr>f_data = data, f_mode = mode\<rparr>"
begin

lemma writes_whole:
  "run_writes wr ws target = target \<or>
   (\<exists>data \<in> snd ` set ws. run_writes wr ws target = Some \<lparr>f_data = data, f_mode = mode\<rparr>)"
proof (induction ws arbitrary: target)
  case (Cons w ws)
  obtain flt data where w: "w = (flt, data)" by (cases w)
  show ?case using Cons.IH [of "snd (wr flt data target)"] all_or_nothing [of flt data target] by (auto simp: w)
qed simp

text \<open>Once a write has succeeded, a reader finds its data or that of a later write.\<close>

lemma never_older:
  "fst (wr flt data target) = None \<Longrightarrow>
   \<exists>data' \<in> insert data (snd ` set ws). run_writes wr ((flt, data) # ws) target = Some \<lparr>f_data = data', f_mode = mode\<rparr>"
  using writes_whole [of ws "snd (wr flt data target)"] ok_written [of flt data target] by auto

end

interpretation public_file: atomic_writer "\<lambda>flt. write_with_chmod flt m" m for m
proof
  fix flt :: faults and data :: 'a and target
  show "snd (write_with_chmod flt m data target) = target \<or>
      snd (write_with_chmod flt m data target) = Some \<lparr>f_data = data, f_mode = m\<rparr>"
    using write_impl_cases [of flt "Some m" data target] by (simp add: write_with_chmod_def new_file_def)
  show "fst (write_with_chmod flt m data target) = None \<Longrightarrow>
      snd (write_with_chmod flt m data target) = Some \<lparr>f_data = data, f_mode = m\<rparr>"
    using write_impl_ok [of flt "Some m" data target] by (simp add: write_with_chmod_def new_file_def)
qed

interpretation private_file: atomic_writer write_no_chmod TEMPFILE_MODE
proof
  fix flt :: faults and data :: 'a and target
  show "snd (write_no_chmod flt data target) = target \<or>
      snd (write_no_chmod flt data target) = Some \<lparr>f_data = data, f_mode = TEMPFILE_MODE\<rparr>"
    using write_impl_cases [of flt None data target] by (simp add: write_no_chmod_def new_file_def)
  show "fst (write_no_chmod flt data target) = None \<Longrightarrow>
      snd (write_no_chmod flt data target) = Some \<lparr>f_data = data, f_mode = TEMPFILE_MODE\<rparr>"
    using write_impl_ok [of flt None data target] by (simp add: write_no_chmod_def new_file_def)
qed

text \<open>
  The outcome in full: the first error of a stage, and the new file from the rename on; so
  an error of the two stages after it is reported although the new file is in place.
\<close>

lemma run_stages_error:
  "fst (run_stages flt new sts target) = (case filter (\<lambda>st. flt st \<noteq> None) sts of [] \<Rightarrow> None | st # _ \<Rightarrow> flt st)"
  by (induction sts arbitrary: target) (auto split: option.splits)

lemma write_impl_outcome:
  "fst (write_impl flt mode data target) =
     (case filter (\<lambda>st. flt st \<noteq> None) (stages mode) of [] \<Rightarrow> None | st # _ \<Rightarrow> flt st)"
  "snd (write_impl flt mode data target) =
     (if \<forall>st \<in> set (stages mode). st \<le> Persist \<longrightarrow> flt st = None then Some (new_file mode data) else target)"
  "seen_after flt mode data n target \<in> {target, Some (new_file mode data)}"
proof -
  show "fst (write_impl flt mode data target) =
     (case filter (\<lambda>st. flt st \<noteq> None) (stages mode) of [] \<Rightarrow> None | st # _ \<Rightarrow> flt st)"
    by (simp add: write_impl_def run_stages_error)
  show "snd (write_impl flt mode data target) =
     (if \<forall>st \<in> set (stages mode). st \<le> Persist \<longrightarrow> flt st = None then Some (new_file mode data) else target)"
    by (auto simp: write_impl_def stages_def less_eq_stage_def split: option.splits)
  show "seen_after flt mode data n target \<in> {target, Some (new_file mode data)}"
    unfolding seen_after_def by (rule run_stages_target)
qed

end
