(* ===== verification/Hosts.thy ===== *)
theory Hosts
  imports Atomic
begin

text \<open>
  \<open>src/publish/hosts.rs\<close>: the managed block of the hosts file.  \<open>split_static\<close> takes a
  live file apart, \<open>hosts_plan\<close> is the decision of \<open>HostsPublisher::publish\<close> from what
  was read to what is to be written, and \<open>hosts_publish\<close> performs it on a file system
  whose faults are part of the state.  \<open>parse_nix_hosts\<close> reads a block back.
\<close>

section \<open>Definitions\<close>

definition BEGIN_MARKER :: rstr where "BEGIN_MARKER = lit ''# BEGIN nixnet''"
definition END_MARKER :: rstr where "END_MARKER = lit ''# END nixnet''"
definition FRESHNESS :: rstr where "FRESHNESS = lit ''# nixnet ''"

record entry =
  e_address :: rstr
  e_hostnames :: "rstr list"
  e_confirmed_at :: "rstr option"

record hosts_publisher =
  hp_static_prefix :: rstr
  hp_static_suffix :: rstr

text \<open>
  \<open>block_end\<close> returns the offset just past the END line of the block; the text from
  that offset on is \<open>block_rest\<close>.
\<close>

fun after_end :: "rstr list \<Rightarrow> rstr option" where
  "after_end [] = None"
| "after_end (l # ls) = (if trim l = END_MARKER then Some (concat ls) else after_end ls)"

definition block_rest :: "rstr \<Rightarrow> rstr option" where
  "block_rest block = after_end (split_inclusive block)"

definition split_static :: "rstr \<Rightarrow> rstr \<times> rstr \<times> bool" where
  "split_static content =
     (let (raw, suffix, had_markers) =
            (case break_on BEGIN_MARKER content of
               Some (before, block) \<Rightarrow>
                 (before, (case block_rest block of Some r \<Rightarrow> r | None \<Rightarrow> []), True)
             | None \<Rightarrow> (content, [], False));
          trimmed = trim_end_matches NL raw
      in if trimmed = [] then ([], suffix, had_markers)
         else (trimmed @ [NL], suffix, had_markers))"

datatype read_result = ReadOk rstr | ReadNotFound | ReadErr rstr

definition hosts_new :: "read_result \<Rightarrow> rstr + hosts_publisher" where
  "hosts_new rd =
     (case rd of
        ReadOk content \<Rightarrow>
          (case split_static content of
             (p, s, _) \<Rightarrow> Inr \<lparr>hp_static_prefix = p, hp_static_suffix = s\<rparr>)
      | ReadNotFound \<Rightarrow> Inr \<lparr>hp_static_prefix = [], hp_static_suffix = []\<rparr>
      | ReadErr e \<Rightarrow> Inl e)"

definition render_entry :: "entry \<Rightarrow> rstr" where
  "render_entry e =
     (case e_confirmed_at e of
        Some c \<Rightarrow> FRESHNESS @ e_address e @ lit '' confirmed='' @ c @ [NL]
      | None \<Rightarrow> []) @
     e_address e @ [TAB] @ join [SP] (e_hostnames e) @ [NL]"

definition render :: "rstr \<Rightarrow> rstr \<Rightarrow> rstr \<Rightarrow> entry list \<Rightarrow> rstr" where
  "render prefix suffix written_at es =
     prefix @ BEGIN_MARKER @ [NL] @
     FRESHNESS @ lit ''written='' @ written_at @ [NL] @
     concat (map render_entry es) @
     END_MARKER @ [NL] @ suffix"

definition significant :: "rstr \<Rightarrow> rstr list" where
  "significant s = filter (\<lambda>l. \<not> starts_with FRESHNESS (trim_start l)) (lines s)"

definition same_but_for_freshness :: "rstr \<Rightarrow> rstr \<Rightarrow> bool" where
  "same_but_for_freshness a b \<longleftrightarrow> significant a = significant b"

datatype publish_plan = PlanErr rstr | PlanKeep | PlanWrite rstr

definition hosts_plan ::
  "hosts_publisher \<Rightarrow> rstr \<Rightarrow> entry list \<Rightarrow> read_result \<Rightarrow> publish_plan" where
  "hosts_plan hp written_at es rd =
     (case rd of
        ReadErr e \<Rightarrow> PlanErr e
      | ReadNotFound \<Rightarrow>
          PlanWrite (render (hp_static_prefix hp) (hp_static_suffix hp) written_at
                       (sort_key e_address es))
      | ReadOk c \<Rightarrow>
          (case split_static c of
             (prefix, suffix, _) \<Rightarrow>
               (let out = render prefix suffix written_at (sort_key e_address es)
                in if same_but_for_freshness c out then PlanKeep else PlanWrite out)))"

record hosts_fs =
  hf_file :: "rstr disk_file option"
  hf_read_fault :: "rstr option"
  hf_faults :: faults

definition hosts_read :: "hosts_fs \<Rightarrow> read_result" where
  "hosts_read fs =
     (case hf_read_fault fs of
        Some e \<Rightarrow> ReadErr e
      | None \<Rightarrow> (case hf_file fs of None \<Rightarrow> ReadNotFound | Some f \<Rightarrow> ReadOk (f_data f)))"

definition hosts_publish ::
  "hosts_publisher \<Rightarrow> rstr \<Rightarrow> entry list \<Rightarrow> hosts_fs \<Rightarrow> (rstr + bool) \<times> hosts_fs" where
  "hosts_publish hp written_at es fs =
     (case hosts_plan hp written_at es (hosts_read fs) of
        PlanErr e \<Rightarrow> (Inl e, fs)
      | PlanKeep \<Rightarrow> (Inr False, fs)
      | PlanWrite out \<Rightarrow>
          (case write_with_chmod (hf_faults fs) (6 * 64 + 4 * 8 + 4) out (hf_file fs) of
             (Some e, f) \<Rightarrow> (Inl e, fs\<lparr>hf_file := f\<rparr>)
           | (None, f) \<Rightarrow> (Inr True, fs\<lparr>hf_file := f\<rparr>)))"

definition parse_confirmed_comment :: "rstr \<Rightarrow> (rstr \<times> rstr) option" where
  "parse_confirmed_comment line = do {
     rest \<leftarrow> strip_prefix FRESHNESS line;
     (address, tail) \<leftarrow> split_once SP rest;
     ts \<leftarrow> strip_prefix (lit ''confirmed='') tail;
     if address = [] \<or> ts = [] then None else Some (address, ts)
   }"

text \<open>The line loop of \<open>parse_nix_hosts\<close> with its three variables.\<close>

fun parse_lines ::
  "bool \<Rightarrow> (rstr \<times> rstr) option \<Rightarrow> entry list \<Rightarrow> rstr list \<Rightarrow> entry list" where
  "parse_lines in_block pending entries [] = entries"
| "parse_lines in_block pending entries (line # ls) =
     (let trimmed = trim line
      in if trimmed = BEGIN_MARKER then parse_lines True pending entries ls
         else if trimmed = END_MARKER then parse_lines False pending entries ls
         else if in_block then
           (if starts_with [HASH] trimmed
            then parse_lines in_block (parse_confirmed_comment trimmed) entries ls
            else (case split_whitespace line of
                    address # hostnames \<Rightarrow>
                      (if hostnames \<noteq> [] then
                         parse_lines in_block None
                           (entries @ [\<lparr>e_address = address, e_hostnames = hostnames,
                              e_confirmed_at =
                                (case pending of
                                   Some (addr, ts) \<Rightarrow> if addr = address then Some ts else None
                                 | None \<Rightarrow> None)\<rparr>]) ls
                       else parse_lines in_block pending entries ls)
                  | [] \<Rightarrow> parse_lines in_block pending entries ls))
         else parse_lines in_block pending entries ls)"

definition parse_nix_hosts :: "rstr \<Rightarrow> entry list" where
  "parse_nix_hosts content = parse_lines False None [] (lines content)"

section \<open>Lines\<close>

text \<open>A text made of complete lines, and what the line functions do with it.\<close>

definition unlines :: "rstr list \<Rightarrow> rstr" where
  "unlines ls = concat (map (\<lambda>l. l @ [NL]) ls)"

lemma unlines_simps [simp]:
  "unlines [] = []" "unlines (l # ls) = l @ NL # unlines ls"
  "unlines (ls @ ms) = unlines ls @ unlines ms"
  by (simp_all add: unlines_def)

lemma concat_split_inclusive [simp]: "concat (split_inclusive s) = s"
  by (induction s rule: split_inclusive.induct) (auto split: list.splits)

lemma split_inclusive_unlines [simp]:
  "\<forall>l \<in> set ls. NL \<notin> set l \<Longrightarrow>
     split_inclusive (unlines ls @ s) = map (\<lambda>l. l @ [NL]) ls @ split_inclusive s"
  by (induction ls) auto

lemma split_inclusive_append_NL:
  "p = [] \<or> last p = NL \<Longrightarrow> split_inclusive (p @ s) = split_inclusive p @ split_inclusive s"
proof (induction p rule: split_inclusive.induct)
  case (2 c cs)
  show ?case
  proof (cases "cs = []")
    case True
    with 2 show ?thesis by auto
  next
    case False
    with "2.prems" have "last cs = NL" by simp
    with 2 have "split_inclusive (cs @ s) = split_inclusive cs @ split_inclusive s" by blast
    moreover have "split_inclusive cs \<noteq> []" using False by (cases cs) (auto split: list.splits)
    ultimately show ?thesis by (auto split: list.splits)
  qed
qed simp

lemma lines_append_NL: "p = [] \<or> last p = NL \<Longrightarrow> lines (p @ s) = lines p @ lines s"
  by (simp add: lines_def split_inclusive_append_NL)

lemma chop_eol_line: "CR \<notin> set l \<Longrightarrow> chop_eol (l @ [NL]) = l"
  by (auto simp: chop_eol_def Let_def dest: last_in_set)

lemma lines_unlines:
  "\<forall>l \<in> set ls. NL \<notin> set l \<and> CR \<notin> set l \<Longrightarrow> lines (unlines ls @ s) = ls @ lines s"
  by (induction ls) (auto simp: lines_def chop_eol_line)

text \<open>Trimming a line that starts and ends outside whitespace.\<close>

lemma trim_NL: "trim (l @ [NL]) = trim l"
  by (cases "\<forall>c \<in> set l. is_whitespace c")
    (auto simp: trim_def trim_start_def trim_end_def dropWhile_append dest: set_dropWhileD)

lemma trim_start_id: "l \<noteq> [] \<Longrightarrow> \<not> is_whitespace (hd l) \<Longrightarrow> trim_start l = l"
  by (cases l) (auto simp: trim_start_def)

lemma trim_end_id: "l \<noteq> [] \<Longrightarrow> \<not> is_whitespace (last l) \<Longrightarrow> trim_end l = l"
  by (cases l rule: rev_cases) (auto simp: trim_end_def)

lemma trim_id: "l \<noteq> [] \<Longrightarrow> \<not> is_whitespace (hd l) \<Longrightarrow> \<not> is_whitespace (last l) \<Longrightarrow> trim l = l"
  by (simp add: trim_def trim_start_id trim_end_id)

lemma trim_hd:
  "l \<noteq> [] \<Longrightarrow> \<not> is_whitespace (hd l) \<Longrightarrow> trim l \<noteq> [] \<and> hd (trim l) = hd l"
proof (cases l)
  case (Cons c cs)
  moreover assume "\<not> is_whitespace (hd l)"
  ultimately show ?thesis
    by (auto simp: trim_def trim_start_def trim_end_def dropWhile_append)
qed simp

lemma split_whitespace_token:
  "\<forall>c \<in> set t. \<not> is_whitespace c \<Longrightarrow> is_whitespace w \<Longrightarrow>
     split_ws_acc acc (t @ w # s) =
       (if acc = [] \<and> t = [] then split_ws_acc [] s else (rev acc @ t) # split_ws_acc [] s)"
  by (induction t arbitrary: acc) auto

lemma split_ws_acc_token_end:
  "\<forall>c \<in> set t. \<not> is_whitespace c \<Longrightarrow>
     split_ws_acc acc t = (if acc = [] \<and> t = [] then [] else [rev acc @ t])"
  by (induction t arbitrary: acc) auto

text \<open>A run of tokens separated by single spaces splits into the tokens.\<close>

lemma split_ws_acc_join:
  "\<forall>t \<in> set ts. t \<noteq> [] \<and> (\<forall>c \<in> set t. \<not> is_whitespace c) \<Longrightarrow>
     split_ws_acc [] (join [SP] ts) = ts"
  by (induction "[SP]" ts rule: join.induct)
    (auto simp: split_ws_acc_token_end split_whitespace_token)

section \<open>Searching for the marker\<close>

lemma starts_with_Nil [simp]: "starts_with [] s" "starts_with (c # p) [] = False"
  by (simp_all add: starts_with_def)

lemma starts_with_Cons [simp]: "starts_with (c # p) (d # s) \<longleftrightarrow> c = d \<and> starts_with p s"
  by (auto simp: starts_with_def)

lemma starts_with_append [simp]: "starts_with p (p @ s)"
  by (simp add: starts_with_def)

lemma starts_with_lit [simp]: "starts_with p p"
  by (simp add: starts_with_def)

lemma starts_with_iff: "starts_with p s \<longleftrightarrow> (\<exists>r. s = p @ r)"
  unfolding starts_with_def by (metis append_eq_conv_conj)

lemma break_on_concat: "break_on pat s = Some (a, b) \<Longrightarrow> s = a @ b \<and> starts_with pat b"
  by (induction s arbitrary: a b) (auto split: if_splits)

lemma break_on_first: "break_on pat s = Some (a, b) \<Longrightarrow> pat \<noteq> [] \<Longrightarrow> break_on pat a = None"
proof (induction s arbitrary: a b)
  case (Cons c cs)
  show ?case
  proof (cases "starts_with pat (c # cs)")
    case True
    with Cons.prems show ?thesis by auto
  next
    case False
    with Cons.prems obtain a' where a: "a = c # a'" and b: "break_on pat cs = Some (a', b)"
      by auto
    have "\<not> starts_with pat (c # a')"
    proof
      assume "starts_with pat (c # a')"
      then have "starts_with pat (c # a' @ b)"
        unfolding starts_with_iff by (metis append.assoc append_Cons)
      with False break_on_concat [OF b] show False by simp
    qed
    moreover have "break_on pat a' = None" using Cons.IH [OF b Cons.prems(2)] .
    ultimately show ?thesis using a by simp
  qed
qed (auto split: if_splits)

text \<open>
  A pattern without a newline cannot straddle the end of a text that ends in one, nor
  appear when the newline is added.
\<close>

lemma starts_with_across_NL:
  assumes "starts_with pat (a @ NL # s)" and "NL \<notin> set pat"
  shows "starts_with pat a"
proof -
  have "length pat \<le> length a"
  proof (rule ccontr)
    assume "\<not> length pat \<le> length a"
    then have "NL \<in> set (take (length pat) (a @ NL # s))"
      by (simp add: take_Cons' )
    with assms show False by (simp add: starts_with_def)
  qed
  with assms(1) show ?thesis by (simp add: starts_with_def)
qed

lemma break_on_across_NL:
  assumes "break_on pat a = None" and "NL \<notin> set pat" and "pat \<noteq> []"
  shows "break_on pat (a @ NL # s) = map_option (\<lambda>(x, y). (a @ NL # x, y)) (break_on pat s)"
  using assms(1)
proof (induction a)
  case Nil
  have "\<not> starts_with pat (NL # s)"
    using assms(2,3) by (cases pat) auto
  then show ?case by (cases "break_on pat s") auto
next
  case (Cons c a)
  then have "\<not> starts_with pat (c # a)" and n: "break_on pat a = None" by (auto split: if_splits)
  then have "\<not> starts_with pat (c # a @ NL # s)"
    using starts_with_across_NL [of pat "c # a" s] assms(2) by auto
  with Cons.IH [OF n] show ?case by (cases "break_on pat s") auto
qed

section \<open>The rendered file\<close>

text \<open>
  A string is a token when it is non-empty and has neither whitespace nor a comment
  sign.  Entries built from a validated configuration are clean: the address is an IP
  literal, the hostnames are hosts tokens, the confirmation an RFC 3339 instant.
\<close>

definition is_token :: "rstr \<Rightarrow> bool" where
  "is_token s \<longleftrightarrow> s \<noteq> [] \<and> (\<forall>c \<in> set s. \<not> is_whitespace c \<and> c \<noteq> HASH)"

definition clean_entry :: "entry \<Rightarrow> bool" where
  "clean_entry e \<longleftrightarrow>
     is_token (e_address e) \<and> e_hostnames e \<noteq> [] \<and> (\<forall>h \<in> set (e_hostnames e). is_token h) \<and>
     (\<forall>c. e_confirmed_at e = Some c \<longrightarrow> is_token c)"

lemma is_tokenD:
  "is_token s \<Longrightarrow> s \<noteq> []"
  "is_token s \<Longrightarrow> c \<in> set s \<Longrightarrow> \<not> is_whitespace c"
  "is_token s \<Longrightarrow> HASH \<notin> set s"
  "is_token s \<Longrightarrow> NL \<notin> set s"
  "is_token s \<Longrightarrow> CR \<notin> set s"
  "is_token s \<Longrightarrow> SP \<notin> set s"
  by (auto simp: is_token_def)

definition name_line :: "entry \<Rightarrow> rstr" where
  "name_line e = e_address e @ [TAB] @ join [SP] (e_hostnames e)"

definition confirmed_line :: "entry \<Rightarrow> rstr \<Rightarrow> rstr" where
  "confirmed_line e c = FRESHNESS @ e_address e @ lit '' confirmed='' @ c"

definition entry_lines :: "entry \<Rightarrow> rstr list" where
  "entry_lines e =
     (case e_confirmed_at e of Some c \<Rightarrow> [confirmed_line e c] | None \<Rightarrow> []) @ [name_line e]"

definition written_line :: "rstr \<Rightarrow> rstr" where
  "written_line w = FRESHNESS @ lit ''written='' @ w"

definition block_lines :: "rstr \<Rightarrow> entry list \<Rightarrow> rstr list" where
  "block_lines w es = BEGIN_MARKER # written_line w # concat (map entry_lines es) @ [END_MARKER]"

lemma unlines_entry_lines: "unlines (entry_lines e) = render_entry e"
  by (simp add: entry_lines_def render_entry_def name_line_def confirmed_line_def split: option.splits)

lemma unlines_concat: "unlines (concat xss) = concat (map unlines xss)"
  by (induction xss) auto

lemma render_unlines: "render p s w es = p @ unlines (block_lines w es) @ s"
  by (simp add: render_def block_lines_def written_line_def unlines_concat comp_def
      unlines_entry_lines)

lemma set_join: "c \<in> set (join sep xs) \<Longrightarrow> c \<in> set sep \<or> (\<exists>x \<in> set xs. c \<in> set x)"
  by (induction sep xs rule: join.induct) auto

lemma markers_no_eol [simp]:
  "NL \<notin> set BEGIN_MARKER" "CR \<notin> set BEGIN_MARKER" "NL \<notin> set END_MARKER" "CR \<notin> set END_MARKER"
  "NL \<notin> set FRESHNESS" "CR \<notin> set FRESHNESS" "BEGIN_MARKER \<noteq> []"
  by (simp_all add: BEGIN_MARKER_def END_MARKER_def FRESHNESS_def str_simps)

lemma name_line_eol: "clean_entry e \<Longrightarrow> NL \<notin> set (name_line e) \<and> CR \<notin> set (name_line e)"
  by (auto simp: name_line_def clean_entry_def dest!: set_join dest: is_tokenD)

lemma confirmed_line_eol:
  "clean_entry e \<Longrightarrow> e_confirmed_at e = Some c \<Longrightarrow>
     NL \<notin> set (confirmed_line e c) \<and> CR \<notin> set (confirmed_line e c)"
  by (auto simp: confirmed_line_def clean_entry_def str_simps dest: is_tokenD)

lemma block_lines_eol:
  assumes "\<forall>e \<in> set es. clean_entry e" and "is_token w" and "l \<in> set (block_lines w es)"
  shows "NL \<notin> set l \<and> CR \<notin> set l"
  using assms name_line_eol confirmed_line_eol
  by (auto simp: block_lines_def written_line_def entry_lines_def str_simps
      dest: is_tokenD split: option.splits)

lemma name_line_trim:
  assumes "clean_entry e"
  shows "trim (name_line e) \<noteq> []" "hd (trim (name_line e)) \<noteq> HASH"
proof -
  from assms have "e_address e \<noteq> []" "\<not> is_whitespace (hd (e_address e))" "hd (e_address e) \<noteq> HASH"
    by (auto simp: clean_entry_def is_token_def)
  then have "name_line e \<noteq> []" "\<not> is_whitespace (hd (name_line e))" "hd (name_line e) \<noteq> HASH"
    by (auto simp: name_line_def)
  then show "trim (name_line e) \<noteq> []" "hd (trim (name_line e)) \<noteq> HASH"
    using trim_hd [of "name_line e"] by auto
qed

lemma freshness_line_trim: "is_token t \<Longrightarrow> trim (FRESHNESS @ x @ t) = FRESHNESS @ x @ t"
  by (rule trim_id) (auto simp: FRESHNESS_def str_simps is_token_def)

lemma freshness_not_marker [simp]:
  "FRESHNESS @ x \<noteq> END_MARKER" "FRESHNESS @ x \<noteq> BEGIN_MARKER"
  by (simp_all add: FRESHNESS_def END_MARKER_def BEGIN_MARKER_def str_simps)

lemma hd_markers [simp]: "hd END_MARKER = HASH" "hd BEGIN_MARKER = HASH" "hd FRESHNESS = HASH"
  "END_MARKER \<noteq> []" "FRESHNESS \<noteq> []" "END_MARKER \<noteq> BEGIN_MARKER" "BEGIN_MARKER \<noteq> END_MARKER"
  by (simp_all add: FRESHNESS_def END_MARKER_def BEGIN_MARKER_def str_simps)

lemma trim_markers [simp]: "trim END_MARKER = END_MARKER" "trim BEGIN_MARKER = BEGIN_MARKER"
  by (rule trim_id; simp add: END_MARKER_def BEGIN_MARKER_def str_simps is_whitespace_def)+

text \<open>Inside the block, only the last line is the END marker.\<close>

lemma inner_line_not_end:
  assumes "\<forall>e \<in> set es. clean_entry e" and "is_token w"
    and "l \<in> set (BEGIN_MARKER # written_line w # concat (map entry_lines es))"
  shows "trim l \<noteq> END_MARKER"
proof -
  consider "l = BEGIN_MARKER" | "l = written_line w"
    | e where "e \<in> set es" "l = name_line e"
    | e c where "e \<in> set es" "e_confirmed_at e = Some c" "l = confirmed_line e c"
    using assms(3) by (auto simp: entry_lines_def split: option.splits dest!: sym [of "Some _"])
  then show ?thesis
  proof cases
    case 3
    then show ?thesis using assms(1) name_line_trim [of e] by force
  next
    case 4
    then have "is_token c" using assms(1) by (auto simp: clean_entry_def)
    then have "trim l = FRESHNESS @ (e_address e @ lit '' confirmed='') @ c"
      using 4 freshness_line_trim [of c "e_address e @ lit '' confirmed=''"]
      by (simp add: confirmed_line_def)
    then show ?thesis by simp
  qed (use assms(2) in \<open>simp_all add: written_line_def freshness_line_trim\<close>)
qed

lemma after_end_skip:
  "\<forall>l \<in> set ls. trim l \<noteq> END_MARKER \<Longrightarrow> after_end (ls @ ms) = after_end ms"
  by (induction ls) auto

lemma block_rest_render:
  assumes "\<forall>e \<in> set es. clean_entry e" and "is_token w"
  shows "block_rest (unlines (block_lines w es) @ s) = Some s"
proof -
  let ?inner = "BEGIN_MARKER # written_line w # concat (map entry_lines es)"
  have eol: "\<forall>l \<in> set (block_lines w es). NL \<notin> set l"
    using block_lines_eol [OF assms] by blast
  have "after_end (map (\<lambda>l. l @ [NL]) ?inner @ (END_MARKER @ [NL]) # split_inclusive s) =
      after_end ((END_MARKER @ [NL]) # split_inclusive s)"
    using inner_line_not_end [OF assms] by (intro after_end_skip) (auto simp: trim_NL)
  then have "after_end (map (\<lambda>l. l @ [NL]) (block_lines w es) @ split_inclusive s) = Some s"
    by (simp add: block_lines_def trim_NL)
  then show ?thesis using eol by (simp add: block_rest_def)
qed

text \<open>The prefix that \<open>split_static\<close> returns has no marker and ends in a newline, or is empty.\<close>

definition static_prefix :: "rstr \<Rightarrow> bool" where
  "static_prefix p \<longleftrightarrow>
     break_on BEGIN_MARKER p = None \<and> (p = [] \<or> (last p = NL \<and> trim_end_matches NL p \<noteq> [] \<and>
       p = trim_end_matches NL p @ [NL]))"

lemma break_on_None_append:
  "break_on pat (a @ b) = None \<Longrightarrow> pat \<noteq> [] \<Longrightarrow> break_on pat a = None"
proof (induction a)
  case (Cons c a)
  then have "\<not> starts_with pat (c # a @ b)" "break_on pat (a @ b) = None" by (auto split: if_splits)
  moreover from this have "\<not> starts_with pat (c # a)"
    unfolding starts_with_iff by (metis append.assoc append_Cons)
  ultimately show ?case using Cons by simp
qed simp

lemma trim_end_matches_prefix: "\<exists>n. s = trim_end_matches c s @ replicate n c"
proof -
  have "rev s = takeWhile (\<lambda>x. x = c) (rev s) @ dropWhile (\<lambda>x. x = c) (rev s)" by simp
  then have "s = rev (dropWhile (\<lambda>x. x = c) (rev s)) @ rev (takeWhile (\<lambda>x. x = c) (rev s))"
    by (metis rev_append rev_rev_ident)
  moreover have "rev (takeWhile (\<lambda>x. x = c) (rev s)) =
      replicate (length (takeWhile (\<lambda>x. x = c) (rev s))) c"
    by (rule replicate_eqI) (auto dest: set_takeWhileD)
  ultimately show ?thesis unfolding trim_end_matches_def by (intro exI) simp
qed

lemma trim_end_matches_idem:
  "trim_end_matches c (trim_end_matches c s @ [c]) = trim_end_matches c s"
  unfolding trim_end_matches_def
  by (cases "dropWhile (\<lambda>x. x = c) (rev s)") (auto simp: dropWhile_eq_Cons_conv)

lemma break_on_NL: "NL \<notin> set pat \<Longrightarrow> pat \<noteq> [] \<Longrightarrow> break_on pat [NL] = None"
  by (cases pat) auto

lemma split_static_prefix: "static_prefix (fst (split_static c))"
proof -
  obtain raw sfx had where raw:
    "(case break_on BEGIN_MARKER c of
        Some (before, block) \<Rightarrow>
          (before, (case block_rest block of Some r \<Rightarrow> r | None \<Rightarrow> []), True)
      | None \<Rightarrow> (c, [], False)) = (raw, sfx, had)"
    by (metis prod_cases3)
  then have none: "break_on BEGIN_MARKER raw = None"
    by (auto split: option.splits dest: break_on_first)
  let ?t = "trim_end_matches NL raw"
  obtain n where "raw = ?t @ replicate n NL" using trim_end_matches_prefix by blast
  with none have "break_on BEGIN_MARKER ?t = None" by (metis break_on_None_append markers_no_eol(7))
  then have "break_on BEGIN_MARKER (?t @ [NL]) = None"
    using break_on_across_NL [of BEGIN_MARKER ?t "[]"] by simp
  then show ?thesis
    using raw by (simp add: split_static_def static_prefix_def trim_end_matches_idem Let_def)
qed

lemma break_on_self: "break_on pat (pat @ s) = Some ([], pat @ s)"
proof (cases "pat @ s")
  case (Cons c cs)
  then have "starts_with pat (c # cs)" by (metis starts_with_append)
  then show ?thesis by (simp add: Cons)
qed simp

lemma break_on_contains: "break_on pat (a @ pat @ b) \<noteq> None"
proof (induction a)
  case Nil
  then show ?case by (simp add: break_on_self)
qed auto

text \<open>The marker starts with the only comment sign in it, so it has no border.\<close>

lemma break_on_before:
  assumes "break_on pat a = None" and pat: "pat = c # p" "c \<notin> set p"
  shows "break_on pat (a @ pat @ s) = Some (a, pat @ s)"
  using assms(1)
proof (induction a)
  case (Cons d a)
  let ?a = "d # a"
  from Cons.prems have no: "\<not> starts_with pat ?a" and "break_on pat a = None" by (auto split: if_splits)
  then have IH: "break_on pat (a @ pat @ s) = Some (a, pat @ s)" by (blast intro: Cons.IH)
  have "\<not> starts_with pat (?a @ pat @ s)"
  proof
    assume st: "starts_with pat (?a @ pat @ s)"
    then obtain r where r: "?a @ pat @ s = pat @ r" by (auto simp: starts_with_iff)
    have "length ?a < length pat"
    proof (rule ccontr)
      assume "\<not> length ?a < length pat"
      then have "take (length pat) (?a @ pat @ s) = take (length pat) ?a"
        by (subst take_append) simp
      with st have "starts_with pat ?a" unfolding starts_with_def by metis
      with no show False ..
    qed
    then have "(?a @ pat @ s) ! length ?a = p ! length a"
      using r by (simp add: nth_append pat)
    moreover have "(?a @ pat @ s) ! length ?a = c" by (simp add: nth_append pat)
    moreover have "p ! length a \<in> set p"
      using \<open>length ?a < length pat\<close> by (simp add: pat)
    ultimately show False using pat by simp
  qed
  with IH show ?case by simp
qed (simp add: break_on_self)

lemma BEGIN_MARKER_Cons: "\<exists>p. BEGIN_MARKER = HASH # p \<and> HASH \<notin> set p"
  by (simp add: BEGIN_MARKER_def str_simps)

lemma break_on_BEGIN:
  "break_on BEGIN_MARKER a = None \<Longrightarrow>
     break_on BEGIN_MARKER (a @ BEGIN_MARKER @ s) = Some (a, BEGIN_MARKER @ s)"
  using BEGIN_MARKER_Cons break_on_before by blast

lemma static_prefix_break:
  "static_prefix p \<Longrightarrow> break_on BEGIN_MARKER (p @ BEGIN_MARKER @ s) = Some (p, BEGIN_MARKER @ s)"
  by (simp add: static_prefix_def break_on_BEGIN)

lemma split_static_render:
  assumes "\<forall>e \<in> set es. clean_entry e" and "is_token w" and "static_prefix p"
  shows "split_static (render p s w es) = (p, s, True)"
proof -
  let ?blk = "unlines (block_lines w es) @ s"
  have blk: "?blk = BEGIN_MARKER @ drop (length BEGIN_MARKER) ?blk"
    by (simp add: block_lines_def)
  have "break_on BEGIN_MARKER (render p s w es) = Some (p, ?blk)"
    using static_prefix_break [OF assms(3), of "drop (length BEGIN_MARKER) ?blk"] blk
    by (metis render_unlines)
  then show ?thesis
    using assms(3) block_rest_render [OF assms(1,2), of s]
    by (auto simp: split_static_def static_prefix_def trim_end_matches_def)
qed

section \<open>Comparing renderings\<close>

definition strip_confirmed :: "entry \<Rightarrow> entry" where
  "strip_confirmed e = e\<lparr>e_confirmed_at := None\<rparr>"

lemma strip_confirmed_simps [simp]:
  "e_address (strip_confirmed e) = e_address e" "name_line (strip_confirmed e) = name_line e"
  by (simp_all add: strip_confirmed_def name_line_def)

lemma name_lines_strip:
  "map strip_confirmed es = map strip_confirmed es' \<Longrightarrow> map name_line es = map name_line es'"
  by (metis (mono_tags, lifting) comp_apply list.map_comp map_eq_conv strip_confirmed_simps(2))

lemma insort_key_map: "insort_key f (g x) (map g xs) = map g (insort_key (f \<circ> g) x xs)"
  by (induction xs) auto

lemma sort_key_map: "sort_key f (map g xs) = map g (sort_key (f \<circ> g) xs)"
  by (induction xs) (auto simp: insort_key_map comp_def)

lemma strip_sorted:
  "map strip_confirmed es = map strip_confirmed es' \<Longrightarrow>
     map strip_confirmed (sort_key e_address es) = map strip_confirmed (sort_key e_address es')"
  using sort_key_map [of e_address strip_confirmed es] sort_key_map [of e_address strip_confirmed es']
  by (simp add: comp_def)

lemma trim_start_FRESHNESS [simp]: "trim_start (FRESHNESS @ x) = FRESHNESS @ x"
  by (simp add: FRESHNESS_def str_simps trim_start_def is_whitespace_def)

lemma name_line_significant:
  assumes "clean_entry e"
  shows "\<not> starts_with FRESHNESS (trim_start (name_line e))"
proof -
  obtain c a where "e_address e = c # a" "\<not> is_whitespace c" "c \<noteq> HASH"
    using assms by (cases "e_address e") (auto simp: clean_entry_def is_token_def)
  then show ?thesis by (simp add: name_line_def trim_start_def FRESHNESS_def str_simps)
qed

lemma markers_significant [simp]:
  "\<not> starts_with FRESHNESS (trim_start BEGIN_MARKER)"
  "\<not> starts_with FRESHNESS (trim_start END_MARKER)"
  by (simp_all add: BEGIN_MARKER_def END_MARKER_def FRESHNESS_def str_simps trim_start_def
      is_whitespace_def)

lemma significant_render:
  assumes "\<forall>e \<in> set es. clean_entry e" and "is_token w" and "static_prefix p"
  shows "significant (render p s w es) =
    significant p @ BEGIN_MARKER # map name_line es @ END_MARKER # significant s"
proof -
  have p: "p = [] \<or> last p = NL" using assms(3) by (auto simp: static_prefix_def)
  have "\<forall>l \<in> set (block_lines w es). NL \<notin> set l \<and> CR \<notin> set l"
    using block_lines_eol [OF assms(1,2)] by blast
  then have "lines (render p s w es) = lines p @ block_lines w es @ lines s"
    by (simp only: render_unlines lines_append_NL [OF p] lines_unlines)
  moreover have "filter (\<lambda>l. \<not> starts_with FRESHNESS (trim_start l)) (concat (map entry_lines es)) =
      map name_line es"
    using assms(1)
    by (induction es)
      (auto simp: entry_lines_def confirmed_line_def name_line_significant split: option.splits)
  ultimately show ?thesis
    by (simp add: significant_def block_lines_def written_line_def)
qed

text \<open>What the plan is about: the sorted names; and where it looks for the static halves.\<close>

definition static_of :: "hosts_publisher \<Rightarrow> read_result \<Rightarrow> rstr \<times> rstr" where
  "static_of hp rd =
     (case rd of ReadOk c \<Rightarrow> (fst (split_static c), fst (snd (split_static c)))
      | _ \<Rightarrow> (hp_static_prefix hp, hp_static_suffix hp))"

definition hosts_publisher_ok :: "hosts_publisher \<Rightarrow> bool" where
  "hosts_publisher_ok hp \<longleftrightarrow> static_prefix (hp_static_prefix hp)"

lemma hosts_new_ok: "hosts_new rd = Inr hp \<Longrightarrow> hosts_publisher_ok hp"
  using split_static_prefix
  by (auto simp: hosts_new_def hosts_publisher_ok_def static_prefix_def
      split: read_result.splits prod.splits) (metis fst_conv static_prefix_def)+

lemma static_of_prefix: "hosts_publisher_ok hp \<Longrightarrow> static_prefix (fst (static_of hp rd))"
  using split_static_prefix by (simp add: static_of_def hosts_publisher_ok_def split: read_result.splits)

lemma plan_write_render:
  "hosts_plan hp w es rd = PlanWrite out \<Longrightarrow>
     out = render (fst (static_of hp rd)) (snd (static_of hp rd)) w (sort_key e_address es)"
  by (auto simp: hosts_plan_def static_of_def Let_def
      split: read_result.splits prod.splits if_splits)

lemma clean_sorted: "(\<forall>e \<in> set es. clean_entry e) \<longleftrightarrow> (\<forall>e \<in> set (sort_key e_address es). clean_entry e)"
  by simp

lemma plan_static_kept:
  assumes "hosts_plan hp w es rd = PlanWrite out" and "hosts_publisher_ok hp"
    and "\<forall>e \<in> set es. clean_entry e" and "is_token w"
  shows "split_static out = (fst (static_of hp rd), snd (static_of hp rd), True)"
  using split_static_render [OF _ assms(4) static_of_prefix [OF assms(2)]] assms(3)
  by (simp add: plan_write_render [OF assms(1)])

lemma plan_settled:
  assumes "hosts_plan hp w es rd = PlanWrite out" and ok: "hosts_publisher_ok hp"
    and "\<forall>e \<in> set es. clean_entry e" and "\<forall>e \<in> set es'. clean_entry e"
    and "is_token w" and "is_token w'" and "map strip_confirmed es = map strip_confirmed es'"
  shows "hosts_plan hp w' es' (ReadOk out) = PlanKeep"
proof -
  let ?p = "fst (static_of hp rd)" and ?s = "snd (static_of hp rd)"
  let ?es = "sort_key e_address es" and ?es' = "sort_key e_address es'"
  have names: "map name_line ?es = map name_line ?es'"
    using name_lines_strip strip_sorted [OF assms(7)] by blast
  have sp: "static_prefix ?p" using ok by (rule static_of_prefix)
  have "significant out = significant (render ?p ?s w' ?es')"
    using assms sp by (simp add: plan_write_render [OF assms(1)] significant_render names)
  then show ?thesis
    using plan_static_kept [OF assms(1,2,3,5)]
    by (simp add: hosts_plan_def same_but_for_freshness_def)
qed

lemma sorted_unique:
  assumes "mset es = mset es'" and "distinct (map e_address es)"
  shows "sort_key e_address es = sort_key e_address es'"
proof (rule sort_key_inj_key_eq)
  show "mset es = mset (sort_key e_address es')" using assms(1) by simp
  show "inj_on e_address (set es)" using assms(2) by (simp add: distinct_map)
  show "sorted (map e_address (sort_key e_address es'))" by simp
qed

section \<open>Reading a block back\<close>

lemma parse_lines_outside:
  "\<forall>l \<in> set ls. trim l \<noteq> BEGIN_MARKER \<Longrightarrow>
     parse_lines False pd es (ls @ ms) = parse_lines False pd es ms"
  by (induction ls) (auto simp: Let_def)

lemma split_once_token:
  "d \<notin> set a \<Longrightarrow> split_once d (a @ d # s) = Some (a, s)"
  by (induction a) auto

lemma split_once_none: "d \<notin> set a \<Longrightarrow> split_once d a = None"
  by (induction a) auto

lemma strip_prefix_append [simp]: "strip_prefix p (p @ s) = Some s"
  by (simp add: strip_prefix_def)

lemma parse_written: "is_token w \<Longrightarrow> parse_confirmed_comment (written_line w) = None"
  by (auto simp: parse_confirmed_comment_def written_line_def bind_eq_None_conv str_simps
      intro!: split_once_none dest: is_tokenD)

lemma parse_confirmed:
  assumes "is_token a" and "is_token c"
  shows "parse_confirmed_comment (FRESHNESS @ a @ lit '' confirmed='' @ c) = Some (a, c)"
proof -
  have "split_once SP (a @ lit '' confirmed='' @ c) = Some (a, lit ''confirmed='' @ c)"
    using assms(1) by (simp add: str_simps split_once_token is_tokenD(6))
  then show ?thesis using assms by (simp add: parse_confirmed_comment_def is_tokenD(1))
qed

lemma name_line_fields:
  assumes "clean_entry e"
  shows "split_whitespace (name_line e) = e_address e # e_hostnames e"
proof -
  have "split_ws_acc [] (name_line e) = e_address e # split_ws_acc [] (join [SP] (e_hostnames e))"
    using assms by (simp add: name_line_def clean_entry_def is_token_def split_whitespace_token)
  then show ?thesis
    using assms by (simp add: split_whitespace_def clean_entry_def is_token_def split_ws_acc_join)
qed

lemma name_line_not_comment:
  assumes "clean_entry e"
  shows "\<not> starts_with [HASH] (trim (name_line e))"
    "trim (name_line e) \<noteq> BEGIN_MARKER" "trim (name_line e) \<noteq> END_MARKER"
  using name_line_trim [OF assms] by (cases "trim (name_line e)"; force)+

lemma freshness_comment [simp]: "starts_with [HASH] (FRESHNESS @ x)"
  by (simp add: FRESHNESS_def str_simps)

lemma parse_entry_lines:
  assumes "clean_entry e"
  shows "parse_lines True None acc (entry_lines e @ ls) = parse_lines True None (acc @ [e]) ls"
proof (cases "e_confirmed_at e")
  case None
  then have eta: "\<lparr>e_address = e_address e, e_hostnames = e_hostnames e, e_confirmed_at = None\<rparr> = e"
    by (cases e) simp
  show ?thesis
    using assms name_line_not_comment [OF assms] name_line_fields [OF assms] None
    by (simp add: entry_lines_def clean_entry_def eta)
next
  case (Some c)
  have tok: "is_token (e_address e)" "is_token c" using assms Some by (auto simp: clean_entry_def)
  let ?l = "FRESHNESS @ e_address e @ lit '' confirmed='' @ c"
  have "trim ?l = ?l"
    using freshness_line_trim [OF tok(2), of "e_address e @ lit '' confirmed=''"] by simp
  moreover have eta:
    "\<lparr>e_address = e_address e, e_hostnames = e_hostnames e, e_confirmed_at = Some c\<rparr> = e"
    using Some by (cases e) simp
  ultimately show ?thesis
    using assms name_line_not_comment [OF assms] name_line_fields [OF assms] Some
      parse_confirmed [OF tok]
    by (simp add: entry_lines_def confirmed_line_def clean_entry_def eta)
qed

lemma parse_all_entry_lines:
  "\<forall>e \<in> set es. clean_entry e \<Longrightarrow>
     parse_lines True None acc (concat (map entry_lines es) @ ls) = parse_lines True None (acc @ es) ls"
  by (induction es arbitrary: acc) (auto simp: parse_entry_lines)

lemma split_inclusive_pieces: "l \<in> set (split_inclusive s) \<Longrightarrow> \<exists>a b. s = a @ l @ b"
  by (metis concat.simps(2) concat_append concat_split_inclusive split_list)

lemma butlast_piece: "\<exists>b. l = butlast l @ b"
  by (cases l rule: rev_cases) auto

lemma chop_eol_piece: "\<exists>b. l = chop_eol l @ b"
proof (cases "l \<noteq> [] \<and> last l = NL")
  case True
  obtain b where b: "l = butlast l @ b" using butlast_piece by blast
  obtain b' where b': "butlast l = butlast (butlast l) @ b'" using butlast_piece by blast
  have "l = butlast (butlast l) @ (b' @ b)" using b b' by (metis append.assoc)
  then show ?thesis using True b by (auto simp: chop_eol_def Let_def)
qed (auto simp: chop_eol_def)

lemma trim_piece: "\<exists>a b. l = a @ trim l @ b"
proof -
  have 1: "\<exists>a. l = a @ trim_start l" for l
    unfolding trim_start_def by (metis takeWhile_dropWhile_id)
  have 2: "\<exists>b. l = trim_end l @ b" for l
    unfolding trim_end_def by (metis rev_append rev_rev_ident takeWhile_dropWhile_id)
  obtain a where a: "l = a @ trim_start l" using 1 by blast
  obtain b where "trim_start l = trim l @ b" using 2 [of "trim_start l"] by (auto simp: trim_def)
  with a show ?thesis by metis
qed

lemma static_prefix_no_begin_line:
  assumes "break_on BEGIN_MARKER p = None" and "l \<in> set (lines p)"
  shows "trim l \<noteq> BEGIN_MARKER"
proof
  assume t: "trim l = BEGIN_MARKER"
  obtain m where m: "m \<in> set (split_inclusive p)" "l = chop_eol m"
    using assms(2) by (auto simp: lines_def)
  obtain a b where 1: "p = a @ m @ b" using split_inclusive_pieces [OF m(1)] by blast
  obtain c where 2: "m = l @ c" using chop_eol_piece [of m] m(2) by blast
  obtain d e where 3: "l = d @ BEGIN_MARKER @ e" using trim_piece [of l] t by metis
  have "p = (a @ d) @ BEGIN_MARKER @ (e @ c @ b)" unfolding 1 2 3 by simp
  then show False using assms(1) break_on_contains by metis
qed

lemma parse_render:
  assumes "\<forall>e \<in> set es. clean_entry e" and "is_token w" and "static_prefix p"
    and "\<forall>l \<in> set (lines s). trim l \<noteq> BEGIN_MARKER"
  shows "parse_nix_hosts (render p s w es) = es"
proof -
  have p: "p = [] \<or> last p = NL" and none: "break_on BEGIN_MARKER p = None"
    using assms(3) by (auto simp: static_prefix_def)
  have eol: "\<forall>l \<in> set (block_lines w es). NL \<notin> set l \<and> CR \<notin> set l"
    using block_lines_eol [OF assms(1,2)] by blast
  have "parse_nix_hosts (render p s w es) =
      parse_lines False None [] (lines p @ block_lines w es @ lines s)"
    by (simp only: parse_nix_hosts_def render_unlines lines_append_NL [OF p] lines_unlines [OF eol])
  also have "\<dots> = parse_lines False None [] (block_lines w es @ lines s)"
    using static_prefix_no_begin_line [OF none] by (intro parse_lines_outside) blast
  also have "\<dots> = parse_lines True None []
      (written_line w # concat (map entry_lines es) @ END_MARKER # lines s)"
    by (simp add: block_lines_def)
  also have "\<dots> = parse_lines True None [] (concat (map entry_lines es) @ END_MARKER # lines s)"
    using freshness_line_trim [OF assms(2), of "lit ''written=''"] parse_written [OF assms(2)]
    by (simp add: written_line_def)
  also have "\<dots> = parse_lines True None es (END_MARKER # lines s)"
    using assms(1) by (simp add: parse_all_entry_lines)
  also have "\<dots> = parse_lines False None es (lines s)" by simp
  also have "\<dots> = parse_lines False None es ([])"
    using parse_lines_outside [of "lines s" None es "[]"] assms(4) by simp
  finally show ?thesis by simp
qed

section \<open>The backend as a reconciling publisher\<close>

text \<open>
  A request is the instant of the write and the entries; the world is the file system.
  The contract asks for clean entries and a file system without faults.
\<close>

definition hosts_request :: "hosts_publisher \<Rightarrow> rstr \<times> entry list \<Rightarrow> hosts_fs \<Rightarrow> hosts_fs \<times> bool" where
  "hosts_request hp r fs =
     (case hosts_publish hp (fst r) (snd r) fs of (res, fs') \<Rightarrow> (fs', res = Inr True))"

definition hosts_good :: "hosts_publisher \<Rightarrow> rstr \<times> entry list \<Rightarrow> hosts_fs \<Rightarrow> bool" where
  "hosts_good hp r fs \<longleftrightarrow>
     hosts_publisher_ok hp \<and> is_token (fst r) \<and> (\<forall>e \<in> set (snd r). clean_entry e) \<and>
     hf_read_fault fs = None \<and> hf_faults fs = no_faults"

definition hosts_same :: "rstr \<times> entry list \<Rightarrow> rstr \<times> entry list \<Rightarrow> bool" where
  "hosts_same r r' \<longleftrightarrow> map strip_confirmed (snd r) = map strip_confirmed (snd r')"

lemma hosts_publish_no_faults:
  assumes "hf_read_fault fs = None" and "hf_faults fs = no_faults"
  shows "hosts_publish hp w es fs =
    (case hosts_plan hp w es (hosts_read fs) of
       PlanErr e \<Rightarrow> (Inl e, fs)
     | PlanKeep \<Rightarrow> (Inr False, fs)
     | PlanWrite out \<Rightarrow> (Inr True, fs\<lparr>hf_file := Some \<lparr>f_data = out, f_mode = 420\<rparr>\<rparr>))"
  using assms
  by (simp add: hosts_publish_def write_with_chmod_def write_impl_no_faults new_file_def
      split: publish_plan.splits)

lemma hosts_request_plan:
  assumes "hosts_good hp r fs"
  shows "(\<exists>out. hosts_plan hp (fst r) (snd r) (hosts_read fs) = PlanWrite out \<and>
            hosts_request hp r fs = (fs\<lparr>hf_file := Some \<lparr>f_data = out, f_mode = 420\<rparr>\<rparr>, True)) \<or>
         (hosts_plan hp (fst r) (snd r) (hosts_read fs) = PlanKeep \<and> hosts_request hp r fs = (fs, False))"
proof -
  have "hosts_plan hp (fst r) (snd r) (hosts_read fs) \<noteq> PlanErr e" for e
    using assms
    by (auto simp: hosts_plan_def hosts_read_def hosts_good_def Let_def split: option.splits prod.splits)
  then show ?thesis
    using assms hosts_publish_no_faults [of fs hp "fst r" "snd r"]
    by (cases "hosts_plan hp (fst r) (snd r) (hosts_read fs)")
      (auto simp: hosts_good_def hosts_request_def)
qed

lemma plan_keep_settled:
  assumes "hosts_plan hp w es (ReadOk c) = PlanKeep" and "hosts_publisher_ok hp"
    and "\<forall>e \<in> set es. clean_entry e" and "\<forall>e \<in> set es'. clean_entry e"
    and "is_token w" and "is_token w'" and "map strip_confirmed es = map strip_confirmed es'"
  shows "hosts_plan hp w' es' (ReadOk c) = PlanKeep"
proof -
  let ?p = "fst (split_static c)" and ?s = "fst (snd (split_static c))"
  have names: "map name_line (sort_key e_address es) = map name_line (sort_key e_address es')"
    using name_lines_strip strip_sorted [OF assms(7)] by blast
  have "significant (render ?p ?s w (sort_key e_address es)) =
      significant (render ?p ?s w' (sort_key e_address es'))"
    using assms split_static_prefix by (simp add: significant_render names)
  with assms(1) show ?thesis
    by (auto simp: hosts_plan_def same_but_for_freshness_def Let_def split: prod.splits if_splits)
qed

interpretation hosts_backend:
  reconciling_publisher "hosts_request hp" "hosts_good hp" hosts_same for hp
proof
  fix r r' fs
  assume g: "hosts_good hp r fs" and g': "hosts_good hp r' fs"
  show "hosts_good hp r' (fst (hosts_request hp r fs))"
    using hosts_request_plan [OF g] g' by (auto simp: hosts_good_def)
next
  fix r fs
  assume "hosts_good hp r fs" and "\<not> snd (hosts_request hp r fs)"
  then show "fst (hosts_request hp r fs) = fs" using hosts_request_plan by fastforce
next
  fix r r' fs
  assume g: "hosts_good hp r fs" and g': "hosts_good hp r' fs" and same: "hosts_same r r'"
  let ?fs = "fst (hosts_request hp r fs)"
  have "hosts_plan hp (fst r') (snd r') (hosts_read ?fs) = PlanKeep"
    using hosts_request_plan [OF g]
  proof
    assume "\<exists>out. hosts_plan hp (fst r) (snd r) (hosts_read fs) = PlanWrite out \<and>
      hosts_request hp r fs = (fs\<lparr>hf_file := Some \<lparr>f_data = out, f_mode = 420\<rparr>\<rparr>, True)"
    then obtain out where out: "hosts_plan hp (fst r) (snd r) (hosts_read fs) = PlanWrite out"
      "hosts_read ?fs = ReadOk out"
      using g by (auto simp: hosts_read_def hosts_good_def)
    then show ?thesis
      using plan_settled [OF out(1)] g g' same by (auto simp: hosts_good_def hosts_same_def)
  next
    assume k: "hosts_plan hp (fst r) (snd r) (hosts_read fs) = PlanKeep \<and>
      hosts_request hp r fs = (fs, False)"
    then obtain c where c: "hosts_read fs = ReadOk c"
      by (auto simp: hosts_plan_def split: read_result.splits)
    then show ?thesis
      using k plan_keep_settled [of hp "fst r" "snd r" c] g g' same
      by (auto simp: hosts_good_def hosts_same_def)
  qed
  moreover have "hosts_good hp r' ?fs" using hosts_request_plan [OF g] g' by (auto simp: hosts_good_def)
  ultimately show "\<not> snd (hosts_request hp r' ?fs)" using hosts_request_plan by fastforce
qed

section \<open>Properties\<close>

lemma publish_outcomes:
  "snd (hosts_publish hp w es fs) = fs \<or>
   (\<exists>out. hosts_plan hp w es (hosts_read fs) = PlanWrite out \<and>
      snd (hosts_publish hp w es fs) = fs\<lparr>hf_file := Some \<lparr>f_data = out, f_mode = 420\<rparr>\<rparr>)"
proof (cases "hosts_plan hp w es (hosts_read fs)")
  case (PlanWrite out)
  let ?r = "write_with_chmod (hf_faults fs) (6 * 64 + 4 * 8 + 4) out (hf_file fs)"
  have "snd ?r \<in> {hf_file fs, Some \<lparr>f_data = out, f_mode = 420\<rparr>}"
    using public_file.all_or_nothing [of "hf_faults fs" 420 out "hf_file fs"] by auto
  moreover have "snd (hosts_publish hp w es fs) = fs\<lparr>hf_file := snd ?r\<rparr>"
    using PlanWrite by (auto simp: hosts_publish_def split: prod.splits option.splits)
  ultimately show ?thesis using PlanWrite by auto
qed (auto simp: hosts_publish_def)


text \<open>A concrete file system for the witnesses.\<close>

definition demo_entry :: entry where
  "demo_entry = \<lparr>e_address = lit ''10.0.0.1'', e_hostnames = [lit ''a'', lit ''b''],
     e_confirmed_at = Some (lit ''T1'')\<rparr>"

definition demo_file :: "rstr disk_file" where
  "demo_file = \<lparr>f_data = lit ''127.0.0.1 localhost'' @ [NL], f_mode = 420\<rparr>"

definition demo_fs :: hosts_fs where
  "demo_fs = \<lparr>hf_file = Some demo_file, hf_read_fault = None, hf_faults = no_faults\<rparr>"

definition demo_hp :: hosts_publisher where
  "demo_hp = \<lparr>hp_static_prefix = [], hp_static_suffix = []\<rparr>"

lemma demo_ok:
  "clean_entry demo_entry" "clean_entry (strip_confirmed demo_entry)"
  "hosts_publisher_ok demo_hp" "is_token (lit ''T2'')" "is_token (lit ''T1'')"
  "hf_read_fault demo_fs = None" "hf_file demo_fs = Some demo_file" "hf_faults demo_fs = no_faults"
  by (simp_all add: clean_entry_def demo_entry_def is_token_def str_simps is_whitespace_def
      strip_confirmed_def hosts_publisher_ok_def static_prefix_def demo_hp_def demo_fs_def
      BEGIN_MARKER_def)


text \<open>
  C20.  TF-2 for the hosts file: ticks that publish the same addresses and names, at any
  instants and with any confirmation times, write at most once; the rest leave the file
  as it is and report that nothing was written.
\<close>

theorem hosts_ticks_write_once:
  assumes "hosts_good hp r fs"
    and "\<forall>r' \<in> set rs. hosts_good hp r' fs \<and> hosts_same r r'"
  shows "run_publish (hosts_request hp) (r # rs) fs =
    (fst (hosts_request hp r fs), snd (hosts_request hp r fs) # replicate (length rs) False)"
  using assms by (rule hosts_backend.writes_at_most_once)

lemma demo_good:
  "hosts_good demo_hp (lit ''T1'', [demo_entry]) demo_fs"
  "hosts_good demo_hp (lit ''T2'', [strip_confirmed demo_entry]) demo_fs"
  "hosts_same (lit ''T1'', [demo_entry]) (lit ''T2'', [strip_confirmed demo_entry])"
  by (simp_all add: hosts_good_def demo_ok hosts_same_def) (simp add: strip_confirmed_def)

theorem hosts_ticks_write_once_witness:
  "snd (run_publish (hosts_request demo_hp)
     [(lit ''T1'', [demo_entry]), (lit ''T2'', [strip_confirmed demo_entry])] demo_fs) =
   [snd (hosts_request demo_hp (lit ''T1'', [demo_entry]) demo_fs), False]"
  using hosts_ticks_write_once [of demo_hp "(lit ''T1'', [demo_entry])" demo_fs
      "[(lit ''T2'', [strip_confirmed demo_entry])]"] demo_good by simp

text \<open>
  C37.  What a tick wrote reads back: the entries of the block, in the order of their
  addresses, with their names and confirmation times, when the text after the block has
  no BEGIN line of its own.
\<close>

theorem hosts_block_reads_back:
  assumes "hosts_plan hp w es rd = PlanWrite out" and "hosts_publisher_ok hp"
    and "\<forall>e \<in> set es. clean_entry e" and "is_token w"
    and "\<forall>l \<in> set (lines (snd (static_of hp rd))). trim l \<noteq> BEGIN_MARKER"
  shows "parse_nix_hosts out = sort_key e_address es"
  using parse_render [OF _ assms(4) static_of_prefix [OF assms(2)] assms(5)] assms(3)
  by (simp add: plan_write_render [OF assms(1)])

theorem hosts_block_reads_back_witness:
  "parse_nix_hosts (render [] [] (lit ''T2'') [demo_entry]) = [demo_entry]"
proof -
  have "hosts_plan demo_hp (lit ''T2'') [demo_entry] ReadNotFound =
      PlanWrite (render [] [] (lit ''T2'') [demo_entry])"
    by (simp add: hosts_plan_def demo_hp_def)
  from hosts_block_reads_back [OF this] demo_ok show ?thesis
    by (simp add: static_of_def demo_hp_def lines_def)
qed

text \<open>
  The block does not depend on the iteration order of the peer map: two orders of
  the same entries, with distinct addresses, give the same plan.
\<close>

lemma hosts_order_irrelevant:
  assumes "mset es = mset es'" and "distinct (map e_address es)"
  shows "hosts_plan hp w es rd = hosts_plan hp w es' rd"
  using sorted_unique [OF assms] by (simp add: hosts_plan_def cong: read_result.case_cong)

lemma hosts_order_irrelevant_witness:
  "hosts_plan demo_hp (lit ''T2'') [demo_entry, demo_entry\<lparr>e_address := lit ''10.0.0.0''\<rparr>] ReadNotFound =
   hosts_plan demo_hp (lit ''T2'') [demo_entry\<lparr>e_address := lit ''10.0.0.0''\<rparr>, demo_entry] ReadNotFound"
  by (rule hosts_order_irrelevant) (simp_all add: demo_entry_def add_mset_commute)

text \<open>
  An append after the block survives: what is appended to the file a publication
  wrote is still at its end after the next publication.
\<close>

lemma hosts_append_survives:
  assumes "hosts_plan hp w es rd = PlanWrite out" and "hosts_publisher_ok hp"
    and "\<forall>e \<in> set es. clean_entry e" and "is_token w"
    and "hf_read_fault fs = None" and "hf_file fs = Some \<lparr>f_data = out @ x, f_mode = m\<rparr>"
  shows "\<exists>y f. hf_file (snd (hosts_publish hp w' es' fs)) = Some f \<and> f_data f = y @ x"
  using publish_outcomes [of hp w' es' fs]
proof (elim disjE exE conjE)
  assume "snd (hosts_publish hp w' es' fs) = fs"
  then show ?thesis using assms(6) by simp
next
  fix out'
  assume wr: "hosts_plan hp w' es' (hosts_read fs) = PlanWrite out'"
    "snd (hosts_publish hp w' es' fs) = fs\<lparr>hf_file := Some \<lparr>f_data = out', f_mode = 420\<rparr>\<rparr>"
  let ?p = "fst (static_of hp rd)" and ?s = "snd (static_of hp rd)"
  have "out @ x = render ?p (?s @ x) w (sort_key e_address es)"
    by (simp add: plan_write_render [OF assms(1)] render_def)
  then have "split_static (out @ x) = (?p, ?s @ x, True)"
    using split_static_render [OF _ assms(4) static_of_prefix [OF assms(2)]] assms(3) by simp
  then have "static_of hp (hosts_read fs) = (?p, ?s @ x)"
    using assms(5,6) by (simp add: static_of_def hosts_read_def)
  then have "out' = (?p @ unlines (block_lines w' (sort_key e_address es')) @ ?s) @ x"
    using plan_write_render [OF wr(1)] by (simp add: render_unlines)
  with wr(2) show ?thesis by auto
qed

theorem hosts_append_survives_witness:
  "\<exists>y f. hf_file (snd (hosts_publish demo_hp (lit ''T2'') []
      (demo_fs\<lparr>hf_file := Some \<lparr>f_data = render [] [] (lit ''T1'') [demo_entry] @
         lit ''192.0.2.7 cache'' @ [NL], f_mode = 420\<rparr>\<rparr>))) = Some f \<and>
      f_data f = y @ (lit ''192.0.2.7 cache'' @ [NL])"
proof -
  have "hosts_plan demo_hp (lit ''T1'') [demo_entry] ReadNotFound =
      PlanWrite (render [] [] (lit ''T1'') [demo_entry])"
    by (simp add: hosts_plan_def demo_hp_def)
  from hosts_append_survives [OF this] demo_ok show ?thesis by simp
qed

text \<open>
  The limit of PUB-1 in the code: the BEGIN marker is searched as text, not as a
  line.  A comment that mentions it opens a block there, and when no END line follows,
  everything after the mention is dropped from the next rendering, whatever it holds.
\<close>

lemma hosts_begin_mention_drops_rest:
  assumes "break_on BEGIN_MARKER before = None" and "NL \<notin> set before" and "before \<noteq> []"
    and "block_rest (BEGIN_MARKER @ tail) = None"
  shows "split_static (before @ BEGIN_MARKER @ tail) = (before @ [NL], [], True)"
proof -
  have "hd (rev before) \<noteq> NL" using assms(2,3) by (metis hd_in_set rev_is_Nil_conv set_rev)
  then have "trim_end_matches NL before = before"
    using assms(3) by (cases before rule: rev_cases) (auto simp: trim_end_matches_def)
  then show ?thesis
    using break_on_BEGIN [OF assms(1)] assms(3,4) by (simp add: split_static_def)
qed

theorem hosts_begin_mention_drops_rest_witness:
  "split_static (lit ''10.0.0.9 c '' @ BEGIN_MARKER @ lit '' moved'' @ [NL] @ lit ''10.0.0.8 d'' @ [NL]) =
   (lit ''10.0.0.9 c '' @ [NL], [], True)"
proof (rule hosts_begin_mention_drops_rest)
  show "break_on BEGIN_MARKER (lit ''10.0.0.9 c '') = None"
    by (simp add: BEGIN_MARKER_def str_simps)
  show "block_rest (BEGIN_MARKER @ lit '' moved'' @ [NL] @ lit ''10.0.0.8 d'' @ [NL]) = None"
    by (simp add: block_rest_def BEGIN_MARKER_def END_MARKER_def str_simps trim_def
        trim_start_def trim_end_def is_whitespace_def)
qed (simp_all add: str_simps)

end
