(* ===== verification/Subprocess.thy ===== *)
theory Subprocess
  imports Utf8
begin

text \<open>
  \<open>src/subprocess.rs\<close>: a helper process with a deadline and capped output.  What the
  operating system answers is the input of the model: a pipe is the sequence of outcomes
  of the successive \<open>read\<close> calls on it, a \<open>poll\<close> is one round of the waiting loop (what
  \<open>try_wait\<close> says, and how long the child has been running).  The result is that of
  \<open>subprocess::run\<close> with the trace of what was done to the child.
\<close>

section \<open>Definitions\<close>

text \<open>\<open>ExitStatus\<close> in the two views the crate takes of it: \<open>success()\<close> and \<open>Display\<close>.\<close>

record exit_status =
  es_success :: bool
  es_display :: rstr

record bounded_output =
  bo_status :: exit_status
  bo_stdout :: "8 word list"
  bo_stderr :: "8 word list"
  bo_timed_out :: bool
  bo_truncated :: bool

record captured =
  ca_bytes :: "8 word list"
  ca_truncated :: bool

definition MAX_OUTPUT_BYTES :: nat where "MAX_OUTPUT_BYTES = 64 * 1024"

definition captured_default :: captured where
  "captured_default = \<lparr>ca_bytes = [], ca_truncated = False\<rparr>"

datatype read_outcome = Got "8 word list" | WouldBlock | Interrupted | ReadFailed

type_synonym pipe = "read_outcome list option"

definition capture :: "captured \<Rightarrow> 8 word list \<Rightarrow> captured" where
  "capture c chunk =
     (let remaining = MAX_OUTPUT_BYTES - length (ca_bytes c); count = length chunk in
      \<lparr>ca_bytes = (if remaining > 0 then ca_bytes c @ take (min count remaining) chunk else ca_bytes c),
       ca_truncated = (ca_truncated c \<or> count > remaining)\<rparr>)"

text \<open>One pass of \<open>drain\<close>: at most 32 reads; a pipe with nothing to say would block.\<close>

fun drain_pass :: "nat \<Rightarrow> read_outcome list \<Rightarrow> captured \<Rightarrow> pipe \<times> captured" where
  "drain_pass 0 p c = (Some p, c)"
| "drain_pass (Suc n) [] c = (Some [], c)"
| "drain_pass (Suc n) (Got chunk # p) c =
     (if chunk = [] then (None, c) else drain_pass n p (capture c chunk))"
| "drain_pass (Suc n) (WouldBlock # p) c = (Some p, c)"
| "drain_pass (Suc n) (Interrupted # p) c = drain_pass n p c"
| "drain_pass (Suc n) (ReadFailed # p) c = (None, c)"

definition drain :: "pipe \<Rightarrow> captured \<Rightarrow> pipe \<times> captured" where
  "drain p c = (case p of None \<Rightarrow> (None, c) | Some r \<Rightarrow> drain_pass 32 r c)"

datatype wait_outcome = Exited exit_status | Running | WaitFailed rstr

record poll =
  po_wait :: wait_outcome
  po_elapsed :: int

datatype child_op = KillGroup | WaitBlocking | SleepFor int

record child_io =
  ci_out :: pipe
  ci_err :: pipe
  ci_out_buf :: captured
  ci_err_buf :: captured

definition drain_both :: "child_io \<Rightarrow> child_io" where
  "drain_both io =
     (case drain (ci_out io) (ci_out_buf io) of (po, bo) \<Rightarrow>
      case drain (ci_err io) (ci_err_buf io) of (pe, be) \<Rightarrow>
        \<lparr>ci_out = po, ci_err = pe, ci_out_buf = bo, ci_err_buf = be\<rparr>)"

text \<open>
  The waiting loop.  \<open>reap\<close> is what the blocking \<open>wait\<close> answers after a kill.  The
  outer \<open>None\<close> is a list of polls that ends before the loop does.
\<close>

fun wait_loop ::
  "int \<Rightarrow> rstr + exit_status \<Rightarrow> poll list \<Rightarrow> child_io \<Rightarrow>
   ((rstr + exit_status \<times> bool) \<times> child_io \<times> child_op list) option" where
  "wait_loop timeout reap [] io = None"
| "wait_loop timeout reap (p # ps) io =
     (let io' = drain_both io in
      case po_wait p of
        Exited st \<Rightarrow> Some (Inr (st, False), io', [])
      | Running \<Rightarrow>
          (if po_elapsed p \<ge> timeout then
             Some (case reap of
                     Inr st \<Rightarrow> (Inr (st, True), io', [KillGroup, WaitBlocking])
                   | Inl e \<Rightarrow> (Inl e, io', [KillGroup, WaitBlocking]))
           else
             map_option (\<lambda>(r, io'', ops). (r, io'', SleepFor (min (10 * 1000000) timeout) # ops))
               (wait_loop timeout reap ps io'))
      | WaitFailed e \<Rightarrow> Some (Inl e, io', [KillGroup, WaitBlocking]))"

record child_world =
  cw_spawn :: "rstr option"
  cw_nonblock_out :: "rstr option"
  cw_nonblock_err :: "rstr option"
  cw_io :: "read_outcome list \<times> read_outcome list"
  cw_polls :: "poll list"
  cw_reap :: "rstr + exit_status"

definition run_child :: "int \<Rightarrow> child_world \<Rightarrow> ((rstr + bounded_output) \<times> child_op list) option" where
  "run_child timeout w =
     (case cw_spawn w of
        Some e \<Rightarrow> Some (Inl e, [])
      | None \<Rightarrow>
        (case cw_nonblock_out w of
           Some e \<Rightarrow> Some (Inl e, [KillGroup, WaitBlocking])
         | None \<Rightarrow>
           (case cw_nonblock_err w of
              Some e \<Rightarrow> Some (Inl e, [KillGroup, WaitBlocking])
            | None \<Rightarrow>
              (case wait_loop timeout (cw_reap w) (cw_polls w)
                      \<lparr>ci_out = Some (fst (cw_io w)), ci_err = Some (snd (cw_io w)),
                       ci_out_buf = captured_default, ci_err_buf = captured_default\<rparr> of
                 None \<Rightarrow> None
               | Some (Inl e, io, ops) \<Rightarrow> Some (Inl e, ops)
               | Some (Inr (st, late), io, ops) \<Rightarrow>
                   (let io' = drain_both io in
                    Some (Inr \<lparr>bo_status = st, bo_stdout = ca_bytes (ci_out_buf io'),
                            bo_stderr = ca_bytes (ci_err_buf io'), bo_timed_out = late,
                            bo_truncated = (ca_truncated (ci_out_buf io') \<or>
                                            ca_truncated (ci_err_buf io'))\<rparr>,
                          ops @ [KillGroup]))))))"

section \<open>Capped output\<close>

text \<open>
  The contract of a buffer: it holds the first \<open>MAX_OUTPUT_BYTES\<close> of what was received,
  and says truncated exactly when there was more.
\<close>

definition holds :: "captured \<Rightarrow> 8 word list \<Rightarrow> bool" where
  "holds c got \<longleftrightarrow> ca_bytes c = take MAX_OUTPUT_BYTES got \<and>
     ca_truncated c = (MAX_OUTPUT_BYTES < length got)"

lemma holds_default [wf_intros]: "holds captured_default []"
  by (simp add: holds_def captured_default_def)

lemma holds_capture [wf_intros]: "holds c got \<Longrightarrow> holds (capture c chunk) (got @ chunk)"
  by (cases "length got \<le> MAX_OUTPUT_BYTES") (auto simp: holds_def capture_def Let_def min_def)

text \<open>The bytes that \<open>n\<close> reads of a pipe deliver, up to its end.\<close>

fun delivered :: "nat \<Rightarrow> read_outcome list \<Rightarrow> 8 word list" where
  "delivered 0 p = []"
| "delivered (Suc n) [] = []"
| "delivered (Suc n) (Got chunk # p) = (if chunk = [] then [] else chunk @ delivered n p)"
| "delivered (Suc n) (WouldBlock # p) = []"
| "delivered (Suc n) (Interrupted # p) = delivered n p"
| "delivered (Suc n) (ReadFailed # p) = []"

lemma holds_drain_pass:
  "holds c got \<Longrightarrow> holds (snd (drain_pass n p c)) (got @ delivered n p)"
proof (induction n p c arbitrary: got rule: drain_pass.induct)
  case (3 n chunk p c)
  then show ?case using holds_capture [OF "3.prems", of chunk] by fastforce
qed auto

lemma holds_drain: "holds c got \<Longrightarrow> \<exists>more. holds (snd (drain p c)) (got @ more)"
  by (cases p) (auto simp: drain_def intro: holds_drain_pass exI [of _ "[]"])

definition io_holds :: "child_io \<Rightarrow> bool" where
  "io_holds io \<longleftrightarrow> (\<exists>a b. holds (ci_out_buf io) a \<and> holds (ci_err_buf io) b)"

lemma io_holds_drain_both [wf_intros]: "io_holds io \<Longrightarrow> io_holds (drain_both io)"
proof -
  assume "io_holds io"
  then obtain a b where "holds (ci_out_buf io) a" "holds (ci_err_buf io) b"
    by (auto simp: io_holds_def)
  from holds_drain [OF this(1), of "ci_out io"] holds_drain [OF this(2), of "ci_err io"]
  show ?thesis by (auto simp: io_holds_def drain_both_def split_beta)
qed

lemma io_holds_wait_loop:
  "wait_loop timeout reap ps io = Some (r, io', ops) \<Longrightarrow> io_holds io \<Longrightarrow> io_holds io'"
  by (induction ps arbitrary: io ops)
    (auto simp: Let_def io_holds_drain_both split: wait_outcome.splits if_splits sum.splits)

lemma holds_length: "holds c got \<Longrightarrow> length (ca_bytes c) \<le> MAX_OUTPUT_BYTES"
  by (simp add: holds_def)

section \<open>The waiting loop\<close>

text \<open>A child is gone when it was seen to exit or was waited for after a kill.\<close>

lemma wait_loop_reaped:
  "wait_loop timeout reap ps io = Some (r, io', ops) \<Longrightarrow>
     (\<exists>st. r = Inr (st, False) \<and> (\<exists>p \<in> set ps. po_wait p = Exited st)) \<or>
     (\<exists>pre. ops = pre @ [KillGroup, WaitBlocking])"
proof (induction ps arbitrary: io ops)
  case (Cons p ps)
  then show ?case
    by (fastforce simp: Let_def split: wait_outcome.splits if_splits sum.splits)
qed simp

lemma wait_loop_ends:
  "i < length ps \<Longrightarrow> po_elapsed (ps ! i) \<ge> timeout \<Longrightarrow> wait_loop timeout reap ps io \<noteq> None"
proof (induction ps arbitrary: io i)
  case (Cons p ps)
  show ?case
  proof (cases i)
    case 0
    with Cons.prems show ?thesis by (auto simp: Let_def split: wait_outcome.splits sum.splits)
  next
    case (Suc k)
    with Cons.IH [of k "drain_both io"] Cons.prems show ?thesis
      by (auto simp: Let_def split: wait_outcome.splits sum.splits)
  qed
qed simp

lemma wait_loop_timed_out:
  "wait_loop timeout reap ps io = Some (Inr (st, late), io', ops) \<Longrightarrow>
     late = (\<exists>k < length ps. po_elapsed (ps ! k) \<ge> timeout \<and> (\<forall>j \<le> k. po_wait (ps ! j) = Running))"
proof (induction ps arbitrary: io ops)
  case (Cons p ps)
  show ?case
  proof (cases "po_wait p")
    case Running
    show ?thesis
    proof (cases "po_elapsed p \<ge> timeout")
      case True
      with Running Cons.prems show ?thesis
        by (auto simp: Let_def split: sum.splits intro!: exI [of _ 0])
    next
      case False
      with Running Cons.prems obtain ops' where
        "wait_loop timeout reap ps (drain_both io) = Some (Inr (st, late), io', ops')"
        by (auto simp: Let_def)
      from Cons.IH [OF this] show ?thesis
        using Running False by (simp add: Ex_less_Suc2 All_less_Suc2 less_Suc_eq_le [symmetric])
    qed
  next
    case (Exited st')
    with Cons.prems have "\<not> late" by (simp add: Let_def)
    with Exited show ?thesis by fastforce
  qed (use Cons.prems in \<open>simp add: Let_def\<close>)
qed simp


lemma run_child_ok:
  assumes "run_child timeout w = Some (Inr out, ops)"
  obtains io ops' where
    "wait_loop timeout (cw_reap w) (cw_polls w)
       \<lparr>ci_out = Some (fst (cw_io w)), ci_err = Some (snd (cw_io w)),
        ci_out_buf = captured_default, ci_err_buf = captured_default\<rparr> =
     Some (Inr (bo_status out, bo_timed_out out), io, ops')"
    "ops = ops' @ [KillGroup]"
    "bo_stdout out = ca_bytes (ci_out_buf (drain_both io))"
    "bo_stderr out = ca_bytes (ci_err_buf (drain_both io))"
    "bo_truncated out = (ca_truncated (ci_out_buf (drain_both io)) \<or>
       ca_truncated (ci_err_buf (drain_both io)))"
  using assms unfolding run_child_def
  by (auto simp: Let_def split: option.splits sum.splits prod.splits)

section \<open>Properties\<close>

text \<open>
  The capture of a helper's output is bounded and honest: stdout and stderr are the
  first 64 KiB of what was read from each pipe, and \<open>truncated\<close> says exactly that one of
  them was longer.
\<close>

lemma child_output_capped:
  assumes "run_child timeout w = Some (Inr out, ops)"
  shows "\<exists>a b. bo_stdout out = take MAX_OUTPUT_BYTES a \<and> bo_stderr out = take MAX_OUTPUT_BYTES b \<and>
    bo_truncated out = (MAX_OUTPUT_BYTES < length a \<or> MAX_OUTPUT_BYTES < length b)"
proof -
  from assms obtain io ops' where run: "wait_loop timeout (cw_reap w) (cw_polls w)
       \<lparr>ci_out = Some (fst (cw_io w)), ci_err = Some (snd (cw_io w)),
        ci_out_buf = captured_default, ci_err_buf = captured_default\<rparr> =
     Some (Inr (bo_status out, bo_timed_out out), io, ops')"
    and out: "bo_stdout out = ca_bytes (ci_out_buf (drain_both io))"
    "bo_stderr out = ca_bytes (ci_err_buf (drain_both io))"
    "bo_truncated out = (ca_truncated (ci_out_buf (drain_both io)) \<or>
       ca_truncated (ci_err_buf (drain_both io)))"
    by (rule run_child_ok)
  have "io_holds (drain_both io)"
    by (rule io_holds_drain_both, rule io_holds_wait_loop [OF run])
      (auto simp: io_holds_def intro: holds_default)
  then show ?thesis unfolding io_holds_def holds_def out by blast
qed

definition demo_child :: child_world where
  "demo_child = \<lparr>cw_spawn = None, cw_nonblock_out = None, cw_nonblock_err = None,
     cw_io = ([Got [79, 75], Got []], [WouldBlock]),
     cw_polls = [\<lparr>po_wait = Running, po_elapsed = 0\<rparr>, \<lparr>po_wait = Running, po_elapsed = 60\<rparr>],
     cw_reap = Inr \<lparr>es_success = False, es_display = lit ''signal: 9 (SIGKILL)''\<rparr>\<rparr>"

lemma drain_pass_numeral:
  "drain_pass (numeral k) [] c = (Some [], c)"
  "drain_pass (numeral k) (Got chunk # p) c =
     (if chunk = [] then (None, c) else drain_pass (pred_numeral k) p (capture c chunk))"
  "drain_pass (numeral k) (WouldBlock # p) c = (Some p, c)"
  by (simp_all add: numeral_eq_Suc)

lemma demo_child_run:
  "run_child 50 demo_child = Some (Inr \<lparr>bo_status = \<lparr>es_success = False,
     es_display = lit ''signal: 9 (SIGKILL)''\<rparr>, bo_stdout = [79, 75], bo_stderr = [],
     bo_timed_out = True, bo_truncated = False\<rparr>,
   [SleepFor 50, KillGroup, WaitBlocking, KillGroup])"
  by (simp add: run_child_def demo_child_def drain_both_def drain_def drain_pass_numeral
      captured_default_def
      capture_def MAX_OUTPUT_BYTES_def)

text \<open>
  No helper outlives its call: whenever a call that started a child returns, the whole
  process group has been killed, and the child was either seen to exit or waited for right
  after the kill.
\<close>

lemma child_killed:
  assumes "run_child timeout w = Some (r, ops)" and "cw_spawn w = None"
  shows "KillGroup \<in> set ops \<and>
    ((\<exists>pre post. ops = pre @ KillGroup # WaitBlocking # post) \<or>
     (\<exists>p \<in> set (cw_polls w). \<exists>st. po_wait p = Exited st))"
proof (cases "cw_nonblock_out w = None \<and> cw_nonblock_err w = None")
  case True
  with assms obtain v io ops' where "wait_loop timeout (cw_reap w) (cw_polls w)
       \<lparr>ci_out = Some (fst (cw_io w)), ci_err = Some (snd (cw_io w)),
        ci_out_buf = captured_default, ci_err_buf = captured_default\<rparr> = Some (v, io, ops')"
    and ops: "ops = (case v of Inl _ \<Rightarrow> ops' | Inr _ \<Rightarrow> ops' @ [KillGroup])"
    unfolding run_child_def by (auto simp: Let_def split: option.splits sum.splits prod.splits)
  from wait_loop_reaped [OF this(1)] consider (seen) "\<exists>p \<in> set (cw_polls w). \<exists>st. po_wait p = Exited st" "\<exists>x. v = Inr x"
    | (reaped) pre where "ops' = pre @ [KillGroup, WaitBlocking]" by auto
  then show ?thesis
  proof cases
    case reaped
    then have "ops = pre @ KillGroup # WaitBlocking # (case v of Inl _ \<Rightarrow> [] | Inr _ \<Rightarrow> [KillGroup])"
      using ops by (simp split: sum.splits)
    then show ?thesis by auto
  qed (use ops in auto)
next
  case False
  with assms have "ops = [KillGroup, WaitBlocking]" unfolding run_child_def by (auto split: option.splits)
  then show ?thesis by auto
qed

text \<open>
  The deadline holds: one round of the loop that starts at or after the deadline is
  enough for the call to return, and a result says \<open>timed_out\<close> exactly when the child was
  still running in such a round.
\<close>

lemma child_deadline:
  "((\<exists>p \<in> set (cw_polls w). timeout \<le> po_elapsed p) \<longrightarrow> run_child timeout w \<noteq> None) \<and>
   (\<forall>out ops. run_child timeout w = Some (Inr out, ops) \<longrightarrow> bo_timed_out out =
      (\<exists>k < length (cw_polls w). timeout \<le> po_elapsed (cw_polls w ! k) \<and>
         (\<forall>j \<le> k. po_wait (cw_polls w ! j) = Running)))"
proof (intro conjI impI allI)
  assume "\<exists>p \<in> set (cw_polls w). timeout \<le> po_elapsed p"
  then have "wait_loop timeout (cw_reap w) (cw_polls w) io \<noteq> None" for io
    using wait_loop_ends by (metis in_set_conv_nth)
  then obtain v io ops where "wait_loop timeout (cw_reap w) (cw_polls w)
       \<lparr>ci_out = Some (fst (cw_io w)), ci_err = Some (snd (cw_io w)),
        ci_out_buf = captured_default, ci_err_buf = captured_default\<rparr> = Some (v, io, ops)"
    by (metis not_None_eq prod_cases3)
  then show "run_child timeout w \<noteq> None"
    unfolding run_child_def by (auto simp: Let_def split: option.split sum.split)
next
  fix out ops
  assume "run_child timeout w = Some (Inr out, ops)"
  then show "bo_timed_out out =
      (\<exists>k < length (cw_polls w). timeout \<le> po_elapsed (cw_polls w ! k) \<and>
         (\<forall>j \<le> k. po_wait (cw_polls w ! j) = Running))"
    by (rule run_child_ok) (rule wait_loop_timed_out)
qed



end
