(* ===== verification/Route.thy ===== *)
theory Route
  imports Subprocess "HOL-Library.Countable"
begin

text \<open>
  \<open>src/publish/route.rs\<close>: the metrics of the default routes.  The \<open>ip\<close> binary is a
  parameter: \<open>ie_exec\<close> is \<open>subprocess::run\<close> on it, which may change the world (the kernel's
  routing table), and \<open>ie_parse\<close> is the JSON reader of its output.  Everything here holds
  for an arbitrary \<open>ip\<close> unless a theorem names the contract \<open>ip_contract\<close>, what the code
  relies on of iproute2.  The state logs each command with the world after it.
\<close>

section \<open>Definitions\<close>

record ranked_interface =
  ri_interface :: rstr
  ri_healthy :: bool

record route_change =
  rc_interface :: rstr
  rc_from_metric :: int
  rc_to_metric :: int

record publication =
  pb_changes :: "route_change list"
  pb_error :: "rstr option"

definition publication_default :: publication where
  "publication_default = \<lparr>pb_changes = [], pb_error = None\<rparr>"

definition pb_fail :: "publication \<Rightarrow> rstr \<Rightarrow> publication" where
  "pb_fail p msg = (if pb_error p = None then p\<lparr>pb_error := Some msg\<rparr> else p)"

record route_publisher =
  rp_ip_path :: rstr
  rp_command_timeout :: int

definition DEFAULT_COMMAND_TIMEOUT :: int where "DEFAULT_COMMAND_TIMEOUT = 5 * 1000000000"

definition route_publisher_new :: "rstr \<Rightarrow> route_publisher" where
  "route_publisher_new p = \<lparr>rp_ip_path = p, rp_command_timeout = DEFAULT_COMMAND_TIMEOUT\<rparr>"

record ip_route =
  ir_gateway :: "rstr option"
  ir_metric :: "int option"

definition route_metric :: "ip_route \<Rightarrow> int" where
  "route_metric r = (case ir_metric r of Some m \<Rightarrow> m | None \<Rightarrow> 0)"

record 'w ip_env =
  ie_exec :: "rstr \<Rightarrow> rstr list \<Rightarrow> int \<Rightarrow> 'w \<Rightarrow> (rstr + bounded_output) \<times> 'w"
  ie_parse :: "rstr \<Rightarrow> rstr + ip_route list"

record 'w ip_state =
  is_world :: 'w
  is_log :: "(rstr list \<times> 'w) list"

definition ip_name :: "route_publisher \<Rightarrow> rstr" where
  "ip_name rp = (if rp_ip_path rp = [] then lit ''ip'' else rp_ip_path rp)"

definition command ::
  "'w ip_env \<Rightarrow> route_publisher \<Rightarrow> rstr list \<Rightarrow> 'w ip_state \<Rightarrow> (rstr + bounded_output) \<times> 'w ip_state" where
  "command env rp args s =
     (case ie_exec env (ip_name rp) args (rp_command_timeout rp) (is_world s) of
        (r, w) \<Rightarrow>
          (let s' = \<lparr>is_world = w, is_log = is_log s @ [(args, w)]\<rparr> in
           case r of
             Inl e \<Rightarrow> (Inl (lit ''ip '' @ join [SP] args @ lit '': '' @ e), s')
           | Inr out \<Rightarrow>
               if bo_timed_out out then
                 (Inl (lit ''ip '' @ join [SP] args @ lit '': timed out after '' @
                       show_int (rp_command_timeout rp div 1000000) @ lit ''ms''), s')
               else (Inr out, s')))"

definition exit_error :: "rstr list \<Rightarrow> bounded_output \<Rightarrow> rstr" where
  "exit_error args out =
     lit ''ip '' @ join [SP] args @ lit '': exit '' @ es_display (bo_status out) @ lit '' ('' @
     from_utf8_lossy (bo_stdout out) @ from_utf8_lossy (bo_stderr out) @ lit '')''"

definition run_ip ::
  "'w ip_env \<Rightarrow> route_publisher \<Rightarrow> rstr list \<Rightarrow> 'w ip_state \<Rightarrow> rstr option \<times> 'w ip_state" where
  "run_ip env rp args s =
     (case command env rp args s of
        (Inr out, s') \<Rightarrow>
          if es_success (bo_status out) then (None, s') else (Some (exit_error args out), s')
      | (Inl e, s') \<Rightarrow> (Some e, s'))"

definition show_args :: "rstr \<Rightarrow> rstr list" where
  "show_args iface = [lit ''-j'', lit ''route'', lit ''show'', lit ''default'', lit ''dev'', iface]"

definition via_args :: "rstr option \<Rightarrow> rstr list" where
  "via_args gw = (case gw of Some g \<Rightarrow> [lit ''via'', g] | None \<Rightarrow> [])"

definition replace_args :: "rstr \<Rightarrow> int \<Rightarrow> rstr option \<Rightarrow> rstr list" where
  "replace_args iface metric gw =
     [lit ''route'', lit ''replace'', lit ''default''] @ via_args gw @
     [lit ''dev'', iface, lit ''metric'', show_int metric]"

definition del_args :: "rstr \<Rightarrow> int \<Rightarrow> rstr option \<Rightarrow> rstr list" where
  "del_args iface metric gw =
     [lit ''route'', lit ''del'', lit ''default''] @ via_args gw @
     [lit ''dev'', iface, lit ''metric'', show_int metric]"

definition show_default ::
  "'w ip_env \<Rightarrow> route_publisher \<Rightarrow> rstr \<Rightarrow> 'w ip_state \<Rightarrow> (rstr + ip_route list) \<times> 'w ip_state" where
  "show_default env rp iface s =
     (case command env rp (show_args iface) s of
        (Inl e, s') \<Rightarrow> (Inl e, s')
      | (Inr out, s') \<Rightarrow>
          if \<not> es_success (bo_status out) then (Inl (exit_error (show_args iface) out), s')
          else
            (let txt = trim (from_utf8_lossy (bo_stdout out)) in
             if txt = [] then (Inr [], s')
             else
               (case ie_parse env txt of
                  Inr rs \<Rightarrow> (Inr rs, s')
                | Inl e \<Rightarrow>
                    (Inl (lit ''ip '' @ join [SP] (show_args iface) @ lit '': unparseable JSON ('' @
                          e @ lit '') -- does this iproute2 support -j?''), s'))))"

text \<open>\<open>min_by_key\<close>: the first of the routes with the least metric.\<close>

fun min_by_metric :: "ip_route list \<Rightarrow> ip_route option" where
  "min_by_metric [] = None"
| "min_by_metric (r # rs) =
     (case min_by_metric rs of
        None \<Rightarrow> Some r
      | Some m \<Rightarrow> if route_metric r \<le> route_metric m then Some r else Some m)"

definition no_route_error :: "rstr \<Rightarrow> rstr" where
  "no_route_error iface =
     lit ''no default route on dev '' @ iface @
     lit '' to reprioritize -- nixnet only reprioritizes routes the OS/DHCP established, it never creates one''"

fun del_stale ::
  "'w ip_env \<Rightarrow> route_publisher \<Rightarrow> rstr \<Rightarrow> int \<Rightarrow> ip_route list \<Rightarrow>
   publication \<times> 'w ip_state \<Rightarrow> publication \<times> 'w ip_state" where
  "del_stale env rp iface metric [] ps = ps"
| "del_stale env rp iface metric (r # rs) ps =
     del_stale env rp iface metric rs
       (if route_metric r = metric then ps
        else
          (case run_ip env rp (del_args iface (route_metric r) (ir_gateway r)) (snd ps) of
             (Some e, s') \<Rightarrow> (pb_fail (fst ps) e, s')
           | (None, s') \<Rightarrow> (fst ps, s')))"

definition reprioritize ::
  "'w ip_env \<Rightarrow> route_publisher \<Rightarrow> rstr \<Rightarrow> int \<Rightarrow> bool \<Rightarrow>
   publication \<times> 'w ip_state \<Rightarrow> publication \<times> 'w ip_state" where
  "reprioritize env rp iface metric healthy ps =
     (case show_default env rp iface (snd ps) of
        (Inl e, s1) \<Rightarrow> (pb_fail (fst ps) e, s1)
      | (Inr existing, s1) \<Rightarrow>
          (case min_by_metric existing of
             None \<Rightarrow>
               if \<not> healthy then (fst ps, s1) else (pb_fail (fst ps) (no_route_error iface), s1)
           | Some chosen \<Rightarrow>
               if length existing = 1 \<and> route_metric chosen = metric then (fst ps, s1)
               else
                 (case run_ip env rp (replace_args iface metric (ir_gateway chosen)) s1 of
                    (Some e, s2) \<Rightarrow> (pb_fail (fst ps) e, s2)
                  | (None, s2) \<Rightarrow>
                      del_stale env rp iface metric existing
                        ((fst ps)\<lparr>pb_changes := pb_changes (fst ps) @
                           [\<lparr>rc_interface = iface, rc_from_metric = route_metric chosen,
                             rc_to_metric = metric\<rparr>]\<rparr>, s2))))"

definition target_metric :: "int \<Rightarrow> int \<Rightarrow> nat \<Rightarrow> int" where
  "target_metric base step i = wrap64 (base + wrap64 (int i * step))"

fun apply_from ::
  "'w ip_env \<Rightarrow> route_publisher \<Rightarrow> int \<Rightarrow> int \<Rightarrow> nat \<Rightarrow> ranked_interface list \<Rightarrow>
   publication \<times> 'w ip_state \<Rightarrow> publication \<times> 'w ip_state" where
  "apply_from env rp base step i [] ps = ps"
| "apply_from env rp base step i (c # cs) ps =
     apply_from env rp base step (Suc i) cs
       (reprioritize env rp (ri_interface c) (target_metric base step i) (ri_healthy c) ps)"

definition apply_routes ::
  "'w ip_env \<Rightarrow> route_publisher \<Rightarrow> ranked_interface list \<Rightarrow> int \<Rightarrow> int \<Rightarrow>
   'w ip_state \<Rightarrow> publication \<times> 'w ip_state" where
  "apply_routes env rp cs base step s = apply_from env rp base step 0 cs (publication_default, s)"

section \<open>What is issued, for any \<open>ip\<close>\<close>

lemma is_log_command: "is_log (snd (command env rp args s)) =
    is_log s @ [(args, is_world (snd (command env rp args s)))]"
  by (auto simp: command_def Let_def split: prod.splits sum.splits)

lemma is_log_run_ip: "is_log (snd (run_ip env rp args s)) =
    is_log s @ [(args, is_world (snd (run_ip env rp args s)))]"
  using is_log_command [of env rp args s] by (auto simp: run_ip_def split: prod.splits sum.splits)

lemma is_log_show: "is_log (snd (show_default env rp iface s)) =
    is_log s @ [(show_args iface, is_world (snd (show_default env rp iface s)))]"
  using is_log_command [of env rp "show_args iface" s]
  by (auto simp: show_default_def Let_def split: prod.splits sum.splits)

lemma pb_changes_fail [simp]: "pb_changes (pb_fail p m) = pb_changes p"
  by (simp add: pb_fail_def)

lemma pb_error_fail: "pb_error (pb_fail p m) = (case pb_error p of None \<Rightarrow> Some m | e \<Rightarrow> e)"
  by (auto simp: pb_fail_def split: option.splits)

lemma pb_fail_fields: "pb_fail p m = p\<lparr>pb_error := pb_error (pb_fail p m)\<rparr>"
  by (cases p) (auto simp: pb_fail_def)

text \<open>A command that deletes, of an interface, at a metric other than the one given.\<close>

definition stale_del :: "rstr \<Rightarrow> int \<Rightarrow> rstr list \<Rightarrow> bool" where
  "stale_del iface metric args \<longleftrightarrow> (\<exists>m gw. m \<noteq> metric \<and> args = del_args iface m gw)"

lemma del_stale_log:
  "\<exists>ds. is_log (snd (del_stale env rp iface metric rs ps)) = is_log (snd ps) @ ds \<and>
     (\<forall>d \<in> set ds. stale_del iface metric (fst d))"
proof (induction rs arbitrary: ps)
  case (Cons r rs)
  show ?case
  proof (cases "route_metric r = metric")
    case True
    then show ?thesis using Cons [of ps] by simp
  next
    case False
    let ?a = "del_args iface (route_metric r) (ir_gateway r)"
    obtain e s' where run: "run_ip env rp ?a (snd ps) = (e, s')" by (cases "run_ip env rp ?a (snd ps)")
    then have log: "is_log s' = is_log (snd ps) @ [(?a, is_world s')]"
      using is_log_run_ip [of env rp ?a "snd ps"] by simp
    have st: "stale_del iface metric ?a" using False by (auto simp: stale_del_def)
    from Cons [of "(case e of Some m \<Rightarrow> pb_fail (fst ps) m | None \<Rightarrow> fst ps, s')"] obtain ds where
      ds: "is_log (snd (del_stale env rp iface metric (r # rs) ps)) = is_log s' @ ds"
      "\<forall>d \<in> set ds. stale_del iface metric (fst d)"
      using False run by (auto split: option.splits)
    show ?thesis
      by (rule exI [of _ "(?a, is_world s') # ds"]) (use ds log st in auto)
  qed
qed simp

lemma del_stale_changes [simp]:
  "pb_changes (fst (del_stale env rp iface metric rs ps)) = pb_changes (fst ps)"
  by (induction rs arbitrary: ps) (auto split: prod.splits option.splits)

text \<open>
  The commands of one interface: a read; then nothing, or a failed replace, or a
  successful one, which is recorded, and the deletions of the other metrics.
\<close>

inductive repri_trace :: "rstr \<Rightarrow> int \<Rightarrow> rstr list list \<Rightarrow> route_change list \<Rightarrow> bool"
  for iface metric where
  read_only: "repri_trace iface metric [show_args iface] []"
| replace_failed: "repri_trace iface metric [show_args iface, replace_args iface metric gw] []"
| moved: "\<forall>d \<in> set ds. stale_del iface metric d \<Longrightarrow>
    repri_trace iface metric (show_args iface # replace_args iface metric gw # ds)
      [\<lparr>rc_interface = iface, rc_from_metric = m, rc_to_metric = metric\<rparr>]"

lemma reprioritize_trace:
  "\<exists>ws ch. is_log (snd (reprioritize env rp iface metric h ps)) = is_log (snd ps) @ ws \<and>
     pb_changes (fst (reprioritize env rp iface metric h ps)) = pb_changes (fst ps) @ ch \<and>
     repri_trace iface metric (map fst ws) ch"
proof -
  let ?r = "reprioritize env rp iface metric h ps"
  obtain v s1 where sh: "show_default env rp iface (snd ps) = (v, s1)"
    by (cases "show_default env rp iface (snd ps)")
  have l1: "is_log s1 = is_log (snd ps) @ [(show_args iface, is_world s1)]"
    using is_log_show [of env rp iface "snd ps"] sh by simp
  have none: ?thesis if "is_log (snd ?r) = is_log s1" "pb_changes (fst ?r) = pb_changes (fst ps)"
    by (rule exI [of _ "[(show_args iface, is_world s1)]"], rule exI [of _ "[]"])
      (use that l1 in \<open>simp add: repri_trace.read_only\<close>)
  show ?thesis
  proof (cases v)
    case (Inl e)
    then show ?thesis by (intro none) (simp_all add: reprioritize_def sh)
  next
    case (Inr ex)
    show ?thesis
    proof (cases "min_by_metric ex")
      case None
      then show ?thesis using Inr by (intro none) (simp_all add: reprioritize_def sh)
    next
      case (Some c)
      show ?thesis
      proof (cases "length ex = 1 \<and> route_metric c = metric")
        case True
        then show ?thesis using Inr Some by (intro none) (simp_all add: reprioritize_def sh)
      next
        case False
        let ?a = "replace_args iface metric (ir_gateway c)"
        obtain e s2 where run: "run_ip env rp ?a s1 = (e, s2)" by (cases "run_ip env rp ?a s1")
        have l2: "is_log s2 = is_log s1 @ [(?a, is_world s2)]"
          using is_log_run_ip [of env rp ?a s1] run by simp
        show ?thesis
        proof (cases e)
          case (Some m)
          then have "is_log (snd ?r) = is_log s2" "pb_changes (fst ?r) = pb_changes (fst ps)"
            using Inr \<open>min_by_metric ex = Some c\<close> False run sh by (auto simp: reprioritize_def)
          then show ?thesis
            by (intro exI [of _ "[(show_args iface, is_world s1), (?a, is_world s2)]"] exI [of _ "[]"])
              (simp add: l1 l2 repri_trace.replace_failed)
        next
          case None
          let ?ch = "\<lparr>rc_interface = iface, rc_from_metric = route_metric c, rc_to_metric = metric\<rparr>"
          let ?ps = "((fst ps)\<lparr>pb_changes := pb_changes (fst ps) @ [?ch]\<rparr>, s2)"
          have r: "?r = del_stale env rp iface metric ex ?ps"
            using Inr \<open>min_by_metric ex = Some c\<close> False run sh None by (auto simp: reprioritize_def)
          obtain ds where ds: "is_log (snd ?r) = is_log s2 @ ds"
            "\<forall>d \<in> set ds. stale_del iface metric (fst d)"
            using del_stale_log [of env rp iface metric ex ?ps] r by auto
          have "repri_trace iface metric (show_args iface # ?a # map fst ds) [?ch]"
            by (rule repri_trace.moved) (use ds(2) in auto)
          moreover have "pb_changes (fst ?r) = pb_changes (fst ps) @ [?ch]" by (simp add: r)
          ultimately show ?thesis
            by (intro exI [of _ "(show_args iface, is_world s1) # (?a, is_world s2) # ds"]
                exI [of _ "[?ch]"]) (simp add: l1 l2 ds(1))
        qed
      qed
    qed
  qed
qed


text \<open>The commands of a whole \<open>apply\<close>: one trace per ranked interface, in rank order.\<close>

inductive apply_trace ::
  "int \<Rightarrow> int \<Rightarrow> nat \<Rightarrow> ranked_interface list \<Rightarrow> rstr list list \<Rightarrow> route_change list \<Rightarrow> bool"
  for base step where
  none_left: "apply_trace base step i [] [] []"
| next_one: "repri_trace (ri_interface c) (target_metric base step i) ws ch \<Longrightarrow>
    apply_trace base step (Suc i) cs ws' ch' \<Longrightarrow>
    apply_trace base step i (c # cs) (ws @ ws') (ch @ ch')"

inductive_cases apply_trace_ConsE: "apply_trace base step i (c # cs) ws ch"

lemma apply_from_trace:
  "\<exists>ws ch. is_log (snd (apply_from env rp base step i cs ps)) = is_log (snd ps) @ ws \<and>
     pb_changes (fst (apply_from env rp base step i cs ps)) = pb_changes (fst ps) @ ch \<and>
     apply_trace base step i cs (map fst ws) ch"
proof (induction cs arbitrary: i ps)
  case Nil
  show ?case by (rule exI [of _ "[]"], rule exI [of _ "[]"]) (simp add: apply_trace.none_left)
next
  case (Cons c cs)
  let ?q = "reprioritize env rp (ri_interface c) (target_metric base step i) (ri_healthy c) ps"
  obtain ws ch where one: "is_log (snd ?q) = is_log (snd ps) @ ws"
    "pb_changes (fst ?q) = pb_changes (fst ps) @ ch"
    "repri_trace (ri_interface c) (target_metric base step i) (map fst ws) ch"
    using reprioritize_trace by blast
  obtain ws' ch' where rest:
    "is_log (snd (apply_from env rp base step (Suc i) cs ?q)) = is_log (snd ?q) @ ws'"
    "pb_changes (fst (apply_from env rp base step (Suc i) cs ?q)) = pb_changes (fst ?q) @ ch'"
    "apply_trace base step (Suc i) cs (map fst ws') ch'"
    using Cons.IH by blast
  show ?case
    by (rule exI [of _ "ws @ ws'"], rule exI [of _ "ch @ ch'"])
      (use one rest apply_trace.next_one [OF one(3) rest(3)] in simp)
qed

section \<open>The contract of \<open>ip\<close>\<close>

text \<open>
  The kernel's default routes, as the part of the world the commands act on.  \<open>tbl\<close> reads
  them off the world.  What the code relies on:
  \<open>show\<close> lists the default routes of the interface and changes nothing;
  \<open>replace\<close> at a metric that no other interface's default has leaves the table with the
  given route in place of what that interface had at the metric;
  \<open>del\<close> of a route that is there removes it.
  Nothing is said of a \<open>replace\<close> at a metric another interface's default occupies: the
  route's identity is its destination and metric, so there the kernel may take that route.
\<close>

record kroute =
  kr_dev :: rstr
  kr_gateway :: "rstr option"
  kr_metric :: int

definition on_dev :: "rstr \<Rightarrow> kroute set \<Rightarrow> (rstr option \<times> int) set" where
  "on_dev d T = {(kr_gateway r, kr_metric r) | r. r \<in> T \<and> kr_dev r = d}"

definition route_key :: "ip_route \<Rightarrow> rstr option \<times> int" where
  "route_key r = (ir_gateway r, route_metric r)"

definition ok_output :: "(rstr + bounded_output) \<Rightarrow> bool" where
  "ok_output v \<longleftrightarrow> (case v of Inr out \<Rightarrow> es_success (bo_status out) \<and> \<not> bo_timed_out out | Inl _ \<Rightarrow> False)"

definition shows_routes :: "'w ip_env \<Rightarrow> (rstr + bounded_output) \<Rightarrow> (rstr option \<times> int) set \<Rightarrow> bool" where
  "shows_routes env v R \<longleftrightarrow>
     (case v of
        Inl _ \<Rightarrow> False
      | Inr out \<Rightarrow>
          (let txt = trim (from_utf8_lossy (bo_stdout out)) in
           if txt = [] then R = {}
           else (case ie_parse env txt of
                   Inr rs \<Rightarrow> distinct (map route_key rs) \<and> set (map route_key rs) = R
                 | Inl _ \<Rightarrow> False)))"

definition exec_ip :: "'w ip_env \<Rightarrow> route_publisher \<Rightarrow> rstr list \<Rightarrow> 'w \<Rightarrow> (rstr + bounded_output) \<times> 'w" where
  "exec_ip env rp args w = ie_exec env (ip_name rp) args (rp_command_timeout rp) w"

definition show_contract :: "'w ip_env \<Rightarrow> route_publisher \<Rightarrow> ('w \<Rightarrow> kroute set) \<Rightarrow> bool" where
  "show_contract env rp tbl \<longleftrightarrow>
     (\<forall>w d. ok_output (fst (exec_ip env rp (show_args d) w)) \<and>
        shows_routes env (fst (exec_ip env rp (show_args d) w)) (on_dev d (tbl w)) \<and>
        snd (exec_ip env rp (show_args d) w) = w)"

definition replace_contract :: "'w ip_env \<Rightarrow> route_publisher \<Rightarrow> ('w \<Rightarrow> kroute set) \<Rightarrow> bool" where
  "replace_contract env rp tbl \<longleftrightarrow>
     (\<forall>w d gw m. (\<forall>r \<in> tbl w. kr_metric r = m \<longrightarrow> kr_dev r = d) \<longrightarrow>
        ok_output (fst (exec_ip env rp (replace_args d m gw) w)) \<and>
        tbl (snd (exec_ip env rp (replace_args d m gw) w)) =
          {r \<in> tbl w. \<not> (kr_dev r = d \<and> kr_metric r = m)} \<union>
          {\<lparr>kr_dev = d, kr_gateway = gw, kr_metric = m\<rparr>})"

definition del_contract :: "'w ip_env \<Rightarrow> route_publisher \<Rightarrow> ('w \<Rightarrow> kroute set) \<Rightarrow> bool" where
  "del_contract env rp tbl \<longleftrightarrow>
     (\<forall>w d gw m. \<lparr>kr_dev = d, kr_gateway = gw, kr_metric = m\<rparr> \<in> tbl w \<longrightarrow>
        ok_output (fst (exec_ip env rp (del_args d m gw) w)) \<and>
        tbl (snd (exec_ip env rp (del_args d m gw) w)) =
          tbl w - {\<lparr>kr_dev = d, kr_gateway = gw, kr_metric = m\<rparr>})"

definition ip_contract :: "'w ip_env \<Rightarrow> route_publisher \<Rightarrow> ('w \<Rightarrow> kroute set) \<Rightarrow> bool" where
  "ip_contract env rp tbl \<longleftrightarrow>
     show_contract env rp tbl \<and> replace_contract env rp tbl \<and> del_contract env rp tbl"

text \<open>On one interface, a metric names one default route.\<close>

definition metrics_unique :: "kroute set \<Rightarrow> bool" where
  "metrics_unique T \<longleftrightarrow>
     (\<forall>r \<in> T. \<forall>r' \<in> T. kr_dev r = kr_dev r' \<and> kr_metric r = kr_metric r' \<longrightarrow> r = r')"

text \<open>
  What \<open>reprioritize\<close> is to achieve on the table, as a function of it: the interface's
  default with the least metric moves to the target metric, its other defaults go.
\<close>

definition moved_table :: "rstr \<Rightarrow> int \<Rightarrow> kroute set \<Rightarrow> kroute set" where
  "moved_table d m T =
     {r \<in> T. kr_dev r \<noteq> d} \<union>
     {\<lparr>kr_dev = d, kr_gateway = kr_gateway r, kr_metric = m\<rparr> | r.
        r \<in> T \<and> kr_dev r = d \<and> (\<forall>r' \<in> T. kr_dev r' = d \<longrightarrow> kr_metric r \<le> kr_metric r')}"

lemma on_dev_iff: "(g, m) \<in> on_dev d T \<longleftrightarrow> \<lparr>kr_dev = d, kr_gateway = g, kr_metric = m\<rparr> \<in> T"
proof
  assume "(g, m) \<in> on_dev d T"
  then obtain r where "r \<in> T" "kr_dev r = d" "g = kr_gateway r" "m = kr_metric r"
    by (auto simp: on_dev_def)
  then show "\<lparr>kr_dev = d, kr_gateway = g, kr_metric = m\<rparr> \<in> T" by (cases r) simp
next
  assume "\<lparr>kr_dev = d, kr_gateway = g, kr_metric = m\<rparr> \<in> T"
  then show "(g, m) \<in> on_dev d T" unfolding on_dev_def by force
qed

lemma kroute_eta: "kr_dev r = d \<Longrightarrow> r = \<lparr>kr_dev = d, kr_gateway = kr_gateway r, kr_metric = kr_metric r\<rparr>"
  by (cases r) simp

lemma min_by_metric_None: "min_by_metric rs = None \<longleftrightarrow> rs = []"
  by (cases rs) (auto split: option.splits)

lemma min_by_metric_Some:
  "min_by_metric rs = Some c \<Longrightarrow> c \<in> set rs \<and> (\<forall>r \<in> set rs. route_metric c \<le> route_metric r)"
proof (induction rs arbitrary: c)
  case (Cons r rs)
  then show ?case
    by (cases "min_by_metric rs") (fastforce simp: min_by_metric_None split: if_splits)+
qed simp

lemma contract_show:
  assumes "ip_contract env rp tbl" and sh: "show_default env rp d s = (v, s')"
  obtains rs where "v = Inr rs" "is_world s' = is_world s" "distinct (map route_key rs)"
    "set (map route_key rs) = on_dev d (tbl (is_world s))"
proof -
  let ?r = "exec_ip env rp (show_args d) (is_world s)"
  have c: "ok_output (fst ?r)" "shows_routes env (fst ?r) (on_dev d (tbl (is_world s)))"
    "snd ?r = is_world s"
    using assms(1) by (simp_all add: ip_contract_def show_contract_def)
  obtain out where o: "fst ?r = Inr out" "es_success (bo_status out)" "\<not> bo_timed_out out"
    using c(1) unfolding ok_output_def by (cases "fst ?r") simp_all
  have out: "ie_exec env (ip_name rp) (show_args d) (rp_command_timeout rp) (is_world s) =
      (Inr out, is_world s)"
    using o(1) c(3) by (simp add: prod_eq_iff exec_ip_def)
  let ?txt = "trim (from_utf8_lossy (bo_stdout out))"
  have sh': "v = (if ?txt = [] then Inr [] else (case ie_parse env ?txt of Inr rs \<Rightarrow> Inr rs
      | Inl e \<Rightarrow> Inl (lit ''ip '' @ join [SP] (show_args d) @ lit '': unparseable JSON ('' @
                          e @ lit '') -- does this iproute2 support -j?'')))"
    "is_world s' = is_world s"
    using sh out o by (auto simp: show_default_def command_def Let_def split: sum.splits if_splits)
  show ?thesis
  proof (cases "?txt = []")
    case True
    with c(2) o(1) sh' show ?thesis by (intro that [of "[]"]) (auto simp: shows_routes_def)
  next
    case False
    with c(2) o(1) obtain rs where "ie_parse env ?txt = Inr rs" "distinct (map route_key rs)"
      "set (map route_key rs) = on_dev d (tbl (is_world s))"
      by (auto simp: shows_routes_def Let_def split: sum.splits)
    with False sh' show ?thesis by (intro that [of rs]) auto
  qed
qed

lemma contract_run:
  assumes "ok_output (fst (exec_ip env rp args (is_world s)))" and "run_ip env rp args s = (e, s')"
  shows "e = None \<and> is_world s' = snd (exec_ip env rp args (is_world s))"
  using assms
  by (auto simp: run_ip_def command_def ok_output_def exec_ip_def Let_def
      split: prod.splits sum.splits if_splits)

lemma contract_replace:
  assumes "ip_contract env rp tbl" and "\<forall>r \<in> tbl (is_world s). kr_metric r = m \<longrightarrow> kr_dev r = d"
    and "run_ip env rp (replace_args d m gw) s = (e, s')"
  shows "e = None \<and> tbl (is_world s') =
    {r \<in> tbl (is_world s). \<not> (kr_dev r = d \<and> kr_metric r = m)} \<union>
    {\<lparr>kr_dev = d, kr_gateway = gw, kr_metric = m\<rparr>}"
  using assms(1,2) contract_run [OF _ assms(3)]
  unfolding ip_contract_def replace_contract_def by presburger

lemma contract_del:
  assumes "ip_contract env rp tbl" and "\<lparr>kr_dev = d, kr_gateway = gw, kr_metric = m\<rparr> \<in> tbl (is_world s)"
    and "run_ip env rp (del_args d m gw) s = (e, s')"
  shows "e = None \<and> tbl (is_world s') =
    tbl (is_world s) - {\<lparr>kr_dev = d, kr_gateway = gw, kr_metric = m\<rparr>}"
  using assms(1,2) contract_run [OF _ assms(3)]
  unfolding ip_contract_def del_contract_def by presburger


section \<open>The table, under the contract\<close>

definition has_default :: "rstr \<Rightarrow> kroute set \<Rightarrow> bool" where
  "has_default d T \<longleftrightarrow> (\<exists>r \<in> T. kr_dev r = d)"

definition metric_free :: "rstr \<Rightarrow> int \<Rightarrow> kroute set \<Rightarrow> bool" where
  "metric_free d m T \<longleftrightarrow> (\<forall>r \<in> T. kr_metric r = m \<longrightarrow> kr_dev r = d)"

text \<open>The stale routes of an interface: those the deletions take away.\<close>

definition stale_of :: "rstr \<Rightarrow> int \<Rightarrow> ip_route list \<Rightarrow> kroute set" where
  "stale_of d m rs = {\<lparr>kr_dev = d, kr_gateway = ir_gateway r, kr_metric = route_metric r\<rparr> | r.
     r \<in> set rs \<and> route_metric r \<noteq> m}"

lemma stale_of_simps [simp]:
  "stale_of d m [] = {}"
  "stale_of d m (r # rs) = (if route_metric r = m then stale_of d m rs else
     insert \<lparr>kr_dev = d, kr_gateway = ir_gateway r, kr_metric = route_metric r\<rparr> (stale_of d m rs))"
  by (auto simp: stale_of_def)

lemma del_stale_contract:
  assumes "ip_contract env rp tbl" and "distinct (map route_key rs)"
    and "stale_of d m rs \<subseteq> tbl (is_world (snd ps))"
  shows "fst (del_stale env rp d m rs ps) = fst ps \<and>
    tbl (is_world (snd (del_stale env rp d m rs ps))) = tbl (is_world (snd ps)) - stale_of d m rs \<and>
    (\<exists>ds. is_log (snd (del_stale env rp d m rs ps)) = is_log (snd ps) @ ds \<and>
       (\<forall>x \<in> set ds. tbl (is_world (snd ps)) - stale_of d m rs \<subseteq> tbl (snd x)))"
  using assms(2,3)
proof (induction rs arbitrary: ps)
  case (Cons r rs)
  show ?case
  proof (cases "route_metric r = m")
    case True
    with Cons show ?thesis by simp
  next
    case False
    let ?k = "\<lparr>kr_dev = d, kr_gateway = ir_gateway r, kr_metric = route_metric r\<rparr>"
    let ?a = "del_args d (route_metric r) (ir_gateway r)"
    obtain e s' where run: "run_ip env rp ?a (snd ps) = (e, s')" by (cases "run_ip env rp ?a (snd ps)")
    have "?k \<in> tbl (is_world (snd ps))" using Cons.prems(2) False by simp
    from contract_del [OF assms(1) this run]
    have e: "e = None" and t: "tbl (is_world s') = tbl (is_world (snd ps)) - {?k}" by auto
    have log: "is_log s' = is_log (snd ps) @ [(?a, is_world s')]"
      using is_log_run_ip [of env rp ?a "snd ps"] run by simp
    have "?k \<notin> stale_of d m rs" using Cons.prems(1) by (auto simp: stale_of_def route_key_def image_iff)
    then have sub: "stale_of d m rs \<subseteq> tbl (is_world (snd (fst ps, s')))"
      using Cons.prems(2) False t by auto
    have step: "del_stale env rp d m (r # rs) ps = del_stale env rp d m rs (fst ps, s')"
      using False run e by simp
    have dist: "distinct (map route_key rs)" using Cons.prems(1) by simp
    from Cons.IH [OF dist sub] obtain ds where IH:
      "fst (del_stale env rp d m rs (fst ps, s')) = fst ps"
      "tbl (is_world (snd (del_stale env rp d m rs (fst ps, s')))) = tbl (is_world s') - stale_of d m rs"
      "is_log (snd (del_stale env rp d m rs (fst ps, s'))) = is_log s' @ ds"
      "\<forall>x \<in> set ds. tbl (is_world s') - stale_of d m rs \<subseteq> tbl (snd x)" by auto
    have st: "stale_of d m (r # rs) = insert ?k (stale_of d m rs)" using False by simp
    have T: "tbl (is_world s') - stale_of d m rs = tbl (is_world (snd ps)) - stale_of d m (r # rs)"
      unfolding st t by auto
    show ?thesis
    proof (intro conjI exI ballI)
      show "fst (del_stale env rp d m (r # rs) ps) = fst ps" using step IH(1) by simp
      show "tbl (is_world (snd (del_stale env rp d m (r # rs) ps))) =
          tbl (is_world (snd ps)) - stale_of d m (r # rs)" using step IH(2) T by simp
      show "is_log (snd (del_stale env rp d m (r # rs) ps)) =
          is_log (snd ps) @ ((?a, is_world s') # ds)" using step IH(3) log by simp
      fix x assume "x \<in> set ((?a, is_world s') # ds)"
      then have "x = (?a, is_world s') \<or> x \<in> set ds" by simp
      then show "tbl (is_world (snd ps)) - stale_of d m (r # rs) \<subseteq> tbl (snd x)"
      proof
        assume "x = (?a, is_world s')"
        then show ?thesis using T by (metis Diff_subset snd_conv)
      qed (use IH(4) in \<open>unfold T, blast\<close>)
    qed
  qed
qed (auto intro: exI [of _ "[]"])

lemma moved_table_chosen:
  assumes "metrics_unique T" and "(g, k) \<in> on_dev d T"
    and "\<And>g' k'. (g', k') \<in> on_dev d T \<Longrightarrow> k \<le> k'"
  shows "moved_table d m T =
    {r \<in> T. kr_dev r \<noteq> d} \<union> {\<lparr>kr_dev = d, kr_gateway = g, kr_metric = m\<rparr>}"
proof -
  let ?c = "\<lparr>kr_dev = d, kr_gateway = g, kr_metric = k\<rparr>"
  have c: "?c \<in> T" using assms(2) by (simp add: on_dev_iff)
  have least: "k \<le> kr_metric r" if "r \<in> T" "kr_dev r = d" for r
    using assms(3) [of "kr_gateway r" "kr_metric r"] that by (auto simp: on_dev_def)
  have only: "r = ?c" if "r \<in> T" "kr_dev r = d" "\<forall>r' \<in> T. kr_dev r' = d \<longrightarrow> kr_metric r \<le> kr_metric r'" for r
  proof -
    have "kr_metric r = k" using that c least [OF that(1,2)] by force
    then show ?thesis using assms(1) that(1,2) c unfolding metrics_unique_def by force
  qed
  show ?thesis
  proof (intro set_eqI iffI)
    fix x assume "x \<in> moved_table d m T"
    then consider "x \<in> T" "kr_dev x \<noteq> d"
      | r where "x = \<lparr>kr_dev = d, kr_gateway = kr_gateway r, kr_metric = m\<rparr>" "r \<in> T" "kr_dev r = d"
          "\<forall>r' \<in> T. kr_dev r' = d \<longrightarrow> kr_metric r \<le> kr_metric r'"
      unfolding moved_table_def by blast
    then show "x \<in> {r \<in> T. kr_dev r \<noteq> d} \<union> {\<lparr>kr_dev = d, kr_gateway = g, kr_metric = m\<rparr>}"
    proof cases
      case (2 r)
      from only [OF 2(2-4)] show ?thesis by (simp add: 2(1))
    qed simp
  next
    fix x assume "x \<in> {r \<in> T. kr_dev r \<noteq> d} \<union> {\<lparr>kr_dev = d, kr_gateway = g, kr_metric = m\<rparr>}"
    then consider "x \<in> T" "kr_dev x \<noteq> d"
      | "x = \<lparr>kr_dev = d, kr_gateway = kr_gateway ?c, kr_metric = m\<rparr>" by auto
    then show "x \<in> moved_table d m T"
    proof cases
      case 2
      moreover have "\<forall>r' \<in> T. kr_dev r' = d \<longrightarrow> kr_metric ?c \<le> kr_metric r'" using least by simp
      ultimately show ?thesis unfolding moved_table_def using c by (intro UnI2 CollectI exI [of _ ?c]) simp
    qed (simp add: moved_table_def)
  qed
qed

lemma moved_table_none: "\<not> has_default d T \<Longrightarrow> moved_table d m T = T"
  by (auto simp: moved_table_def has_default_def)

lemma on_dev_empty: "on_dev d T = {} \<longleftrightarrow> \<not> has_default d T"
  by (auto simp: on_dev_def has_default_def)


text \<open>Every world in a piece of log keeps a default on each interface that had one in \<open>T\<close>.\<close>

definition log_keeps :: "('w \<Rightarrow> kroute set) \<Rightarrow> kroute set \<Rightarrow> (rstr list \<times> 'w) list \<Rightarrow> bool" where
  "log_keeps tbl T ws \<longleftrightarrow> (\<forall>x \<in> set ws. \<forall>d. has_default d T \<longrightarrow> has_default d (tbl (snd x)))"

lemma log_keeps_simps [simp]:
  "log_keeps tbl T []"
  "log_keeps tbl T (x # ws) \<longleftrightarrow>
     (\<forall>d. has_default d T \<longrightarrow> has_default d (tbl (snd x))) \<and> log_keeps tbl T ws"
  "log_keeps tbl T (ws @ ws') \<longleftrightarrow> log_keeps tbl T ws \<and> log_keeps tbl T ws'"
  by (auto simp: log_keeps_def)

definition reads_only :: "(rstr list \<times> 'w) list \<Rightarrow> bool" where
  "reads_only ws \<longleftrightarrow> (\<forall>x \<in> set ws. hd (fst x) = lit ''-j'')"

lemma reads_only_simps [simp]:
  "reads_only []"
  "reads_only (x # ws) \<longleftrightarrow> hd (fst x) = lit ''-j'' \<and> reads_only ws"
  "reads_only (ws @ ws') \<longleftrightarrow> reads_only ws \<and> reads_only ws'"
  by (auto simp: reads_only_def)

lemma hd_args [simp]:
  "hd (show_args d) = lit ''-j''" "hd (replace_args d m gw) = lit ''route''"
  by (simp_all add: show_args_def replace_args_def)

lemma reads_only_shows: "map fst ws = map (show_args \<circ> f) cs \<Longrightarrow> reads_only ws"
  by (induction ws arbitrary: cs) (auto simp: Cons_eq_map_conv)

lemma log_keeps_trans:
  "log_keeps tbl T' ws \<Longrightarrow> (\<And>d. has_default d T \<Longrightarrow> has_default d T') \<Longrightarrow> log_keeps tbl T ws"
  by (auto simp: log_keeps_def)

lemma log_keeps_superset:
  "\<forall>x \<in> set ws. T' \<subseteq> tbl (snd x) \<Longrightarrow> (\<And>d. has_default d T \<Longrightarrow> has_default d T') \<Longrightarrow> log_keeps tbl T ws"
  by (fastforce simp: log_keeps_def has_default_def)

lemma has_default_moved: "metrics_unique T \<Longrightarrow> (g, k) \<in> on_dev d T \<Longrightarrow>
    (\<And>g' k'. (g', k') \<in> on_dev d T \<Longrightarrow> k \<le> k') \<Longrightarrow>
    has_default d' (moved_table d m T) = has_default d' T"
  by (subst moved_table_chosen [where g = g and k = k]) (auto simp: has_default_def on_dev_def)

lemma moved_table_settled:
  assumes "on_dev d T = {(g, m)}"
  shows "moved_table d m T = T"
proof -
  have one: "\<lparr>kr_dev = d, kr_gateway = g, kr_metric = m\<rparr> \<in> T"
    using assms by (simp flip: on_dev_iff)
  have only: "kr_gateway r = g \<and> kr_metric r = m" if "r \<in> T" "kr_dev r = d" for r
    using assms that by (auto simp: on_dev_def)
  then have "metrics_unique {r \<in> T. kr_dev r = d}"
    by (auto simp: metrics_unique_def) 
  show ?thesis
  proof (intro set_eqI iffI)
    fix x assume "x \<in> moved_table d m T"
    then show "x \<in> T" using one only by (auto simp: moved_table_def)
  next
    fix x assume x: "x \<in> T"
    show "x \<in> moved_table d m T"
    proof (cases "kr_dev x = d")
      case True
      with only [OF x] have "x = \<lparr>kr_dev = d, kr_gateway = kr_gateway x, kr_metric = m\<rparr>" by (cases x) auto
      moreover have "\<forall>r' \<in> T. kr_dev r' = d \<longrightarrow> kr_metric x \<le> kr_metric r'"
        using only [OF x True] only by force
      ultimately show ?thesis using x True unfolding moved_table_def by blast
    qed (simp add: moved_table_def x)
  qed
qed

lemma reprioritize_contract:
  assumes con: "ip_contract env rp tbl" and uniq: "metrics_unique (tbl (is_world (snd ps)))"
    and free: "metric_free d m (tbl (is_world (snd ps)))"
    and res: "reprioritize env rp d m h ps = (p', s')"
  shows "tbl (is_world s') = moved_table d m (tbl (is_world (snd ps))) \<and>
    pb_error p' = (if h \<and> \<not> has_default d (tbl (is_world (snd ps)))
       then pb_error (pb_fail (fst ps) (no_route_error d)) else pb_error (fst ps)) \<and>
    (\<exists>ws. is_log s' = is_log (snd ps) @ ws \<and> log_keeps tbl (tbl (is_world (snd ps))) ws \<and>
       (if on_dev d (tbl (is_world (snd ps))) = {} \<or> (\<exists>g. on_dev d (tbl (is_world (snd ps))) = {(g, m)})
        then is_world s' = is_world (snd ps) \<and> map fst ws = [show_args d]
        else \<not> reads_only ws)) \<and>
    (\<forall>d'. has_default d' (tbl (is_world s')) = has_default d' (tbl (is_world (snd ps))))"
proof -
  let ?T = "tbl (is_world (snd ps))"
  obtain v s1 where sh: "show_default env rp d (snd ps) = (v, s1)"
    by (cases "show_default env rp d (snd ps)")
  then obtain rs where rs: "v = Inr rs" "is_world s1 = is_world (snd ps)"
    "distinct (map route_key rs)" "set (map route_key rs) = on_dev d ?T"
    by (rule contract_show [OF con])
  have l1: "is_log s1 = is_log (snd ps) @ [(show_args d, is_world s1)]"
    using is_log_show [of env rp d "snd ps"] sh by simp
  show ?thesis
  proof (cases "min_by_metric rs")
    case None
    then have "on_dev d ?T = {}" using rs(4) by (auto simp: min_by_metric_None)
    then show ?thesis
      using res None rs(1,2) sh l1
      by (auto simp: reprioritize_def on_dev_empty moved_table_none split: if_splits)
  next
    case (Some c)
    let ?g = "ir_gateway c" and ?k = "route_metric c"
    from min_by_metric_Some [OF Some] have cin: "c \<in> set rs"
      and cle: "\<forall>r \<in> set rs. ?k \<le> route_metric r" by auto
    have con_c: "(?g, ?k) \<in> on_dev d ?T"
      using cin unfolding rs(4) [symmetric] by (auto simp: route_key_def)
    have least: "?k \<le> k'" if "(g', k') \<in> on_dev d ?T" for g' k'
      using that cle unfolding rs(4) [symmetric] by (auto simp: route_key_def)
    have mt: "moved_table d m ?T = {r \<in> ?T. kr_dev r \<noteq> d} \<union>
        {\<lparr>kr_dev = d, kr_gateway = ?g, kr_metric = m\<rparr>}"
      by (rule moved_table_chosen [OF uniq con_c]) (rule least)
    have hd: "has_default d' (moved_table d m ?T) = has_default d' ?T" for d'
      by (rule has_default_moved [OF uniq con_c]) (rule least)
    have has: "has_default d ?T" using con_c on_dev_empty [of d ?T] by auto
    show ?thesis
    proof (cases "length rs = 1 \<and> ?k = m")
      case True
      then have "rs = [c]" using cin by (cases rs) auto
      then have "on_dev d ?T = {(?g, m)}" using rs(4) True by (simp add: route_key_def)
      then show ?thesis
        using res Some rs(1,2) sh True l1 has moved_table_settled [of d ?T ?g m]
        by (auto simp: reprioritize_def)
    next
      case False
      let ?a = "replace_args d m ?g"
      let ?new = "\<lparr>kr_dev = d, kr_gateway = ?g, kr_metric = m\<rparr>"
      obtain e s2 where run: "run_ip env rp ?a s1 = (e, s2)" by (cases "run_ip env rp ?a s1")
      have "\<forall>r \<in> tbl (is_world s1). kr_metric r = m \<longrightarrow> kr_dev r = d"
        using free rs(2) by (simp add: metric_free_def)
      from contract_replace [OF con this run] have e: "e = None"
        and t2: "tbl (is_world s2) = {r \<in> ?T. \<not> (kr_dev r = d \<and> kr_metric r = m)} \<union> {?new}"
        using rs(2) by auto
      have l2: "is_log s2 = is_log s1 @ [(?a, is_world s2)]"
        using is_log_run_ip [of env rp ?a s1] run by simp
      let ?ps = "((fst ps)\<lparr>pb_changes := pb_changes (fst ps) @
          [\<lparr>rc_interface = d, rc_from_metric = ?k, rc_to_metric = m\<rparr>]\<rparr>, s2)"
      have r: "del_stale env rp d m rs ?ps = (p', s')"
        using res sh rs(1) Some False run e by (auto simp: reprioritize_def)
      have stale: "stale_of d m rs = {r \<in> ?T. kr_dev r = d \<and> kr_metric r \<noteq> m}"
      proof (intro set_eqI iffI)
        fix x assume "x \<in> stale_of d m rs"
        then obtain r where "r \<in> set rs" "route_metric r \<noteq> m"
          and x: "x = \<lparr>kr_dev = d, kr_gateway = ir_gateway r, kr_metric = route_metric r\<rparr>"
          by (auto simp: stale_of_def)
        then have "(ir_gateway r, route_metric r) \<in> on_dev d ?T"
          unfolding rs(4) [symmetric] by (auto simp: route_key_def)
        then show "x \<in> {r \<in> ?T. kr_dev r = d \<and> kr_metric r \<noteq> m}"
          using \<open>route_metric r \<noteq> m\<close> by (simp add: x on_dev_iff)
      next
        fix x assume x: "x \<in> {r \<in> ?T. kr_dev r = d \<and> kr_metric r \<noteq> m}"
        then have "(kr_gateway x, kr_metric x) \<in> set (map route_key rs)"
          unfolding rs(4) by (auto simp: on_dev_def)
        then obtain r where "r \<in> set rs" "kr_gateway x = ir_gateway r" "kr_metric x = route_metric r"
          by (auto simp: route_key_def)
        then show "x \<in> stale_of d m rs" using x by (cases x) (auto simp: stale_of_def)
      qed
      have "stale_of d m rs \<subseteq> tbl (is_world (snd ?ps))" unfolding stale snd_conv t2 by auto
      from del_stale_contract [OF con rs(3) this] obtain ds where D:
        "p' = fst ?ps" "tbl (is_world s') = tbl (is_world s2) - stale_of d m rs"
        "is_log s' = is_log s2 @ ds" "\<forall>x \<in> set ds. tbl (is_world s') \<subseteq> tbl (snd x)"
        using r by auto
      have fin: "tbl (is_world s') = moved_table d m ?T"
        unfolding D(2) t2 stale mt by auto
      have keep: "log_keeps tbl ?T ((show_args d, is_world s1) # (?a, is_world s2) # ds)"
      proof -
        have "has_default d' (tbl (is_world s2))" if "has_default d' ?T" for d'
          using that unfolding t2 has_default_def by force
        moreover have "log_keeps tbl ?T ds"
          by (rule log_keeps_superset [OF D(4)]) (simp add: fin hd)
        ultimately show ?thesis using rs(2) by simp
      qed
      have not1: "\<not> (on_dev d ?T = {} \<or> (\<exists>g. on_dev d ?T = {(g, m)}))"
      proof
        assume "on_dev d ?T = {} \<or> (\<exists>g. on_dev d ?T = {(g, m)})"
        then obtain g where g: "on_dev d ?T = {(g, m)}" using con_c by auto
        then have "?k = m" using con_c by auto
        moreover have "card (set (map route_key rs)) = 1" using g rs(4) by simp
        then have "length rs = 1" using distinct_card [OF rs(3)] by simp
        ultimately show False using False by simp
      qed
      show ?thesis
        using fin has not1 keep D(1,3) l1 l2 hd
        by (auto intro!: exI [of _ "(show_args d, is_world s1) # (?a, is_world s2) # ds"])
    qed
  qed
qed


text \<open>What a ranked interface is to have: its best default, at the target metric.\<close>

definition best_on :: "rstr \<Rightarrow> int \<Rightarrow> kroute set \<Rightarrow> (rstr option \<times> int) set" where
  "best_on d m T =
     {(g, m) | g k. (g, k) \<in> on_dev d T \<and> (\<forall>x \<in> on_dev d T. k \<le> snd x)}"

lemma on_dev_ball: "(\<forall>x \<in> on_dev d T. P x) \<longleftrightarrow>
    (\<forall>r \<in> T. kr_dev r = d \<longrightarrow> P (kr_gateway r, kr_metric r))"
  by (auto simp: on_dev_def)

lemma on_dev_moved: "on_dev d (moved_table d m T) = best_on d m T"
proof (rule set_eqI, clarify)
  fix g m'
  have "(g, m') \<in> on_dev d (moved_table d m T) \<longleftrightarrow> m' = m \<and>
      (\<exists>r \<in> T. kr_dev r = d \<and> kr_gateway r = g \<and> (\<forall>r' \<in> T. kr_dev r' = d \<longrightarrow> kr_metric r \<le> kr_metric r'))"
    by (auto simp: on_dev_iff moved_table_def)
  also have "\<dots> \<longleftrightarrow> m' = m \<and> (\<exists>k. (g, k) \<in> on_dev d T \<and> (\<forall>x \<in> on_dev d T. k \<le> snd x))"
    unfolding on_dev_ball by (auto simp: on_dev_def)
  finally show "(g, m') \<in> on_dev d (moved_table d m T) \<longleftrightarrow> (g, m') \<in> best_on d m T"
    by (simp add: best_on_def)
qed

lemma on_dev_moved_other: "d' \<noteq> d \<Longrightarrow> on_dev d' (moved_table d m T) = on_dev d' T"
proof (rule set_eqI)
  fix x show "d' \<noteq> d \<Longrightarrow> x \<in> on_dev d' (moved_table d m T) \<longleftrightarrow> x \<in> on_dev d' T"
    by (cases x) (auto simp: on_dev_iff moved_table_def)
qed

lemma best_on_cong: "on_dev d T' = on_dev d T \<Longrightarrow> best_on d m T' = best_on d m T"
  by (simp add: best_on_def)

lemma in_moved:
  "r \<in> moved_table d m T \<Longrightarrow> kr_dev r = d \<Longrightarrow>
     \<exists>q \<in> T. kr_dev q = d \<and> (\<forall>x \<in> T. kr_dev x = d \<longrightarrow> kr_metric q \<le> kr_metric x) \<and>
       r = \<lparr>kr_dev = d, kr_gateway = kr_gateway q, kr_metric = m\<rparr>"
  by (auto simp: moved_table_def)

lemma metrics_unique_moved:
  assumes "metrics_unique T"
  shows "metrics_unique (moved_table d m T)"
  unfolding metrics_unique_def
proof (intro ballI impI)
  fix r r' assume in_table: "r \<in> moved_table d m T" "r' \<in> moved_table d m T"
    and same: "kr_dev r = kr_dev r' \<and> kr_metric r = kr_metric r'"
  show "r = r'"
  proof (cases "kr_dev r = d")
    case True
    from in_moved [OF in_table(1) True] obtain q where
      q: "q \<in> T" "kr_dev q = d" "\<forall>x \<in> T. kr_dev x = d \<longrightarrow> kr_metric q \<le> kr_metric x"
      "r = \<lparr>kr_dev = d, kr_gateway = kr_gateway q, kr_metric = m\<rparr>" by blast
    from in_moved [OF in_table(2)] True same obtain q' where
      q': "q' \<in> T" "kr_dev q' = d" "\<forall>x \<in> T. kr_dev x = d \<longrightarrow> kr_metric q' \<le> kr_metric x"
      "r' = \<lparr>kr_dev = d, kr_gateway = kr_gateway q', kr_metric = m\<rparr>" by auto
    have "kr_metric q = kr_metric q'" using q(1,2) q'(1,2) bspec [OF q(3)] bspec [OF q'(3)] by (metis antisym)
    moreover have "\<And>x y. x \<in> T \<Longrightarrow> y \<in> T \<Longrightarrow> kr_dev x = kr_dev y \<Longrightarrow> kr_metric x = kr_metric y \<Longrightarrow> x = y"
      using assms unfolding metrics_unique_def by blast
    ultimately have "q = q'" using q(1,2) q'(1,2) by metis
    then show ?thesis unfolding q(4) q'(4) by (rule arg_cong)
  next
    case False
    with in_table same have "r \<in> T" "r' \<in> T" by (auto simp: moved_table_def)
    with same assms show ?thesis unfolding metrics_unique_def by blast
  qed
qed

lemma metric_free_moved:
  "m' \<noteq> m \<Longrightarrow> metric_free d' m' T \<Longrightarrow> metric_free d' m' (moved_table d m T)"
  by (auto simp: metric_free_def moved_table_def)

lemma has_default_on_dev: "has_default d T \<longleftrightarrow> on_dev d T \<noteq> {}"
  using on_dev_empty [of d T] by simp

text \<open>
  The domain of the contract for a ranking: no interface sits on the metric another one
  is to get, the targets differ, and a metric names one route per interface.
\<close>

definition ranking_fits :: "int \<Rightarrow> int \<Rightarrow> nat \<Rightarrow> rstr list \<Rightarrow> kroute set \<Rightarrow> bool" where
  "ranking_fits base step i ds T \<longleftrightarrow>
     metrics_unique T \<and> distinct ds \<and>
     distinct (map (target_metric base step) [i ..< i + length ds]) \<and>
     (\<forall>j < length ds. metric_free (ds ! j) (target_metric base step (i + j)) T)"

definition at_target :: "int \<Rightarrow> int \<Rightarrow> nat \<Rightarrow> rstr list \<Rightarrow> kroute set \<Rightarrow> bool" where
  "at_target base step i ds T \<longleftrightarrow>
     (\<forall>j < length ds. on_dev (ds ! j) T = {} \<or>
        (\<exists>g. on_dev (ds ! j) T = {(g, target_metric base step (i + j))}))"

lemma ranking_fits_Cons:
  assumes "ranking_fits base step i (d # ds) T"
  shows "metrics_unique T" "metric_free d (target_metric base step i) T" "d \<notin> set ds"
    "ranking_fits base step (Suc i) ds (moved_table d (target_metric base step i) T)"
proof -
  from assms show "metrics_unique T" "d \<notin> set ds" by (auto simp: ranking_fits_def)
  from assms show "metric_free d (target_metric base step i) T"
    unfolding ranking_fits_def by (metis add_0_right length_greater_0_conv list.discI nth_Cons_0)
  have "[i ..< i + length (d # ds)] = i # [Suc i ..< Suc i + length ds]"
    by (simp add: upt_conv_Cons del: upt_Suc)
  then have dist: "target_metric base step i \<notin> set (map (target_metric base step) [Suc i ..< Suc i + length ds])"
    "distinct (map (target_metric base step) [Suc i ..< Suc i + length ds])"
    using assms by (simp_all add: ranking_fits_def del: upt_Suc)
  have "metric_free (ds ! j) (target_metric base step (Suc i + j))
      (moved_table d (target_metric base step i) T)" if "j < length ds" for j
  proof (rule metric_free_moved)
    show "target_metric base step (Suc i + j) \<noteq> target_metric base step i"
    proof
      assume "target_metric base step (Suc i + j) = target_metric base step i"
      moreover have "Suc i + j \<in> set [Suc i ..< Suc i + length ds]" using that by (simp del: upt_Suc)
      ultimately show False using dist(1) by (metis image_eqI set_map)
    qed
    have "\<forall>j < length (d # ds). metric_free ((d # ds) ! j) (target_metric base step (i + j)) T"
      using assms by (simp add: ranking_fits_def)
    from this [rule_format, of "Suc j"] that
    show "metric_free (ds ! j) (target_metric base step (Suc i + j)) T" by simp
  qed
  then show "ranking_fits base step (Suc i) ds (moved_table d (target_metric base step i) T)"
    using assms dist(2) by (simp add: ranking_fits_def metrics_unique_moved)
qed

lemma at_target_Cons: "at_target base step i (d # ds) T \<longleftrightarrow>
    (on_dev d T = {} \<or> (\<exists>g. on_dev d T = {(g, target_metric base step i)})) \<and>
    at_target base step (Suc i) ds T"
  by (auto simp: at_target_def All_less_Suc2)

lemma apply_from_contract:
  assumes "ip_contract env rp tbl"
    and "ranking_fits base step i (map ri_interface cs) (tbl (is_world (snd ps)))"
    and "apply_from env rp base step i cs ps = (p', s')"
  shows "(\<forall>j < length cs. on_dev (ri_interface (cs ! j)) (tbl (is_world s')) =
        best_on (ri_interface (cs ! j)) (target_metric base step (i + j)) (tbl (is_world (snd ps)))) \<and>
    (\<forall>d. d \<notin> set (map ri_interface cs) \<longrightarrow>
        on_dev d (tbl (is_world s')) = on_dev d (tbl (is_world (snd ps)))) \<and>
    (pb_error p' = None \<longleftrightarrow> pb_error (fst ps) = None \<and>
        (\<forall>c \<in> set cs. ri_healthy c \<longrightarrow> has_default (ri_interface c) (tbl (is_world (snd ps))))) \<and>
    (\<exists>ws. is_log s' = is_log (snd ps) @ ws \<and> log_keeps tbl (tbl (is_world (snd ps))) ws \<and>
       (if at_target base step i (map ri_interface cs) (tbl (is_world (snd ps)))
        then is_world s' = is_world (snd ps) \<and> map fst ws = map (show_args \<circ> ri_interface) cs
        else \<not> reads_only ws))"
  using assms(2,3)
proof (induction cs arbitrary: i ps)
  case (Cons c cs)
  let ?d = "ri_interface c" and ?m = "target_metric base step i" and ?T = "tbl (is_world (snd ps))"
  obtain p1 s1 where one: "reprioritize env rp ?d ?m (ri_healthy c) ps = (p1, s1)"
    by (cases "reprioritize env rp ?d ?m (ri_healthy c) ps")
  have fits: "metrics_unique ?T" "metric_free ?d ?m ?T" "?d \<notin> set (map ri_interface cs)"
    "ranking_fits base step (Suc i) (map ri_interface cs) (moved_table ?d ?m ?T)"
    using ranking_fits_Cons [of base step i ?d "map ri_interface cs" ?T] Cons.prems(1) by simp_all
  note C = reprioritize_contract [OF assms(1) fits(1,2) one]
  have R12: "tbl (is_world s1) = moved_table ?d ?m ?T"
    "pb_error p1 = None \<longleftrightarrow> pb_error (fst ps) = None \<and> (ri_healthy c \<longrightarrow> has_default ?d ?T)"
    using C by (auto simp: pb_error_fail split: if_splits option.splits)
  obtain ws1 where W: "is_log s1 = is_log (snd ps) @ ws1 \<and> log_keeps tbl ?T ws1 \<and>
      (if on_dev ?d ?T = {} \<or> (\<exists>g. on_dev ?d ?T = {(g, ?m)})
       then is_world s1 = is_world (snd ps) \<and> map fst ws1 = [show_args ?d]
       else \<not> reads_only ws1)"
    using conjunct1 [OF conjunct2 [OF conjunct2 [OF C]]] by (rule exE)
  have R35: "is_log s1 = is_log (snd ps) @ ws1" "log_keeps tbl ?T ws1"
    "on_dev ?d ?T = {} \<or> (\<exists>g. on_dev ?d ?T = {(g, ?m)}) \<Longrightarrow>
       is_world s1 = is_world (snd ps) \<and> map fst ws1 = [show_args ?d]"
    "\<not> (on_dev ?d ?T = {} \<or> (\<exists>g. on_dev ?d ?T = {(g, ?m)})) \<Longrightarrow>
       \<not> reads_only ws1"
    using W by simp_all
  note R = R12 R35
  have hd: "has_default d (tbl (is_world s1)) = has_default d ?T" for d
    using conjunct2 [OF conjunct2 [OF conjunct2 [OF C]]] by (rule spec)
  have other: "on_dev d (tbl (is_world s1)) = on_dev d ?T" if "d \<noteq> ?d" for d
    using that by (simp add: R(1) on_dev_moved_other)
  have fit1: "ranking_fits base step (Suc i) (map ri_interface cs) (tbl (is_world (snd (p1, s1))))"
    using fits(4) R(1) by simp
  have run: "apply_from env rp base step (Suc i) cs (p1, s1) = (p', s')"
    using Cons.prems(2) one by simp
  note D = Cons.IH [OF fit1 run, unfolded fst_conv snd_conv]
  obtain ws2 where W2: "is_log s' = is_log s1 @ ws2 \<and> log_keeps tbl (tbl (is_world s1)) ws2 \<and>
      (if at_target base step (Suc i) (map ri_interface cs) (tbl (is_world s1))
       then is_world s' = is_world s1 \<and> map fst ws2 = map (show_args \<circ> ri_interface) cs
       else \<not> reads_only ws2)"
    using conjunct2 [OF conjunct2 [OF conjunct2 [OF D]]] by (rule exE)
  note IH = conjunct1 [OF D] conjunct1 [OF conjunct2 [OF D], rule_format]
    conjunct1 [OF conjunct2 [OF conjunct2 [OF D]]] conjunct1 [OF W2] conjunct1 [OF conjunct2 [OF W2]]
    conjunct2 [OF conjunct2 [OF W2]]
  have at1: "at_target base step (Suc i) (map ri_interface cs) (tbl (is_world s1)) =
      at_target base step (Suc i) (map ri_interface cs) ?T"
  proof -
    have "on_dev (map ri_interface cs ! j) (tbl (is_world s1)) = on_dev (map ri_interface cs ! j) ?T"
      if "j < length (map ri_interface cs)" for j
      by (rule other) (use fits(3) that in \<open>metis nth_mem\<close>)
    then show ?thesis by (simp add: at_target_def)
  qed
  show ?case
  proof (intro conjI)
    show "\<forall>j < length (c # cs). on_dev (ri_interface ((c # cs) ! j)) (tbl (is_world s')) =
        best_on (ri_interface ((c # cs) ! j)) (target_metric base step (i + j)) ?T"
    proof (intro allI impI)
      fix j assume j: "j < length (c # cs)"
      show "on_dev (ri_interface ((c # cs) ! j)) (tbl (is_world s')) =
        best_on (ri_interface ((c # cs) ! j)) (target_metric base step (i + j)) ?T"
      proof (cases j)
        case 0
        then show ?thesis using IH(2) [OF fits(3)] by (simp add: R(1) on_dev_moved)
      next
        case (Suc k)
        with j have "ri_interface (cs ! k) \<in> set (map ri_interface cs)" by simp
        then have "ri_interface (cs ! k) \<noteq> ?d" using fits(3) by metis
        from best_on_cong [OF other [OF this]] IH(1) Suc j show ?thesis by simp
      qed
    qed
    show "\<forall>d. d \<notin> set (map ri_interface (c # cs)) \<longrightarrow>
        on_dev d (tbl (is_world s')) = on_dev d ?T" using IH(2) other by simp
    show "pb_error p' = None \<longleftrightarrow> pb_error (fst ps) = None \<and>
        (\<forall>x \<in> set (c # cs). ri_healthy x \<longrightarrow> has_default (ri_interface x) ?T)"
      using IH(3) R(2) hd by auto
    show "\<exists>ws. is_log s' = is_log (snd ps) @ ws \<and> log_keeps tbl ?T ws \<and>
       (if at_target base step i (map ri_interface (c # cs)) ?T
        then is_world s' = is_world (snd ps) \<and> map fst ws = map (show_args \<circ> ri_interface) (c # cs)
        else \<not> reads_only ws)"
    proof (rule exI [of _ "ws1 @ ws2"], intro conjI)
      show "is_log s' = is_log (snd ps) @ (ws1 @ ws2)" using IH(4) R(3) by simp
      show "log_keeps tbl ?T (ws1 @ ws2)" using R(4) log_keeps_trans [OF IH(5)] hd by simp
      show "if at_target base step i (map ri_interface (c # cs)) ?T
        then is_world s' = is_world (snd ps) \<and> map fst (ws1 @ ws2) = map (show_args \<circ> ri_interface) (c # cs)
        else \<not> reads_only (ws1 @ ws2)"
      proof (cases "on_dev ?d ?T = {} \<or> (\<exists>g. on_dev ?d ?T = {(g, ?m)})")
        case True
        then show ?thesis using IH(6) R(5) [OF True] at1 by (auto simp: at_target_Cons)
      next
        case False
        then show ?thesis using R(6) [OF False] by (auto simp: at_target_Cons)
      qed
    qed
  qed
qed (auto simp: at_target_def)


section \<open>A kernel for the contract\<close>

text \<open>
  A routing table as the IPv4 FIB keeps it: the destination and the metric are a route's
  identity, so \<open>replace\<close> takes the place of the default that has the metric, on whichever
  interface it is.  The listing is written in a unary code instead of JSON.
\<close>

definition ok_out :: "8 word list \<Rightarrow> rstr + bounded_output" where
  "ok_out o1 = Inr \<lparr>bo_status = \<lparr>es_success = True, es_display = lit ''exit status: 0''\<rparr>,
     bo_stdout = o1, bo_stderr = [], bo_timed_out = False, bo_truncated = False\<rparr>"

definition err_out :: "rstr + bounded_output" where
  "err_out = Inr \<lparr>bo_status = \<lparr>es_success = False, es_display = lit ''exit status: 2''\<rparr>,
     bo_stdout = [], bo_stderr = [], bo_timed_out = False, bo_truncated = False\<rparr>"

definition unary_show :: "(rstr option \<times> int) list \<Rightarrow> 8 word list" where
  "unary_show ks = replicate (Suc (to_nat ks)) 73"

definition unary_parse :: "rstr \<Rightarrow> rstr + ip_route list" where
  "unary_parse t = Inr (map (\<lambda>(g, m). \<lparr>ir_gateway = g, ir_metric = Some m\<rparr>) (from_nat (length t - 1)))"

definition kernel_show :: "rstr \<Rightarrow> kroute list \<Rightarrow> (rstr option \<times> int) list" where
  "kernel_show d w = remdups (map (\<lambda>r. (kr_gateway r, kr_metric r)) (filter (\<lambda>r. kr_dev r = d) w))"

definition kernel_change :: "rstr \<Rightarrow> kroute \<Rightarrow> kroute list \<Rightarrow> (rstr + bounded_output) \<times> kroute list" where
  "kernel_change verb r w =
     (if verb = lit ''replace'' then (ok_out [], r # filter (\<lambda>x. kr_metric x \<noteq> kr_metric r) w)
      else if verb = lit ''del'' \<and> r \<in> set w then (ok_out [], filter (\<lambda>x. x \<noteq> r) w)
      else (err_out, w))"

fun kernel_exec ::
  "rstr \<Rightarrow> rstr list \<Rightarrow> int \<Rightarrow> kroute list \<Rightarrow> (rstr + bounded_output) \<times> kroute list" where
  "kernel_exec prog (a # verb # dflt # rest) t w =
     (if a = lit ''-j'' then
        (case rest of
           [_, _, d] \<Rightarrow> (ok_out (unary_show (kernel_show d w)), w)
         | _ \<Rightarrow> (err_out, w))
      else
        (case rest of
           [_, g, _, d, _, m] \<Rightarrow>
             (case parse_decimal m of
                Some k \<Rightarrow> kernel_change verb \<lparr>kr_dev = d, kr_gateway = Some g, kr_metric = k\<rparr> w
              | None \<Rightarrow> (err_out, w))
         | [_, d, _, m] \<Rightarrow>
             (case parse_decimal m of
                Some k \<Rightarrow> kernel_change verb \<lparr>kr_dev = d, kr_gateway = None, kr_metric = k\<rparr> w
              | None \<Rightarrow> (err_out, w))
         | _ \<Rightarrow> (err_out, w)))"
| "kernel_exec prog args t w = (err_out, w)"

definition kernel_ip :: "kroute list ip_env" where
  "kernel_ip = \<lparr>ie_exec = kernel_exec, ie_parse = unary_parse\<rparr>"

lemma lossy_unary: "from_utf8_lossy (replicate n 73) = replicate n 73"
proof -
  have "lossy (replicate n 73) = replicate n 73"
    by (induction n) (simp_all add: lossy_step_def)
  then show ?thesis by (simp add: from_utf8_lossy_def)
qed

lemma trim_ascii: "trim (replicate n 73) = replicate n 73"
  by (cases n) (simp_all add: trim_def trim_start_def trim_end_def is_whitespace_def flip: replicate_Suc)

lemma kernel_exec_show:
  "exec_ip kernel_ip rp (show_args d) w = (ok_out (unary_show (kernel_show d w)), w)"
  by (simp add: exec_ip_def kernel_ip_def show_args_def)

lemma kernel_exec_change:
  "exec_ip kernel_ip rp (replace_args d m gw) w =
     (ok_out [], \<lparr>kr_dev = d, kr_gateway = gw, kr_metric = m\<rparr> # filter (\<lambda>x. kr_metric x \<noteq> m) w)"
  "exec_ip kernel_ip rp (del_args d m gw) w =
     (if \<lparr>kr_dev = d, kr_gateway = gw, kr_metric = m\<rparr> \<in> set w
      then (ok_out [], filter (\<lambda>x. x \<noteq> \<lparr>kr_dev = d, kr_gateway = gw, kr_metric = m\<rparr>) w)
      else (err_out, w))"
  by (cases gw; simp add: exec_ip_def kernel_ip_def replace_args_def del_args_def via_args_def
      kernel_change_def parse_decimal_show_int)+

lemma set_kernel_show: "set (kernel_show d w) = on_dev d (set w)"
  by (auto simp: kernel_show_def on_dev_def)

lemma kernel_contract: "ip_contract kernel_ip rp set"
proof -
  have "show_contract kernel_ip rp set"
    unfolding show_contract_def kernel_exec_show
    by (auto simp: ok_output_def ok_out_def shows_routes_def Let_def unary_show_def lossy_unary
        trim_ascii kernel_ip_def unary_parse_def route_key_def route_metric_def comp_def split_beta
        set_kernel_show simp flip: replicate_Suc)
      (simp_all add: kernel_show_def)
  moreover have "replace_contract kernel_ip rp set"
    unfolding replace_contract_def kernel_exec_change by (auto simp: ok_output_def ok_out_def)
  moreover have "del_contract kernel_ip rp set"
    unfolding del_contract_def kernel_exec_change by (auto simp: ok_output_def ok_out_def)
  ultimately show ?thesis by (simp add: ip_contract_def)
qed


section \<open>Target metrics\<close>

lemma wrap64_add: "wrap64 (a + wrap64 b) = wrap64 (a + b)"
proof -
  have "(a + ((b + 2 ^ 63) mod 2 ^ 64 - 2 ^ 63) + 2 ^ 63) mod 2 ^ 64 = (a + (b + 2 ^ 63)) mod (2 ^ 64 :: int)"
    by (simp add: mod_add_right_eq)
  then show ?thesis by (simp add: wrap64_def add.assoc)
qed

lemma target_metric_exact:
  assumes "is_i64 base" and "0 \<le> step" and "i \<le> n" and "base + int n * step \<le> i64_max"
  shows "target_metric base step i = base + int i * step"
proof -
  have "int i * step \<le> int n * step" "0 \<le> int i * step"
    using assms(2,3) by (simp_all add: mult_right_mono)
  then have "is_i64 (base + int i * step)"
    using assms(1,4) unfolding is_i64_def by linarith
  then show ?thesis by (simp add: target_metric_def wrap64_add)
qed

lemma target_metrics_distinct:
  assumes "is_i64 base" and "0 < step" and "base + int n * step \<le> i64_max"
  shows "distinct (map (target_metric base step) [0 ..< n])"
proof -
  have "map (target_metric base step) [0 ..< n] = map (\<lambda>i. base + int i * step) [0 ..< n]"
    using target_metric_exact [OF assms(1) _ _ assms(3)] assms(2) by simp
  then show ?thesis using assms(2) by (simp add: distinct_map inj_on_def)
qed

text \<open>
  Nothing in the configuration's validation bounds \<open>metricBase\<close> and \<open>metricStep\<close> from
  above: near the end of the range the product and the sum wrap, and the second metric is
  below the winner's.
\<close>

lemma target_metric_wraps: "target_metric i64_max 1 1 < target_metric i64_max 1 0"
  by (simp add: target_metric_def wrap64_def i64_max_def)

section \<open>Publication on every tick\<close>

definition ranked :: "rstr list \<Rightarrow> (rstr \<Rightarrow> bool) \<Rightarrow> ranked_interface list" where
  "ranked ds h = map (\<lambda>d. \<lparr>ri_interface = d, ri_healthy = h d\<rparr>) ds"

text \<open>
  One tick of the publisher for the ranking \<open>ds\<close>, whatever the health of its interfaces:
  the world after it, and whether any command but the read-back was issued.
\<close>

definition route_request ::
  "'w ip_env \<Rightarrow> route_publisher \<Rightarrow> rstr list \<Rightarrow> int \<Rightarrow> int \<Rightarrow> (rstr \<Rightarrow> bool) \<Rightarrow> 'w \<Rightarrow> 'w \<times> bool" where
  "route_request env rp ds base step h w =
     (let s = snd (apply_routes env rp (ranked ds h) base step \<lparr>is_world = w, is_log = []\<rparr>)
      in (is_world s, \<not> reads_only (is_log s)))"

definition route_good ::
  "'w ip_env \<Rightarrow> route_publisher \<Rightarrow> ('w \<Rightarrow> kroute set) \<Rightarrow> rstr list \<Rightarrow> int \<Rightarrow> int \<Rightarrow>
   (rstr \<Rightarrow> bool) \<Rightarrow> 'w \<Rightarrow> bool" where
  "route_good env rp tbl ds base step h w \<longleftrightarrow>
     ip_contract env rp tbl \<and> ranking_fits base step 0 ds (tbl w)"

lemma ranked_simps [simp]:
  "map ri_interface (ranked ds h) = ds" "length (ranked ds h) = length ds"
  by (simp_all add: ranked_def comp_def)

lemma ranked_nth [simp]: "j < length ds \<Longrightarrow> ri_interface (ranked ds h ! j) = ds ! j"
  by (simp add: ranked_def)

lemma route_request_contract:
  assumes "route_good env rp tbl ds base step h w"
  shows "(\<forall>j < length ds. on_dev (ds ! j) (tbl (fst (route_request env rp ds base step h w))) =
        best_on (ds ! j) (target_metric base step j) (tbl w)) \<and>
    (\<forall>d. d \<notin> set ds \<longrightarrow>
        on_dev d (tbl (fst (route_request env rp ds base step h w))) = on_dev d (tbl w)) \<and>
    (snd (route_request env rp ds base step h w) \<longleftrightarrow> \<not> at_target base step 0 ds (tbl w)) \<and>
    (at_target base step 0 ds (tbl w) \<longrightarrow> fst (route_request env rp ds base step h w) = w)"
proof -
  obtain p s where run: "apply_from env rp base step 0 (ranked ds h)
      (publication_default, \<lparr>is_world = w, is_log = []\<rparr>) = (p, s)" by force
  have req: "route_request env rp ds base step h w = (is_world s, \<not> reads_only (is_log s))"
    by (simp add: route_request_def apply_routes_def run)
  have good: "ip_contract env rp tbl" "ranking_fits base step 0 (map ri_interface (ranked ds h))
      (tbl (is_world (snd (publication_default, \<lparr>is_world = w, is_log = []\<rparr>))))"
    using assms by (simp_all add: route_good_def)
  note C = apply_from_contract [OF good run, simplified]
  have log: "reads_only (is_log s) = at_target base step 0 ds (tbl w)"
    "at_target base step 0 ds (tbl w) \<Longrightarrow> is_world s = w"
    using C by (auto dest: reads_only_shows split: if_splits)
  show ?thesis unfolding req fst_conv snd_conv using C log by simp
qed

lemma on_dev_eqD:
  "on_dev d T = on_dev d T' \<Longrightarrow> r \<in> T \<Longrightarrow> kr_dev r = d \<Longrightarrow> r \<in> T'"
  by (metis kroute_eta on_dev_iff)

lemma best_on_target: "(g, k) \<in> best_on d m T \<Longrightarrow> k = m"
  by (auto simp: best_on_def)

lemma best_on_unique:
  assumes "metrics_unique T"
  shows "best_on d m T = {} \<or> (\<exists>g. best_on d m T = {(g, m)})"
proof (cases "best_on d m T = {}")
  case False
  then obtain g k where gk: "(g, k) \<in> on_dev d T" "\<forall>x \<in> on_dev d T. k \<le> snd x"
    by (auto simp: best_on_def)
  have "g' = g" if "(g', k') \<in> on_dev d T" "\<forall>x \<in> on_dev d T. k' \<le> snd x" for g' k'
  proof -
    have "k' = k" using that gk by force
    with that gk assms show ?thesis unfolding metrics_unique_def on_dev_iff by fastforce
  qed
  with gk show ?thesis unfolding best_on_def by blast
qed simp

text \<open>The table after a tick is settled, and still within the contract.\<close>

lemma route_request_settles:
  assumes "route_good env rp tbl ds base step h w"
  shows "at_target base step 0 ds (tbl (fst (route_request env rp ds base step h w)))"
    and "ranking_fits base step 0 ds (tbl (fst (route_request env rp ds base step h w)))"
proof -
  let ?T' = "tbl (fst (route_request env rp ds base step h w))"
  note C = route_request_contract [OF assms]
  have on: "on_dev (ds ! j) ?T' = best_on (ds ! j) (target_metric base step j) (tbl w)"
    if "j < length ds" for j using C that by simp
  have fits: "ranking_fits base step 0 ds (tbl w)" using assms by (simp add: route_good_def)
  then have uniq: "metrics_unique (tbl w)" by (simp add: ranking_fits_def)
  show at: "at_target base step 0 ds ?T'"
    using best_on_unique [OF uniq] by (auto simp: at_target_def on)
  have outside: "on_dev d ?T' = on_dev d (tbl w)" if "d \<notin> set ds" for d using C that by simp
  have inside: "kr_metric r = target_metric base step j" if "r \<in> ?T'" "kr_dev r = ds ! j" "j < length ds" for r j
  proof -
    have "(kr_gateway r, kr_metric r) \<in> on_dev (ds ! j) ?T'" using that by (auto simp: on_dev_def)
    then show ?thesis using on [OF that(3)] best_on_target by metis
  qed
  have "metrics_unique ?T'"
    unfolding metrics_unique_def
  proof (intro ballI impI, elim conjE)
    fix r r' assume r: "r \<in> ?T'" "r' \<in> ?T'" "kr_dev r = kr_dev r'" "kr_metric r = kr_metric r'"
    show "r = r'"
    proof (cases "kr_dev r \<in> set ds")
      case True
      then obtain j where j: "j < length ds" "kr_dev r = ds ! j" by (metis in_set_conv_nth)
      have "(kr_gateway r, kr_metric r) \<in> on_dev (ds ! j) ?T'"
        "(kr_gateway r', kr_metric r') \<in> on_dev (ds ! j) ?T'" using r j(2) by (auto simp: on_dev_def)
      then have "kr_gateway r = kr_gateway r'"
        using at j(1) unfolding at_target_def by fastforce
      with r(3,4) show ?thesis by (cases r; cases r') simp
    next
      case False
      then have "r \<in> tbl w" "r' \<in> tbl w"
        using on_dev_eqD [OF outside [OF False] r(1)] on_dev_eqD [OF outside [OF False] r(2)] r(3) by auto
      with uniq r(3,4) show ?thesis unfolding metrics_unique_def by blast
    qed
  qed
  moreover have "metric_free (ds ! i) (target_metric base step i) ?T'" if i: "i < length ds" for i
    unfolding metric_free_def
  proof (intro ballI impI)
    fix r assume r: "r \<in> ?T'" "kr_metric r = target_metric base step i"
    show "kr_dev r = ds ! i"
    proof (cases "kr_dev r \<in> set ds")
      case True
      then obtain j where j: "j < length ds" "kr_dev r = ds ! j" by (metis in_set_conv_nth)
      then have "target_metric base step i = target_metric base step j"
        using inside r by metis
      then have "i = j"
        using fits i j(1) nth_eq_iff_index_eq [of "map (target_metric base step) [0 ..< length ds]" i j]
        by (simp add: ranking_fits_def)
      with j show ?thesis by simp
    next
      case False
      then have "r \<in> tbl w" using on_dev_eqD [OF outside [OF False] r(1)] by simp
      with fits i r(2) show ?thesis by (auto simp: ranking_fits_def metric_free_def)
    qed
  qed
  ultimately show "ranking_fits base step 0 ds ?T'" using fits by (simp add: ranking_fits_def)
qed

interpretation route_backend: reconciling_publisher
  "route_request env rp ds base step" "route_good env rp tbl ds base step" "\<lambda>_ _. True"
  for env rp tbl ds base step
proof
  fix h h' w assume g: "route_good env rp tbl ds base step h w"
  show "route_good env rp tbl ds base step h' (fst (route_request env rp ds base step h w))"
    using g route_request_settles(2) [OF g] by (simp add: route_good_def)
  show "fst (route_request env rp ds base step h w) = w"
    if "\<not> snd (route_request env rp ds base step h w)"
    using route_request_contract [OF g] that by blast
  have "route_good env rp tbl ds base step h' (fst (route_request env rp ds base step h w))"
    using g route_request_settles(2) [OF g] by (simp add: route_good_def)
  from route_request_contract [OF this] route_request_settles(1) [OF g]
  show "\<not> snd (route_request env rp ds base step h' (fst (route_request env rp ds base step h w)))"
    by blast
qed


section \<open>Properties\<close>

text \<open>
  The discipline of the route commands, whatever \<open>ip\<close> answers: each ranked interface,
  in rank order, is read first; a rewrite is one \<open>replace\<close> at the interface's target
  metric; deletions come only after a \<open>replace\<close> that succeeded, on the same interface and
  never at the target metric; and the reported changes are exactly the successful moves.
\<close>

lemma route_commands_disciplined:
  "\<exists>ws. is_log (snd (apply_routes env rp cs base step s)) = is_log s @ ws \<and>
     apply_trace base step 0 cs (map fst ws) (pb_changes (fst (apply_routes env rp cs base step s)))"
  using apply_from_trace [of env rp base step 0 cs "(publication_default, s)"]
  by (auto simp: apply_routes_def publication_default_def)


text \<open>Two uplinks with the metrics a DHCP client gave them.\<close>

definition dhcp_table :: "kroute list" where
  "dhcp_table = [\<lparr>kr_dev = lit ''wan0'', kr_gateway = Some (lit ''10.0.0.1''), kr_metric = 600\<rparr>,
     \<lparr>kr_dev = lit ''wan1'', kr_gateway = None, kr_metric = 700\<rparr>]"

definition demo_rp :: route_publisher where
  "demo_rp = route_publisher_new (lit ''/run/ip'')"

definition demo_cs :: "ranked_interface list" where
  "demo_cs = ranked [lit ''wan1'', lit ''wan0''] (\<lambda>d. d = lit ''wan1'')"

lemma demo_targets: "target_metric 100 50 0 = 100" "target_metric 100 50 (Suc 0) = 150"
  by (simp_all add: target_metric_def wrap64_def)

lemma demo_fits: "ranking_fits 100 50 0 [lit ''wan1'', lit ''wan0''] (set dhcp_table)"
  by (auto simp: ranking_fits_def metrics_unique_def dhcp_table_def metric_free_def demo_targets
      less_Suc_eq All_less_Suc upt_rec [of 0] upt_rec [of 1])


text \<open>
  The box is never without a way out: under the contract, after every single command
  of an \<open>apply\<close>, each interface that had a default route has one.
\<close>

lemma route_never_without_default:
  assumes "ip_contract env rp tbl" and "ranking_fits base step 0 (map ri_interface cs) (tbl w)"
    and "apply_routes env rp cs base step \<lparr>is_world = w, is_log = []\<rparr> = (p, s)"
    and "(args, w') \<in> set (is_log s)" and "has_default d (tbl w)"
  shows "has_default d (tbl w')"
proof -
  have "log_keeps tbl (tbl w) (is_log s)"
    using apply_from_contract [OF assms(1) _ assms(3) [unfolded apply_routes_def]] assms(2) by auto
  with assms(4,5) show ?thesis by (force simp: log_keeps_def)
qed

theorem route_never_without_default_witness:
  "list_all (\<lambda>x. has_default (lit ''wan0'') (set (snd x)))
     (is_log (snd (apply_routes kernel_ip demo_rp demo_cs 100 50 \<lparr>is_world = dhcp_table, is_log = []\<rparr>)))"
proof -
  obtain p s where run: "apply_routes kernel_ip demo_rp demo_cs 100 50
      \<lparr>is_world = dhcp_table, is_log = []\<rparr> = (p, s)" by force
  have fits: "ranking_fits 100 50 0 (map ri_interface demo_cs) (set dhcp_table)"
    using demo_fits by (simp add: demo_cs_def)
  have d: "has_default (lit ''wan0'') (set dhcp_table)" by (simp add: has_default_def dhcp_table_def)
  have "has_default (lit ''wan0'') (set (snd x))" if "x \<in> set (is_log s)" for x
    using route_never_without_default [OF kernel_contract fits run _ d, of "fst x" "snd x"] that by simp
  then show ?thesis by (simp add: run list_all_iff)
qed



text \<open>
  TF-3, the metrics: without overflow the targets are the base plus the rank times the
  step, so a better rank is strictly cheaper.
\<close>

lemma target_metrics_increase:
  assumes "is_i64 base" and "0 < step" and "base + int n * step \<le> i64_max" and "i < j" and "j \<le> n"
  shows "target_metric base step i = base + int i * step \<and>
    target_metric base step i < target_metric base step j"
  using target_metric_exact [OF assms(1) _ _ assms(3), of i] assms(2,4,5)
    target_metric_exact [OF assms(1) _ assms(5,3)] by simp

lemma target_metrics_increase_witness: "target_metric 100 50 1 < target_metric 100 50 3"
  using target_metrics_increase [of 100 50 3 1 3] by (simp add: is_i64_def i64_min_def i64_max_def)

lemma kernel_show_default:
  "show_default kernel_ip rp d s =
     (Inr (map (\<lambda>(g, m). \<lparr>ir_gateway = g, ir_metric = Some m\<rparr>) (kernel_show d (is_world s))),
      \<lparr>is_world = is_world s, is_log = is_log s @ [(show_args d, is_world s)]\<rparr>)"
proof -
  have "ie_exec kernel_ip (ip_name rp) (show_args d) (rp_command_timeout rp) (is_world s) =
      (ok_out (unary_show (kernel_show d (is_world s))), is_world s)"
    using kernel_exec_show [of rp d "is_world s"] by (simp add: exec_ip_def)
  then show ?thesis
    by (simp add: show_default_def command_def ok_out_def unary_show_def lossy_unary trim_ascii
        kernel_ip_def unary_parse_def flip: replicate_Suc)
qed

lemma kernel_run_ip:
  "run_ip kernel_ip rp (replace_args d m gw) s =
     (None, \<lparr>is_world = \<lparr>kr_dev = d, kr_gateway = gw, kr_metric = m\<rparr> #
          filter (\<lambda>x. kr_metric x \<noteq> m) (is_world s),
        is_log = is_log s @ [(replace_args d m gw, \<lparr>kr_dev = d, kr_gateway = gw, kr_metric = m\<rparr> #
          filter (\<lambda>x. kr_metric x \<noteq> m) (is_world s))]\<rparr>)"
  "\<lparr>kr_dev = d, kr_gateway = gw, kr_metric = m\<rparr> \<in> set (is_world s) \<Longrightarrow>
   run_ip kernel_ip rp (del_args d m gw) s =
     (None, \<lparr>is_world = filter (\<lambda>x. x \<noteq> \<lparr>kr_dev = d, kr_gateway = gw, kr_metric = m\<rparr>) (is_world s),
        is_log = is_log s @ [(del_args d m gw,
          filter (\<lambda>x. x \<noteq> \<lparr>kr_dev = d, kr_gateway = gw, kr_metric = m\<rparr>) (is_world s))]\<rparr>)"
  using kernel_exec_change [of rp d m gw "is_world s"]
  by (simp_all add: exec_ip_def run_ip_def command_def ok_out_def)

definition failed_over_table :: "kroute list" where
  "failed_over_table =
     [\<lparr>kr_dev = lit ''wan0'', kr_gateway = Some (lit ''10.0.0.1''), kr_metric = 100\<rparr>,
      \<lparr>kr_dev = lit ''wan1'', kr_gateway = Some (lit ''10.7.0.1''), kr_metric = 150\<rparr>]"

text \<open>
  The limit of the failover on a kernel where a default route is identified by its
  metric alone: when the winner is to get the metric that the loser still has, the
  \<open>replace\<close> takes the loser's route, and the read-back of the loser then finds nothing to
  demote.  The table ends with the winner's route only.
\<close>

lemma route_swap_loses_loser:
  "is_world (snd (apply_routes kernel_ip demo_rp (ranked [lit ''wan1'', lit ''wan0''] h) 100 50
     \<lparr>is_world = failed_over_table, is_log = []\<rparr>)) =
   [\<lparr>kr_dev = lit ''wan1'', kr_gateway = Some (lit ''10.7.0.1''), kr_metric = 100\<rparr>] \<and>
   pb_error (fst (apply_routes kernel_ip demo_rp (ranked [lit ''wan1'', lit ''wan0''] h) 100 50
     \<lparr>is_world = failed_over_table, is_log = []\<rparr>)) =
   (if h (lit ''wan0'') then Some (no_route_error (lit ''wan0'')) else None)"
  by (simp add: apply_routes_def ranked_def reprioritize_def kernel_show_default kernel_run_ip
      failed_over_table_def kernel_show_def route_metric_def demo_targets publication_default_def
      pb_fail_def)

end
