(* ===== verification/Probe.thy ===== *)
theory Probe
  imports Config Subprocess
begin

text \<open>
  What the probe methods share (\<open>src/probe/mod.rs\<close>): the result of a probe, the splitting
  of an \<open>exec\<close> command line into words, and the first line of a script's output.
  \<open>Err(ProbeError)\<close>, a probe that could not even be attempted, is \<open>Inl\<close> of its message.
\<close>

section \<open>Definitions\<close>

record probe_result =
  pr_healthy :: bool
  pr_address :: rstr
  pr_detail :: rstr

text \<open>\<open>ProbeResult { healthy: false, detail, ..Default::default() }\<close> and its healthy twin.\<close>

definition unhealthy :: "rstr \<Rightarrow> probe_result" where
  "unhealthy detail = \<lparr>pr_healthy = False, pr_address = [], pr_detail = detail\<rparr>"

definition healthy :: "rstr \<Rightarrow> probe_result" where
  "healthy detail = \<lparr>pr_healthy = True, pr_address = [], pr_detail = detail\<rparr>"

lemma healthy_simps [simp]:
  "pr_healthy (healthy d)" "\<not> pr_healthy (unhealthy d)"
  "pr_detail (healthy d) = d" "pr_detail (unhealthy d) = d"
  "pr_address (healthy d) = []" "pr_address (unhealthy d) = []"
  by (simp_all add: healthy_def unhealthy_def)

abbreviation QUOTE :: uchar where "QUOTE \<equiv> 39"
abbreviation DQUOTE :: uchar where "DQUOTE \<equiv> 34"

subsection \<open>\<open>tokenize\<close>\<close>

text \<open>
  The loop over the characters: \<open>quote\<close> is \<open>in_single\<close> and \<open>in_double\<close>, never both;
  \<open>cur\<close> is the word being built; the result is the words with the quoting state at the
  end, the last word not yet flushed.
\<close>

datatype quoting = Bare | InSingle | InDouble

fun token_loop :: "quoting \<Rightarrow> rstr \<Rightarrow> rstr list \<Rightarrow> rstr \<Rightarrow> quoting \<times> rstr \<times> rstr list" where
  "token_loop q cur toks [] = (q, cur, toks)"
| "token_loop InSingle cur toks (c # cs) =
     (if c = QUOTE then token_loop Bare cur toks cs else token_loop InSingle (cur @ [c]) toks cs)"
| "token_loop InDouble cur toks (c # cs) =
     (if c = DQUOTE then token_loop Bare cur toks cs else token_loop InDouble (cur @ [c]) toks cs)"
| "token_loop Bare cur toks (c # cs) =
     (if c = QUOTE then token_loop InSingle cur toks cs
      else if c = DQUOTE then token_loop InDouble cur toks cs
      else if c = SP \<or> c = TAB then
        (if cur \<noteq> [] then token_loop Bare [] (toks @ [cur]) cs else token_loop Bare [] toks cs)
      else token_loop Bare (cur @ [c]) toks cs)"

definition tokenize :: "rstr \<Rightarrow> rstr + rstr list" where
  "tokenize s =
     (case token_loop Bare [] [] s of
        (q, cur, toks) \<Rightarrow>
          if q \<noteq> Bare then
            Inl (lit ''unterminated quote in exec command line '' @ [DQUOTE] @ s @ [DQUOTE])
          else Inr (if cur \<noteq> [] then toks @ [cur] else toks))"

fun first_filled :: "rstr list \<Rightarrow> rstr" where
  "first_filled [] = []"
| "first_filled (l # ls) = (if trim l \<noteq> [] then trim l else first_filled ls)"

definition first_non_empty_line :: "8 word list \<Rightarrow> rstr" where
  "first_non_empty_line b = first_filled (lines (from_utf8_lossy b))"

section \<open>Words\<close>

text \<open>
  A word written out: as it is when it has no space and no quote, else in quotes of a kind
  that it does not contain.
\<close>

definition quote_word :: "rstr \<Rightarrow> rstr" where
  "quote_word w =
     (if \<forall>c \<in> set w. c \<noteq> SP \<and> c \<noteq> TAB \<and> c \<noteq> QUOTE \<and> c \<noteq> DQUOTE then w
      else if QUOTE \<notin> set w then [QUOTE] @ w @ [QUOTE]
      else [DQUOTE] @ w @ [DQUOTE])"

lemma token_loop_single:
  "QUOTE \<notin> set w \<Longrightarrow> token_loop InSingle cur toks (w @ QUOTE # s) = token_loop Bare (cur @ w) toks s"
  by (induction w arbitrary: cur) auto

lemma token_loop_double:
  "DQUOTE \<notin> set w \<Longrightarrow> token_loop InDouble cur toks (w @ DQUOTE # s) = token_loop Bare (cur @ w) toks s"
  by (induction w arbitrary: cur) auto

lemma token_loop_bare:
  "\<forall>c \<in> set w. c \<noteq> SP \<and> c \<noteq> TAB \<and> c \<noteq> QUOTE \<and> c \<noteq> DQUOTE \<Longrightarrow>
   token_loop Bare cur toks (w @ s) = token_loop Bare (cur @ w) toks s"
  by (induction w arbitrary: cur) auto

lemma token_loop_quote_word:
  assumes "QUOTE \<notin> set w \<or> DQUOTE \<notin> set w"
  shows "token_loop Bare cur toks (quote_word w @ s) = token_loop Bare (cur @ w) toks s"
  using assms token_loop_single [of w cur toks s] token_loop_double [of w cur toks s]
    token_loop_bare [of w cur toks s]
  by (auto simp: quote_word_def)

lemma token_loop_words:
  assumes "\<forall>w \<in> set ws. w \<noteq> [] \<and> (QUOTE \<notin> set w \<or> DQUOTE \<notin> set w)" and "ws \<noteq> []"
  shows "token_loop Bare [] toks (join [SP] (map quote_word ws)) = (Bare, last ws, toks @ butlast ws)"
  using assms
proof (induction "[SP]" "map quote_word ws" arbitrary: ws toks rule: join.induct)
  case (2 x)
  then obtain w where "ws = [w]" by (auto simp: map_eq_Cons_conv)
  then show ?case using 2 token_loop_quote_word [of w "[]" toks "[]"] by simp
next
  case (3 x y xs)
  then obtain w w' us where ws: "ws = w # w' # us" by (auto simp: map_eq_Cons_conv)
  have "token_loop Bare [] toks (quote_word w @ SP # join [SP] (map quote_word (w' # us))) =
      token_loop Bare [] (toks @ [w]) (join [SP] (map quote_word (w' # us)))"
    using 3(3) ws token_loop_quote_word [of w "[]" toks "SP # join [SP] (map quote_word (w' # us))"]
    by simp
  also have "\<dots> = (Bare, last (w' # us), (toks @ [w]) @ butlast (w' # us))"
    using 3(1) [of "w' # us" "toks @ [w]"] 3(2,3) ws by simp
  finally show ?case by (simp add: ws)
qed simp

text \<open>
  An \<open>exec\<close> command line written out from its words, each non-empty and without both
  kinds of quotes, is split back into them: a script gets exactly the arguments that the
  configuration spells out.
\<close>

lemma tokenize_round_trip:
  assumes "\<forall>w \<in> set ws. w \<noteq> [] \<and> (QUOTE \<notin> set w \<or> DQUOTE \<notin> set w)"
  shows "tokenize (join [SP] (map quote_word ws)) = Inr ws"
proof (cases "ws = []")
  case True
  then show ?thesis by (simp add: tokenize_def)
next
  case False
  then have "last ws \<noteq> []" using assms last_in_set by blast
  then show ?thesis
    using token_loop_words [OF assms False, of "[]"] False by (simp add: tokenize_def)
qed

theorem tokenize_round_trip_witness:
  "tokenize (lit ''/bin/p 'two words' -v'') = Inr [lit ''/bin/p'', lit ''two words'', lit ''-v'']"
  using tokenize_round_trip [of "[lit ''/bin/p'', lit ''two words'', lit ''-v'']"]
  by (simp add: str_simps quote_word_def)

text \<open>No word is empty, and none is split at a quoted space.\<close>

lemma token_loop_nonempty:
  "token_loop q cur toks s = (q', cur', toks') \<Longrightarrow> [] \<notin> set toks \<Longrightarrow> [] \<notin> set toks'"
  by (induction q cur toks s rule: token_loop.induct) (auto split: if_splits)

lemma tokenize_nonempty: "tokenize s = Inr ws \<Longrightarrow> [] \<notin> set ws"
  using token_loop_nonempty [of Bare "[]" "[]" s]
  by (auto simp: tokenize_def split: prod.splits if_splits)

text \<open>A transport of the test configurations.\<close>

definition demo_probe :: probe where
  "demo_probe = \<lparr>p_method = lit ''tcp'', p_target = [], p_port = 22, p_path = lit ''/'',
     p_bind_to_interface = False, p_interval_ms = 3000, p_timeout_ms = 800,
     p_up_threshold = 2, p_down_threshold = 3, p_exec = []\<rparr>"

definition demo_transport :: "rstr \<Rightarrow> rstr \<Rightarrow> int \<Rightarrow> transport" where
  "demo_transport ifc addr pri = \<lparr>t_ident = ifc, t_address = addr, t_interface = ifc,
     t_priority = pri, t_provider_id = [], t_probe = demo_probe\<lparr>p_target := addr\<rparr>\<rparr>"

section \<open>A scan that stops at the first success\<close>

lemma all_le_Suc: "(\<forall>j \<le> Suc k. Q j) \<longleftrightarrow> Q 0 \<and> (\<forall>j \<le> k. Q (Suc j))"
  by (metis Suc_le_mono le0 not0_implies_Suc)

lemma scan_Suc:
  "(\<exists>k < Suc n. P (i + k) \<and> (\<forall>j \<le> k. Q (i + j))) \<longleftrightarrow>
   Q i \<and> (P i \<or> (\<exists>k < n. P (Suc i + k) \<and> (\<forall>j \<le> k. Q (Suc i + j))))"
proof -
  have "(\<exists>k < Suc n. R k) \<longleftrightarrow> R 0 \<or> (\<exists>k < n. R (Suc k))" for R by (metis less_Suc_eq_0_disj)
  from this [of "\<lambda>k. P (i + k) \<and> (\<forall>j \<le> k. Q (i + j))"] show ?thesis
    by (simp only: all_le_Suc) auto
qed

text \<open>The same where an element that has \<open>R\<close> decides, whatever it decides.\<close>

lemma all_less_Suc2: "(\<forall>j < Suc k. Q j) \<longleftrightarrow> Q 0 \<and> (\<forall>j < k. Q (Suc j))"
  by (metis less_Suc_eq_0_disj zero_less_Suc)

lemma scan_first_Suc:
  "(\<exists>k < Suc n. P (i + k) \<and> (\<forall>j \<le> k. Q (i + j)) \<and> (\<forall>j < k. \<not> R (i + j))) \<longleftrightarrow>
   Q i \<and> (P i \<or> \<not> R i \<and>
     (\<exists>k < n. P (Suc i + k) \<and> (\<forall>j \<le> k. Q (Suc i + j)) \<and> (\<forall>j < k. \<not> R (Suc i + j))))"
proof -
  have "(\<exists>k < Suc n. S k) \<longleftrightarrow> S 0 \<or> (\<exists>k < n. S (Suc k))" for S by (metis less_Suc_eq_0_disj)
  from this [of "\<lambda>k. P (i + k) \<and> (\<forall>j \<le> k. Q (i + j)) \<and> (\<forall>j < k. \<not> R (i + j))"] show ?thesis
    by (simp only: all_le_Suc all_less_Suc2) auto
qed

section \<open>The first line\<close>

lemma first_filled_trimmed: "first_filled ls = [] \<or> (\<exists>l \<in> set ls. first_filled ls = trim l)"
  by (induction ls) auto

end
