(* ===== verification/Engine.thy ===== *)
theory Engine
  imports Config Route Probe
begin

text \<open>
  \<open>src/engine/mod.rs\<close>, the part of it that works on the in-memory state: the state of a
  transport, of a group and of the engine, the effect of a probe result
  (\<open>probe_once\<close>), the staleness verdict, the winner selection
  (\<open>decide_action_locked\<close>) and the ranking of an uplink.  A group is updated on its own
  and put back in the map, as \<open>group_mut\<close> does; an index or a key that is not there is a
  panic, the value \<open>None\<close>.  Instants and durations are integers in nanoseconds.  A log
  line is a constructor of \<open>log_event\<close> with the values it prints.
\<close>

section \<open>State\<close>

datatype group_kind = Peer | Uplink

datatype tstate = Unknown | Up | Down

record transport_runtime =
  tr_spec :: transport
  tr_id :: rstr
  tr_key :: rstr
  tr_state :: tstate
  tr_succ :: int
  tr_fail :: int
  tr_address :: rstr
  tr_detail :: rstr
  tr_last_success :: "int option"
  tr_probe_started :: "int option"
  tr_next_due :: "int option"

record group =
  g_kind :: group_kind
  g_hostnames :: "rstr list"
  g_on_all_down :: rstr
  g_max_age :: "int option"
  g_route_metric :: bool
  g_metric_base :: int
  g_metric_step :: int
  g_min_hold :: int
  g_transports :: "transport_runtime list"
  g_winner :: "nat option"
  g_winner_since :: "int option"
  g_degraded :: bool
  g_published :: rstr
  g_confirmed :: "int option"
  g_publish_error :: rstr

record engine_state =
  en_peers :: "group hmap"
  en_uplinks :: "group hmap"
  en_hosts_error :: rstr

definition groups_of :: "group_kind \<Rightarrow> engine_state \<Rightarrow> group hmap" where
  "groups_of k st = (case k of Peer \<Rightarrow> en_peers st | Uplink \<Rightarrow> en_uplinks st)"

definition get_group :: "engine_state \<Rightarrow> group_kind \<Rightarrow> rstr \<Rightarrow> group option" where
  "get_group st k name = hm_get (groups_of k st) name"

definition put_group :: "engine_state \<Rightarrow> group_kind \<Rightarrow> rstr \<Rightarrow> group \<Rightarrow> engine_state" where
  "put_group st k name g =
     (case k of
        Peer \<Rightarrow> st\<lparr>en_peers := hm_put (en_peers st) name g\<rparr>
      | Uplink \<Rightarrow> st\<lparr>en_uplinks := hm_put (en_uplinks st) name g\<rparr>)"

definition kind_label :: "group_kind \<Rightarrow> rstr" where
  "kind_label k = (case k of Peer \<Rightarrow> lit ''peer'' | Uplink \<Rightarrow> lit ''uplink'')"

definition state_str :: "tstate \<Rightarrow> rstr" where
  "state_str s = (case s of Unknown \<Rightarrow> lit ''unknown'' | Up \<Rightarrow> lit ''up'' | Down \<Rightarrow> lit ''down'')"

definition group_label :: "group_kind \<Rightarrow> rstr \<Rightarrow> rstr" where
  "group_label k name = kind_label k @ lit ''='' @ name"

definition transport_id :: "group_kind \<Rightarrow> rstr \<Rightarrow> nat \<Rightarrow> transport \<Rightarrow> rstr" where
  "transport_id k name i t =
     (let label = (if t_provider_id t \<noteq> [] then t_provider_id t
                   else if t_interface t \<noteq> [] then t_interface t
                   else if t_address t \<noteq> [] then t_address t
                   else lit ''?'')
      in kind_label k @ lit ''/'' @ name @ lit ''#'' @ show_nat i @ lit ''('' @ label @ lit '')'')"

datatype staleness = Fresh | Expired int | ExpiredUnknownAge

datatype log_event =
    LogDegraded rstr
  | LogRecovered rstr
  | LogWithdrawn rstr rstr staleness int
  | LogWithdrawnOnRestore rstr rstr staleness int
  | LogWinnerChange rstr rstr
  | LogMisconfigured rstr rstr
  | LogTransition rstr tstate tstate int rstr
  | LogPublishFailed rstr rstr
  | LogPublishRecovered rstr
  | LogHostsReassert nat
  | LogRouteReassert rstr rstr int int
  | LogRouteReassertRestart rstr rstr int int
  | LogColdStart rstr

section \<open>A new engine\<close>

definition new_runtime :: "group_kind \<Rightarrow> rstr \<Rightarrow> nat \<Rightarrow> transport \<Rightarrow> transport_runtime" where
  "new_runtime k name i t =
     \<lparr>tr_spec = t, tr_id = transport_id k name i t, tr_key = t_ident t, tr_state = Unknown,
      tr_succ = 0, tr_fail = 0, tr_address = [], tr_detail = [], tr_last_success = None,
      tr_probe_started = None, tr_next_due = None\<rparr>"

definition new_runtimes :: "group_kind \<Rightarrow> rstr \<Rightarrow> transport list \<Rightarrow> transport_runtime list" where
  "new_runtimes k name ts = map (\<lambda>(i, t). new_runtime k name i t) (enumerate 0 ts)"

definition new_peer_group :: "rstr \<Rightarrow> peer \<Rightarrow> group" where
  "new_peer_group name p =
     \<lparr>g_kind = Peer, g_hostnames = pe_hostnames p, g_on_all_down = pe_on_all_down p,
      g_max_age = pe_max_age_sec p, g_route_metric = False, g_metric_base = 0,
      g_metric_step = 0, g_min_hold = pe_min_hold_ms p,
      g_transports = new_runtimes Peer name (pe_transports p), g_winner = None,
      g_winner_since = None, g_degraded = False, g_published = [], g_confirmed = None,
      g_publish_error = []\<rparr>"

definition new_uplink_group :: "rstr \<Rightarrow> uplink \<Rightarrow> group" where
  "new_uplink_group name u =
     \<lparr>g_kind = Uplink, g_hostnames = [], g_on_all_down = [], g_max_age = None,
      g_route_metric = u_route_metric u, g_metric_base = u_metric_base u,
      g_metric_step = u_metric_step u, g_min_hold = u_min_hold_ms u,
      g_transports = new_runtimes Uplink name (u_transports u), g_winner = None,
      g_winner_since = None, g_degraded = False, g_published = [], g_confirmed = None,
      g_publish_error = []\<rparr>"

definition new_state :: "config \<Rightarrow> engine_state" where
  "new_state c =
     \<lparr>en_peers = map (\<lambda>(n, p). (n, new_peer_group n p)) (c_peers c),
      en_uplinks = map (\<lambda>(n, u). (n, new_uplink_group n u)) (c_uplinks c),
      en_hosts_error = []\<rparr>"

definition keys_of_groups :: "group_kind \<Rightarrow> group hmap \<Rightarrow> (group_kind \<times> rstr \<times> nat) list" where
  "keys_of_groups k gs =
     concat (map (\<lambda>(n, g). map (\<lambda>i. (k, n, i)) [0 ..< length (g_transports g)]) gs)"

definition transport_keys :: "engine_state \<Rightarrow> (group_kind \<times> rstr \<times> nat) list" where
  "transport_keys st = keys_of_groups Peer (en_peers st) @ keys_of_groups Uplink (en_uplinks st)"

section \<open>Staleness\<close>

definition nanos_of_secs :: "int \<Rightarrow> int" where "nanos_of_secs s = s * 1000000000"
definition nanos_of_ms :: "int \<Rightarrow> int" where "nanos_of_ms m = m * 1000000"

definition staleness :: "int option \<Rightarrow> int option \<Rightarrow> int \<Rightarrow> staleness" where
  "staleness max_age confirmed now =
     (case max_age of
        None \<Rightarrow> Fresh
      | Some v \<Rightarrow>
          if \<not> v > 0 then Fresh
          else
            (case confirmed of
               None \<Rightarrow> ExpiredUnknownAge
             | Some t \<Rightarrow>
                 let age = now - t
                 in if age > nanos_of_secs v then Expired age else Fresh))"

section \<open>Recording a probe result\<close>

definition threshold :: "int \<Rightarrow> int \<Rightarrow> int" where
  "threshold v def = (if v \<le> 0 then def else v)"

text \<open>\<open>{:?}\<close> of the address in the message is left as the address.\<close>

definition check_address :: "probe_result \<Rightarrow> probe_result" where
  "check_address res =
     (if pr_healthy res \<and> pr_address res \<noteq> [] \<and> \<not> is_ip_literal (pr_address res)
      then res\<lparr>pr_healthy := False,
             pr_detail := lit ''exec probe returned invalid address '' @ pr_address res @
               lit ''; expected an IPv4 or IPv6 literal'',
             pr_address := []\<rparr>
      else res)"

text \<open>The update of one transport, under the state lock.\<close>

definition count_result :: "int \<Rightarrow> probe_result \<Rightarrow> transport_runtime \<Rightarrow> transport_runtime" where
  "count_result observed_at res tr =
     (if pr_healthy res then
        (let up = threshold (p_up_threshold (t_probe (tr_spec tr))) 2;
             n = min (sat_add64 (tr_succ tr) 1) up
         in tr\<lparr>tr_fail := 0, tr_succ := n,
              tr_state := (if tr_state tr \<noteq> Up \<and> n \<ge> up then Up else tr_state tr),
              tr_last_success := Some observed_at\<rparr>)
      else
        (let down = threshold (p_down_threshold (t_probe (tr_spec tr))) 3;
             n = min (sat_add64 (tr_fail tr) 1) down
         in tr\<lparr>tr_succ := 0, tr_fail := n,
              tr_state := (if tr_state tr \<noteq> Down \<and> n \<ge> down then Down else tr_state tr)\<rparr>))"

definition record_address :: "probe_result \<Rightarrow> transport_runtime \<Rightarrow> transport_runtime" where
  "record_address res tr =
     tr\<lparr>tr_address :=
          (if pr_healthy res \<and> pr_address res \<noteq> [] then pr_address res
           else if tr_address tr = [] then t_address (tr_spec tr)
           else tr_address tr),
        tr_detail := pr_detail res\<rparr>"

definition apply_result :: "int \<Rightarrow> probe_result \<Rightarrow> transport_runtime \<Rightarrow> transport_runtime" where
  "apply_result observed_at res tr =
     (let res' = check_address res in record_address res' (count_result observed_at res' tr))"

text \<open>
  The state part of \<open>probe_once\<close>: the new state, whether the transport's state changed,
  whether its address did, and the log line of a transition.
\<close>

definition probe_step ::
  "group_kind \<Rightarrow> rstr \<Rightarrow> nat \<Rightarrow> int \<Rightarrow> probe_result \<Rightarrow> engine_state \<Rightarrow>
   (engine_state \<times> bool \<times> bool \<times> log_event list) option" where
  "probe_step k name i observed_at res st =
     do {
       g \<leftarrow> get_group st k name;
       tr \<leftarrow> nth_opt (g_transports g) i;
       let tr' = apply_result observed_at res tr;
       let st' = put_group st k name (g\<lparr>g_transports := (g_transports g)[i := tr']\<rparr>);
       let changed = tr_state tr' \<noteq> tr_state tr;
       let count = (if changed then
                      (case tr_state tr' of Up \<Rightarrow> tr_succ tr' | Down \<Rightarrow> tr_fail tr' | Unknown \<Rightarrow> 0)
                    else 0);
       Some (st', changed, tr_address tr' \<noteq> tr_address tr,
         if changed then [LogTransition (tr_id tr) (tr_state tr) (tr_state tr') count (tr_detail tr')]
         else [])
     }"

section \<open>Winner selection\<close>

record candidate =
  cd_idx :: nat
  cd_priority :: int

definition tr_priority :: "transport_runtime \<Rightarrow> int" where
  "tr_priority tr = t_priority (tr_spec tr)"

definition candidates :: "group \<Rightarrow> candidate list" where
  "candidates g =
     sort_key cd_priority
       (map (\<lambda>(i, tr). \<lparr>cd_idx = i, cd_priority = tr_priority tr\<rparr>)
         (filter (\<lambda>(i, tr). tr_state tr = Up) (enumerate 0 (g_transports g))))"

text \<open>
  The sort key \<open>(state != Up, priority, index)\<close> is compared lexicographically; \<open>false\<close>
  is below \<open>true\<close>.
\<close>

definition rank_key :: "group \<Rightarrow> nat \<Rightarrow> bool \<times> int \<times> nat" where
  "rank_key g i =
     (let tr = g_transports g ! i in (tr_state tr \<noteq> Up, tr_priority tr, i))"

definition uplink_order :: "group \<Rightarrow> nat \<Rightarrow> nat list" where
  "uplink_order g w =
     w # sort_key (rank_key g) (filter (\<lambda>i. i \<noteq> w) [0 ..< length (g_transports g)])"

fun rank_from :: "group \<Rightarrow> rstr list \<Rightarrow> nat list \<Rightarrow> ranked_interface list" where
  "rank_from g seen [] = []"
| "rank_from g seen (i # is) =
     (let tr = g_transports g ! i; ifc = t_interface (tr_spec tr) in
      if ifc = [] \<or> ifc \<in> set seen then rank_from g seen is
      else \<lparr>ri_interface = ifc, ri_healthy = (tr_state tr = Up)\<rparr> # rank_from g (seen @ [ifc]) is)"

definition uplink_ranking :: "group \<Rightarrow> ranked_interface list" where
  "uplink_ranking g =
     (case g_winner g of
        Some w \<Rightarrow>
          if g_route_metric g \<and> w < length (g_transports g)
          then rank_from g [] (uplink_order g w) else []
      | None \<Rightarrow> [])"

datatype action =
    NoAction
  | PublishPeers bool
  | PublishUplink "ranked_interface list" int int

definition uplink_action :: "group \<Rightarrow> action" where
  "uplink_action g =
     (let ranked = uplink_ranking g in
      if ranked = [] then NoAction else PublishUplink ranked (g_metric_base g) (g_metric_step g))"

text \<open>No candidate: every transport is down or not known to be up.\<close>

definition decide_all_down ::
  "int \<Rightarrow> group_kind \<Rightarrow> rstr \<Rightarrow> group \<Rightarrow> group \<times> action \<times> log_event list" where
  "decide_all_down now k name g0 =
     (let g = g0\<lparr>g_degraded := True\<rparr>;
          lg = (if g_degraded g0 then [] else [LogDegraded (group_label k name)])
      in
      if k = Peer \<and> g_on_all_down g = ON_ALL_DOWN_UNPUBLISH \<and> g_winner g \<noteq> None then
        (g\<lparr>g_winner := None, g_published := []\<rparr>, PublishPeers False, lg)
      else if k = Peer \<and> g_on_all_down g = ON_ALL_DOWN_LAST_KNOWN_GOOD \<and> g_published g \<noteq> [] then
        (let verdict = staleness (g_max_age g) (g_confirmed g) now in
         if verdict = Fresh then (g, PublishPeers True, lg)
         else
           (g\<lparr>g_winner := None, g_published := []\<rparr>, PublishPeers False,
            lg @ [LogWithdrawn (group_label k name) (g_published g) verdict
                    (case g_max_age g of Some v \<Rightarrow> v | None \<Rightarrow> 0)]))
      else if k = Uplink then (g, uplink_action g, lg)
      else (g, PublishPeers True, lg))"

text \<open>Some candidate: the choice, its damping, then what it changes.\<close>

definition best_or_incumbent :: "nat option \<Rightarrow> candidate list \<Rightarrow> nat" where
  "best_or_incumbent winner cs =
     (let best = cd_priority (hd cs) in
      case winner of
        Some w \<Rightarrow> if \<exists>c \<in> set cs. cd_priority c = best \<and> cd_idx c = w then w else cd_idx (hd cs)
      | None \<Rightarrow> cd_idx (hd cs))"

text \<open>The pair \<open>(new_winner, winner_changed)\<close> after the damping by \<open>minHoldMs\<close>.\<close>

definition damped_choice :: "int \<Rightarrow> group \<Rightarrow> candidate list \<Rightarrow> (nat \<times> bool) option" where
  "damped_choice now g cs =
     (let new = best_or_incumbent (g_winner g) cs in
      if Some new = g_winner g then Some (new, False)
      else
        (case g_winner g of
           None \<Rightarrow> Some (new, True)
         | Some w \<Rightarrow>
             do {
               tr \<leftarrow> nth_opt (g_transports g) w;
               if tr_state tr = Up \<and>
                  now - (case g_winner_since g of Some t \<Rightarrow> t | None \<Rightarrow> now)
                    < nanos_of_ms (max 0 (g_min_hold g))
               then Some (w, False) else Some (new, True)
             }))"

definition decide_some_up ::
  "int \<Rightarrow> group_kind \<Rightarrow> rstr \<Rightarrow> group \<Rightarrow> candidate list \<Rightarrow>
   (group \<times> action \<times> log_event list) option" where
  "decide_some_up now k name g0 cs =
     do {
       let lg = (if g_degraded g0 then [LogRecovered (group_label k name)] else []);
       let g = g0\<lparr>g_degraded := False\<rparr>;
       (new, changed) \<leftarrow> damped_choice now g cs;
       tr \<leftarrow> nth_opt (g_transports g) new;
       let drift = (\<not> changed \<and> g_winner g \<noteq> None \<and> k = Peer \<and>
                    tr_address tr \<noteq> [] \<and> tr_address tr \<noteq> g_published g);
       let g1 = g\<lparr>g_confirmed := tr_last_success tr\<rparr>;
       if \<not> changed \<and> \<not> drift then
         Some (g1, (case k of Peer \<Rightarrow> PublishPeers True | Uplink \<Rightarrow> uplink_action g1), lg)
       else
         (let g2 = (if changed then g1\<lparr>g_winner := Some new, g_winner_since := Some now\<rparr> else g1);
              lg2 = (if changed then [LogWinnerChange (group_label k name) (tr_id tr)] else [])
          in case k of
               Peer \<Rightarrow> Some (g2\<lparr>g_published := tr_address tr\<rparr>, PublishPeers False, lg @ lg2)
             | Uplink \<Rightarrow> Some (g2, uplink_action g2, lg @ lg2))
     }"

definition decide_group ::
  "int \<Rightarrow> group_kind \<Rightarrow> rstr \<Rightarrow> group \<Rightarrow> (group \<times> action \<times> log_event list) option" where
  "decide_group now k name g =
     (let cs = candidates g in
      if cs = [] then Some (decide_all_down now k name g) else decide_some_up now k name g cs)"

definition decide_action ::
  "int \<Rightarrow> group_kind \<Rightarrow> rstr \<Rightarrow> engine_state \<Rightarrow> (engine_state \<times> action \<times> log_event list) option" where
  "decide_action now k name st =
     do {
       g \<leftarrow> get_group st k name;
       (g', a, lg) \<leftarrow> decide_group now k name g;
       Some (put_group st k name g', a, lg)
     }"

section \<open>Publication bookkeeping\<close>

definition nothing_to_publish :: "engine_state \<Rightarrow> bool" where
  "nothing_to_publish st \<longleftrightarrow> (\<forall>g \<in> set (hm_values (en_peers st)). g_published g = [])"

definition log_publish_error ::
  "rstr \<Rightarrow> rstr \<Rightarrow> rstr option \<Rightarrow> rstr \<times> log_event list" where
  "log_publish_error reported what err =
     (case err of
        Some e \<Rightarrow> if reported \<noteq> e then (e, [LogPublishFailed what e]) else (reported, [])
      | None \<Rightarrow> if reported \<noteq> [] then ([], [LogPublishRecovered what]) else (reported, []))"


section \<open>The counters of a transport\<close>

text \<open>
  The reference for the up/down state: a history of results, newest first, is up when its
  latest decisive run is one of \<open>up\<close> successes, down when it is one of \<open>down\<close> failures.
\<close>

definition run_of :: "bool \<Rightarrow> bool list \<Rightarrow> nat" where
  "run_of b h = length (takeWhile (\<lambda>x. x = b) h)"

fun history_state :: "int \<Rightarrow> int \<Rightarrow> bool list \<Rightarrow> tstate" where
  "history_state up down [] = Unknown"
| "history_state up down (b # h) =
     (if b \<and> up \<le> int (run_of True (b # h)) then Up
      else if \<not> b \<and> down \<le> int (run_of False (b # h)) then Down
      else history_state up down h)"

definition up_threshold :: "transport_runtime \<Rightarrow> int" where
  "up_threshold tr = threshold (p_up_threshold (t_probe (tr_spec tr))) 2"

definition down_threshold :: "transport_runtime \<Rightarrow> int" where
  "down_threshold tr = threshold (p_down_threshold (t_probe (tr_spec tr))) 3"

definition run_results :: "(int \<times> probe_result) list \<Rightarrow> transport_runtime \<Rightarrow> transport_runtime" where
  "run_results rs tr = foldl (\<lambda>tr (t, r). apply_result t r tr) tr rs"

definition healthy_history :: "(int \<times> probe_result) list \<Rightarrow> bool list" where
  "healthy_history rs = rev (map (pr_healthy \<circ> check_address \<circ> snd) rs)"

lemma run_of_simps [simp]:
  "run_of b [] = 0" "run_of b (b # h) = Suc (run_of b h)" "run_of b ((\<not> b) # h) = 0"
  "run_of True (False # h) = 0" "run_of False (True # h) = 0"
  by (simp_all add: run_of_def)

lemma threshold_pos: "0 < def \<Longrightarrow> 0 < threshold v def"
  by (simp add: threshold_def)

lemma thresholds_pos [simp]: "0 < up_threshold tr" "0 < down_threshold tr"
  by (simp_all add: up_threshold_def down_threshold_def threshold_pos)

lemma count_step:
  "0 < m \<Longrightarrow> m \<le> i64_max \<Longrightarrow> 0 \<le> n \<Longrightarrow> min (sat_add64 (min m n) 1) m = min m (n + 1)"
  by (auto simp: sat_add64_def i64_min_def i64_max_def min_def max_def)

lemma apply_result_fields [simp]:
  "tr_spec (apply_result t r tr) = tr_spec tr" "tr_id (apply_result t r tr) = tr_id tr"
  "tr_key (apply_result t r tr) = tr_key tr"
  "tr_probe_started (apply_result t r tr) = tr_probe_started tr"
  "tr_next_due (apply_result t r tr) = tr_next_due tr"
  by (simp_all add: apply_result_def record_address_def count_result_def Let_def)

lemma run_results_fields [simp]: "tr_spec (run_results rs tr) = tr_spec tr"
  by (induction rs rule: rev_induct) (auto simp: run_results_def)

lemma run_results_snoc: "run_results (rs @ [(t, r)]) tr = apply_result t r (run_results rs tr)"
  by (simp add: run_results_def)

lemma healthy_history_snoc:
  "healthy_history (rs @ [(t, r)]) = pr_healthy (check_address r) # healthy_history rs"
  by (simp add: healthy_history_def)

lemma apply_result_counters:
  "tr_state (apply_result t r tr) = tr_state (count_result t (check_address r) tr)"
  "tr_succ (apply_result t r tr) = tr_succ (count_result t (check_address r) tr)"
  "tr_fail (apply_result t r tr) = tr_fail (count_result t (check_address r) tr)"
  "tr_last_success (apply_result t r tr) = tr_last_success (count_result t (check_address r) tr)"
  by (simp_all add: apply_result_def record_address_def Let_def)

definition fresh_runtime :: "transport_runtime \<Rightarrow> bool" where
  "fresh_runtime tr \<longleftrightarrow> tr_state tr = Unknown \<and> tr_succ tr = 0 \<and> tr_fail tr = 0"

lemma count_result_alt:
  "pr_healthy r \<Longrightarrow> min (sat_add64 (tr_succ tr) 1) (up_threshold tr) = n \<Longrightarrow>
     count_result t r tr = tr\<lparr>tr_fail := 0, tr_succ := n,
       tr_state := (if tr_state tr \<noteq> Up \<and> n \<ge> up_threshold tr then Up else tr_state tr),
       tr_last_success := Some t\<rparr>"
  "\<not> pr_healthy r \<Longrightarrow> min (sat_add64 (tr_fail tr) 1) (down_threshold tr) = n \<Longrightarrow>
     count_result t r tr = tr\<lparr>tr_succ := 0, tr_fail := n,
       tr_state := (if tr_state tr \<noteq> Down \<and> n \<ge> down_threshold tr then Down else tr_state tr)\<rparr>"
  by (auto simp: count_result_def up_threshold_def down_threshold_def Let_def)

lemma run_results_thresholds [simp]:
  "up_threshold (run_results rs tr) = up_threshold tr"
  "down_threshold (run_results rs tr) = down_threshold tr"
  by (simp_all add: up_threshold_def down_threshold_def)

lemma run_results_history:
  assumes "fresh_runtime tr" and "up_threshold tr \<le> i64_max" and "down_threshold tr \<le> i64_max"
  shows "tr_state (run_results rs tr) =
      history_state (up_threshold tr) (down_threshold tr) (healthy_history rs) \<and>
    tr_succ (run_results rs tr) = min (up_threshold tr) (int (run_of True (healthy_history rs))) \<and>
    tr_fail (run_results rs tr) = min (down_threshold tr) (int (run_of False (healthy_history rs)))"
proof (induction rs rule: rev_induct)
  case Nil
  have "0 \<le> up_threshold tr" "0 \<le> down_threshold tr" by (simp_all add: order_less_imp_le)
  then show ?case using assms(1) by (simp add: run_results_def healthy_history_def fresh_runtime_def)
next
  case (snoc x rs)
  obtain t r where x: "x = (t, r)" by (cases x)
  let ?tr = "run_results rs tr" and ?h = "healthy_history rs"
  have pos: "0 \<le> up_threshold tr" "0 \<le> down_threshold tr" by (simp_all add: order_less_imp_le)
  show ?case
  proof (cases "pr_healthy (check_address r)")
    case True
    have "min (sat_add64 (tr_succ ?tr) 1) (up_threshold ?tr) =
        min (up_threshold tr) (int (run_of True ?h) + 1)"
      using snoc.IH count_step [of "up_threshold tr" "int (run_of True ?h)"] assms(2) by simp
    note c = count_result_alt(1) [OF True this]
    show ?thesis
      using snoc.IH pos True
      unfolding x run_results_snoc healthy_history_snoc apply_result_counters c by simp
  next
    case False
    have "min (sat_add64 (tr_fail ?tr) 1) (down_threshold ?tr) =
        min (down_threshold tr) (int (run_of False ?h) + 1)"
      using snoc.IH count_step [of "down_threshold tr" "int (run_of False ?h)"] assms(3) by simp
    note c = count_result_alt(2) [OF False this]
    show ?thesis
      using snoc.IH pos False
      unfolding x run_results_snoc healthy_history_snoc apply_result_counters c by simp
  qed
qed


section \<open>The selection as a function of the group\<close>

text \<open>
  The contract of the selection: among the transports that are up, the lowest priority
  number, the incumbent on a tie and the first declared otherwise; an incumbent that is up
  stays while its hold time runs.
\<close>

definition up_idxs :: "group \<Rightarrow> nat list" where
  "up_idxs g = filter (\<lambda>i. tr_state (g_transports g ! i) = Up) [0 ..< length (g_transports g)]"

definition prio :: "group \<Rightarrow> nat \<Rightarrow> int" where
  "prio g i = tr_priority (g_transports g ! i)"

definition best_priority :: "group \<Rightarrow> int" where
  "best_priority g = Min (prio g ` set (up_idxs g))"

definition first_best :: "group \<Rightarrow> nat" where
  "first_best g = hd (filter (\<lambda>i. prio g i = best_priority g) (up_idxs g))"

definition held :: "int \<Rightarrow> group \<Rightarrow> bool" where
  "held now g \<longleftrightarrow>
     now - (case g_winner_since g of Some t \<Rightarrow> t | None \<Rightarrow> now) < nanos_of_ms (max 0 (g_min_hold g))"

definition pick :: "int \<Rightarrow> group \<Rightarrow> nat" where
  "pick now g =
     (case g_winner g of
        Some w \<Rightarrow>
          if w \<in> set (up_idxs g) \<and> (prio g w = best_priority g \<or> held now g) then w else first_best g
      | None \<Rightarrow> first_best g)"

definition winner_in_range :: "group \<Rightarrow> bool" where
  "winner_in_range g \<longleftrightarrow> (\<forall>w. g_winner g = Some w \<longrightarrow> w < length (g_transports g))"

lemma enumerate_map: "enumerate n xs = map (\<lambda>i. (n + i, xs ! i)) [0 ..< length xs]"
  by (rule nth_equalityI) (simp_all add: nth_enumerate_eq)

lemma candidates_alt:
  "candidates g = sort_key cd_priority (map (\<lambda>i. \<lparr>cd_idx = i, cd_priority = prio g i\<rparr>) (up_idxs g))"
  by (simp add: candidates_def enumerate_map filter_map comp_def up_idxs_def prio_def)

lemma up_idxs_iff: "i \<in> set (up_idxs g) \<longleftrightarrow>
    i < length (g_transports g) \<and> tr_state (g_transports g ! i) = Up"
  by (auto simp: up_idxs_def)

lemma set_candidates:
  "set (candidates g) = (\<lambda>i. \<lparr>cd_idx = i, cd_priority = prio g i\<rparr>) ` set (up_idxs g)"
  by (simp add: candidates_alt)

lemma candidates_Nil: "candidates g = [] \<longleftrightarrow> up_idxs g = []"
proof -
  have "candidates g = [] \<longleftrightarrow> set (candidates g) = {}" by simp
  then show ?thesis by (simp add: set_candidates)
qed

lemma hd_sort_key_stable:
  assumes "xs \<noteq> []"
  shows "hd (sort_key f xs) = hd (filter (\<lambda>x. f x = Min (f ` set xs)) xs) \<and>
    f (hd (sort_key f xs)) = Min (f ` set xs)"
proof -
  let ?ys = "sort_key f xs" and ?m = "Min (f ` set xs)"
  have ne: "?ys \<noteq> []" using assms length_sort [of f xs] by (metis length_0_conv)
  then obtain y ys where ys: "?ys = y # ys" by (cases ?ys) auto
  have "sorted (map f (y # ys))" using sorted_sort_key [of f xs] ys by simp
  then have le: "\<forall>x \<in> set ?ys. f y \<le> f x" unfolding ys by auto
  have "f y = ?m"
  proof (rule Min_eqI [symmetric])
    show "f y \<in> f ` set xs" using ys set_sort [of f xs] by (metis image_eqI list.set_intros(1))
  qed (use le in auto)
  moreover have "filter (\<lambda>x. f x = ?m) ?ys = filter (\<lambda>x. f x = ?m) xs"
    by (rule sort_key_stable)
  ultimately show ?thesis using ys by (metis (mono_tags, lifting) filter.simps(2) list.sel(1))
qed

lemma hd_candidates:
  assumes "up_idxs g \<noteq> []"
  shows "cd_idx (hd (candidates g)) = first_best g \<and> cd_priority (hd (candidates g)) = best_priority g"
proof -
  let ?c = "\<lambda>i. \<lparr>cd_idx = i, cd_priority = prio g i\<rparr>"
  have m: "Min (cd_priority ` set (map ?c (up_idxs g))) = best_priority g"
    by (simp add: best_priority_def image_image)
  have "map ?c (up_idxs g) \<noteq> []" using assms by simp
  note H = hd_sort_key_stable [OF this, of cd_priority, unfolded m, folded candidates_alt]
  have ne: "filter (\<lambda>i. prio g i = best_priority g) (up_idxs g) \<noteq> []"
  proof -
    have "best_priority g \<in> prio g ` set (up_idxs g)"
      unfolding best_priority_def by (rule Min_in) (use assms in auto)
    then show ?thesis by (auto simp: filter_empty_conv)
  qed
  have "filter (\<lambda>x. cd_priority x = best_priority g) (map ?c (up_idxs g)) =
      map ?c (filter (\<lambda>i. prio g i = best_priority g) (up_idxs g))"
    by (simp add: filter_map comp_def)
  then have "hd (candidates g) = ?c (first_best g)"
    using H ne by (simp add: first_best_def hd_map)
  then have "cd_idx (hd (candidates g)) = first_best g" by simp
  with conjunct2 [OF H] show ?thesis by blast
qed

lemma first_best_in:
  assumes "up_idxs g \<noteq> []"
  shows "first_best g \<in> set (up_idxs g) \<and> prio g (first_best g) = best_priority g"
proof -
  have "hd (candidates g) \<in> set (candidates g)"
    using assms candidates_Nil by (metis hd_in_set)
  then show ?thesis using hd_candidates [OF assms] by (auto simp: set_candidates)
qed

lemma best_or_incumbent_alt:
  assumes "up_idxs g \<noteq> []"
  shows "best_or_incumbent (g_winner g) (candidates g) =
    (case g_winner g of
       Some w \<Rightarrow> if w \<in> set (up_idxs g) \<and> prio g w = best_priority g then w else first_best g
     | None \<Rightarrow> first_best g)"
  using hd_candidates [OF assms]
  by (auto simp: best_or_incumbent_def Let_def set_candidates split: option.splits)

lemma damped_choice_alt:
  assumes "up_idxs g \<noteq> []" and "winner_in_range g"
  shows "damped_choice now g (candidates g) = Some (pick now g, Some (pick now g) \<noteq> g_winner g)"
proof (cases "g_winner g")
  case None
  then show ?thesis using best_or_incumbent_alt [OF assms(1)] by (simp add: damped_choice_def pick_def)
next
  case (Some w)
  then have w: "w < length (g_transports g)" using assms(2) by (simp add: winner_in_range_def)
  have "w \<in> set (up_idxs g) \<longleftrightarrow> tr_state (g_transports g ! w) = Up" using w by (simp add: up_idxs_iff)
  moreover have "first_best g \<noteq> w" if "\<not> (w \<in> set (up_idxs g) \<and> prio g w = best_priority g)"
    using that first_best_in [OF assms(1)] by auto
  ultimately show ?thesis
    using best_or_incumbent_alt [OF assms(1)] w
    by (auto simp: Some damped_choice_def pick_def held_def Let_def)
qed

lemma pick_in: "up_idxs g \<noteq> [] \<Longrightarrow> pick now g \<in> set (up_idxs g)"
  using first_best_in [of g] by (auto simp: pick_def split: option.splits)

text \<open>The whole update of a group with a transport up, in terms of the choice.\<close>

definition drifted :: "group \<Rightarrow> nat \<Rightarrow> bool" where
  "drifted g w \<longleftrightarrow> g_kind g = Peer \<and> tr_address (g_transports g ! w) \<noteq> [] \<and>
     tr_address (g_transports g ! w) \<noteq> g_published g"

definition elected :: "int \<Rightarrow> group \<Rightarrow> group" where
  "elected now g =
     (let w = pick now g; changed = (Some w \<noteq> g_winner g) in
      g\<lparr>g_degraded := False, g_confirmed := tr_last_success (g_transports g ! w),
        g_winner := Some w,
        g_winner_since := (if changed then Some now else g_winner_since g),
        g_published := (if g_kind g = Peer \<and> (changed \<or> drifted g w)
                        then tr_address (g_transports g ! w) else g_published g)\<rparr>)"

lemma up_idxs_cong [simp]:
  "up_idxs (g\<lparr>g_degraded := b\<rparr>) = up_idxs g" "prio (g\<lparr>g_degraded := b\<rparr>) = prio g"
  "candidates (g\<lparr>g_degraded := b\<rparr>) = candidates g"
  "winner_in_range (g\<lparr>g_degraded := b\<rparr>) = winner_in_range g"
  by (simp_all add: up_idxs_def prio_def fun_eq_iff candidates_def winner_in_range_def)

lemma pick_cong [simp]: "pick now (g\<lparr>g_degraded := b\<rparr>) = pick now g"
proof -
  have "first_best (g\<lparr>g_degraded := b\<rparr>) = first_best g" "best_priority (g\<lparr>g_degraded := b\<rparr>) = best_priority g"
    by (simp_all add: first_best_def best_priority_def)
  moreover have "held now (g\<lparr>g_degraded := b\<rparr>) = held now g" by (simp add: held_def)
  ultimately show ?thesis by (auto simp: pick_def split: option.split)
qed

definition elected_action :: "int \<Rightarrow> group \<Rightarrow> action" where
  "elected_action now g =
     (case g_kind g of
        Peer \<Rightarrow> PublishPeers (Some (pick now g) = g_winner g \<and> \<not> drifted g (pick now g))
      | Uplink \<Rightarrow> uplink_action (elected now g))"

definition elected_log :: "int \<Rightarrow> rstr \<Rightarrow> group \<Rightarrow> log_event list" where
  "elected_log now name g =
     (if g_degraded g then [LogRecovered (group_label (g_kind g) name)] else []) @
     (if Some (pick now g) \<noteq> g_winner g
      then [LogWinnerChange (group_label (g_kind g) name) (tr_id (g_transports g ! pick now g))] else [])"

lemma decide_group_up:
  assumes "up_idxs g \<noteq> []" and "winner_in_range g"
  shows "decide_group now (g_kind g) name g =
    Some (elected now g, elected_action now g, elected_log now name g)"
proof -
  let ?w = "pick now g"
  have w: "?w < length (g_transports g)" using pick_in [OF assms(1)] by (simp add: up_idxs_iff)
  have d: "damped_choice now (g\<lparr>g_degraded := False\<rparr>) (candidates g) =
      Some (?w, Some ?w \<noteq> g_winner g)"
    using damped_choice_alt [of "g\<lparr>g_degraded := False\<rparr>" now] assms by simp
  have ne: "candidates g \<noteq> []" using assms(1) by (simp add: candidates_Nil)
  have same: "g\<lparr>g_degraded := a, g_confirmed := c, g_winner := Some v\<rparr> =
      g\<lparr>g_degraded := a, g_confirmed := c\<rparr>" if "g_winner g = Some v" for a c v
    using that by (cases g) simp
  show ?thesis
    using w ne
    by (cases "g_kind g"; cases "Some ?w = g_winner g"; cases "g_winner g")
      (auto simp: decide_group_def decide_some_up_def d elected_def elected_action_def elected_log_def
        drifted_def Let_def same)
qed

lemma decide_group_down:
  "up_idxs g = [] \<Longrightarrow> decide_group now k name g = Some (decide_all_down now k name g)"
  by (simp add: decide_group_def candidates_Nil)


section \<open>All transports down\<close>

lemma decide_all_down_winner:
  "fst (decide_all_down now k name g) \<in>
     {g\<lparr>g_degraded := True\<rparr>, g\<lparr>g_degraded := True, g_winner := None, g_published := []\<rparr>}"
  by (auto simp: decide_all_down_def Let_def)

text \<open>A run of ticks at given instants while no transport is up, with what it logs.\<close>

fun down_ticks ::
  "group_kind \<Rightarrow> rstr \<Rightarrow> int list \<Rightarrow> group \<Rightarrow> group \<times> log_event list" where
  "down_ticks k name [] g = (g, [])"
| "down_ticks k name (t # ts) g =
     (case decide_all_down t k name g of
        (g', _, lg) \<Rightarrow> (case down_ticks k name ts g' of (g'', lg') \<Rightarrow> (g'', lg @ lg')))"

definition is_withdrawal :: "log_event \<Rightarrow> bool" where
  "is_withdrawal l \<longleftrightarrow> (case l of LogWithdrawn _ _ _ _ \<Rightarrow> True | _ \<Rightarrow> False)"

definition retained :: "group \<Rightarrow> bool" where
  "retained g \<longleftrightarrow> g_on_all_down g = ON_ALL_DOWN_LAST_KNOWN_GOOD \<and> g_published g \<noteq> []"

lemma decide_all_down_retained:
  assumes "retained g"
  shows "decide_all_down now Peer name g =
    (let lg = (if g_degraded g then [] else [LogDegraded (group_label Peer name)]);
         verdict = staleness (g_max_age g) (g_confirmed g) now in
     if verdict = Fresh then (g\<lparr>g_degraded := True\<rparr>, PublishPeers True, lg)
     else (g\<lparr>g_degraded := True, g_winner := None, g_published := []\<rparr>, PublishPeers False,
           lg @ [LogWithdrawn (group_label Peer name) (g_published g) verdict
                   (case g_max_age g of Some v \<Rightarrow> v | None \<Rightarrow> 0)]))"
  using assms by (simp add: decide_all_down_def retained_def Let_def)

lemma decide_all_down_withdrawn:
  assumes "g_published g = []" and "g_winner g = None"
  shows "decide_all_down now Peer name g =
    (g\<lparr>g_degraded := True\<rparr>, PublishPeers True,
     if g_degraded g then [] else [LogDegraded (group_label Peer name)])"
  using assms by (simp add: decide_all_down_def Let_def)

lemma is_withdrawal_degraded [simp]:
  "filter is_withdrawal (if b then [] else [LogDegraded l]) = []"
  "\<not> is_withdrawal (LogDegraded l)" "is_withdrawal (LogWithdrawn a b' c d)"
  by (simp_all add: is_withdrawal_def)

lemma down_ticks_withdrawn:
  "g_published g = [] \<Longrightarrow> g_winner g = None \<Longrightarrow>
     g_published (fst (down_ticks Peer name ts g)) = [] \<and>
     g_winner (fst (down_ticks Peer name ts g)) = None \<and>
     filter is_withdrawal (snd (down_ticks Peer name ts g)) = []"
proof (induction ts arbitrary: g)
  case (Cons t ts)
  then show ?case
    using Cons.IH [of "g\<lparr>g_degraded := True\<rparr>"] by (simp add: decide_all_down_withdrawn split_beta)
qed simp

definition too_old :: "group \<Rightarrow> int \<Rightarrow> bool" where
  "too_old g now \<longleftrightarrow> staleness (g_max_age g) (g_confirmed g) now \<noteq> Fresh"

lemma down_ticks_retained:
  assumes "retained g"
  shows "(if \<exists>t \<in> set ts. too_old g t
     then g_published (fst (down_ticks Peer name ts g)) = [] \<and>
          g_winner (fst (down_ticks Peer name ts g)) = None \<and>
          length (filter is_withdrawal (snd (down_ticks Peer name ts g))) = 1
     else g_published (fst (down_ticks Peer name ts g)) = g_published g \<and>
          g_winner (fst (down_ticks Peer name ts g)) = g_winner g \<and>
          filter is_withdrawal (snd (down_ticks Peer name ts g)) = []) \<and>
    (ts \<noteq> [] \<longrightarrow> g_degraded (fst (down_ticks Peer name ts g)))"
  using assms
proof (induction ts arbitrary: g)
  case (Cons t ts)
  let ?lg = "if g_degraded g then [] else [LogDegraded (group_label Peer name)]"
  show ?case
  proof (cases "too_old g t")
    case True
    let ?g = "g\<lparr>g_degraded := True, g_winner := None, g_published := []\<rparr>"
    have "g_degraded (fst (down_ticks Peer name ts ?g))"
    proof -
      have "g_degraded h \<Longrightarrow> g_degraded (fst (down_ticks Peer name ts h))" for h
      proof (induction ts arbitrary: h)
        case (Cons t ts)
        have "g_degraded (fst (decide_all_down t Peer name h))"
          using decide_all_down_winner [of t Peer name h] by auto
        from Cons.IH [OF this] show ?case by (simp add: split_beta)
      qed simp
      then show ?thesis by simp
    qed
    then show ?thesis
      using True down_ticks_withdrawn [of ?g name ts]
      by (simp add: decide_all_down_retained [OF Cons.prems] too_old_def Let_def split_beta)
  next
    case False
    let ?g = "g\<lparr>g_degraded := True\<rparr>"
    have g: "retained ?g" "too_old ?g = too_old g"
      using Cons.prems by (auto simp: retained_def too_old_def fun_eq_iff)
    have d: "decide_all_down t Peer name g = (?g, PublishPeers True, ?lg)"
      using False by (simp add: decide_all_down_retained [OF Cons.prems] too_old_def Let_def)
    have deg: "g_degraded (fst (down_ticks Peer name ts ?g))"
      using Cons.IH [OF g(1)] by (cases ts) simp_all
    show ?thesis
      using Cons.IH [OF g(1)] False deg by (simp add: d g(2) split_beta)
  qed
qed simp

section \<open>The ranking of an uplink\<close>

fun rank_idxs :: "group \<Rightarrow> rstr list \<Rightarrow> nat list \<Rightarrow> nat list" where
  "rank_idxs g seen [] = []"
| "rank_idxs g seen (i # is) =
     (let ifc = t_interface (tr_spec (g_transports g ! i)) in
      if ifc = [] \<or> ifc \<in> set seen then rank_idxs g seen is
      else i # rank_idxs g (seen @ [ifc]) is)"

definition iface_of :: "group \<Rightarrow> nat \<Rightarrow> rstr" where
  "iface_of g i = t_interface (tr_spec (g_transports g ! i))"

definition rank_entry :: "group \<Rightarrow> nat \<Rightarrow> ranked_interface" where
  "rank_entry g i = \<lparr>ri_interface = iface_of g i, ri_healthy = (tr_state (g_transports g ! i) = Up)\<rparr>"

lemma rank_from_idxs: "rank_from g seen is = map (rank_entry g) (rank_idxs g seen is)"
  by (induction g seen "is" rule: rank_from.induct) (auto simp: Let_def rank_entry_def iface_of_def)

lemma rank_idxs_ifaces:
  "distinct (map (iface_of g) (rank_idxs g seen is)) \<and>
   set (map (iface_of g) (rank_idxs g seen is)) = iface_of g ` set is - insert [] (set seen)"
proof (induction g seen "is" rule: rank_idxs.induct)
  case (2 g seen i "is")
  then show ?case by (auto simp: Let_def iface_of_def)
qed simp

lemma rank_idxs_subset: "set (rank_idxs g seen is) \<subseteq> set is"
  by (induction g seen "is" rule: rank_idxs.induct) (auto simp: Let_def)

lemma rank_idxs_sorted_wrt:
  "sorted_wrt P is \<Longrightarrow> sorted_wrt P (rank_idxs g seen is)"
proof (induction g seen "is" rule: rank_idxs.induct)
  case (2 g seen i "is")
  then show ?case using rank_idxs_subset by (fastforce simp: Let_def)
qed simp

lemma set_uplink_order:
  "w < length (g_transports g) \<Longrightarrow> set (uplink_order g w) = {..< length (g_transports g)}"
  by (auto simp: uplink_order_def)

lemma uplink_ranking_alt:
  assumes "g_winner g = Some w" and "g_route_metric g" and "w < length (g_transports g)"
    and "iface_of g w \<noteq> []"
  obtains js where "uplink_ranking g = rank_entry g w # map (rank_entry g) js"
    "distinct (map (iface_of g) (w # js))"
    "set (map (iface_of g) (w # js)) = iface_of g ` {..< length (g_transports g)} - {[]}"
    "sorted_wrt (\<lambda>i j. rank_key g i \<le> rank_key g j) js"
proof -
  let ?rest = "sort_key (rank_key g) (filter (\<lambda>i. i \<noteq> w) [0 ..< length (g_transports g)])"
  let ?js = "rank_idxs g [iface_of g w] ?rest"
  have idxs: "rank_idxs g [] (uplink_order g w) = w # ?js"
    using assms(4) by (simp add: uplink_order_def iface_of_def)
  have "sorted (map (rank_key g) ?rest)" by (rule sorted_sort_key)
  then have "sorted_wrt (\<lambda>i j. rank_key g i \<le> rank_key g j) ?rest" by (simp add: sorted_map)
  from rank_idxs_sorted_wrt [OF this] have "sorted_wrt (\<lambda>i j. rank_key g i \<le> rank_key g j) ?js" .
  moreover have "uplink_ranking g = rank_entry g w # map (rank_entry g) ?js"
    using assms idxs by (simp add: uplink_ranking_def rank_from_idxs)
  moreover note rank_idxs_ifaces [of g "[]" "uplink_order g w"]
  ultimately show ?thesis
    using that [of ?js] assms(3) unfolding idxs by (simp add: set_uplink_order)
qed


section \<open>Properties\<close>

text \<open>
  C1.  TF-1, the selection: with a transport up, \<open>decide_action_locked\<close> does not panic and
  names the winner that the contract gives: the lowest priority among the transports that
  are up, the incumbent on a tie, the first declared otherwise, except that an incumbent
  that is up stays until its hold time has run.  It becomes the winner at the instant of
  the decision, the group is healthy again, and the age of what is published is that of
  the winner's own last success.
\<close>

theorem winner_selection:
  assumes "up_idxs g \<noteq> []" and "winner_in_range g"
  shows "\<exists>g' a lg. decide_group now (g_kind g) name g = Some (g', a, lg) \<and>
    g_winner g' = Some (pick now g) \<and> \<not> g_degraded g' \<and>
    g_confirmed g' = tr_last_success (g_transports g ! pick now g) \<and>
    g_winner_since g' = (if Some (pick now g) = g_winner g then g_winner_since g else Some now)"
  using decide_group_up [OF assms] by (simp add: elected_def Let_def)

text \<open>A group of three transports for the witnesses.\<close>

definition demo_runtime :: "rstr \<Rightarrow> rstr \<Rightarrow> int \<Rightarrow> tstate \<Rightarrow> int \<Rightarrow> transport_runtime" where
  "demo_runtime ifc addr pri s t =
     (new_runtime Peer (lit ''h'') 0 (demo_transport ifc addr pri))\<lparr>tr_state := s,
        tr_address := addr, tr_last_success := Some t\<rparr>"

definition demo_group :: group where
  "demo_group = (new_peer_group (lit ''h'')
     \<lparr>pe_hostnames = [lit ''h''], pe_transports = [], pe_min_hold_ms = 10000,
      pe_on_all_down = ON_ALL_DOWN_LAST_KNOWN_GOOD, pe_max_age_sec = Some 20\<rparr>)
     \<lparr>g_transports := [demo_runtime (lit ''lan'') (lit ''10.0.0.1'') 10 Up 5,
                       demo_runtime (lit ''vpn'') (lit ''10.8.0.1'') 20 Up 6,
                       demo_runtime (lit ''alt'') (lit ''10.9.0.1'') 10 Down 0],
      g_winner := Some 1, g_winner_since := Some 0, g_published := lit ''10.8.0.1'',
      g_confirmed := Some 6\<rparr>"

lemma demo_transports: "g_transports demo_group = [demo_runtime (lit ''lan'') (lit ''10.0.0.1'') 10 Up 5,
     demo_runtime (lit ''vpn'') (lit ''10.8.0.1'') 20 Up 6,
     demo_runtime (lit ''alt'') (lit ''10.9.0.1'') 10 Down 0]"
  by (simp add: demo_group_def)

lemma demo_up: "up_idxs demo_group = [0, 1]"
  by (simp add: up_idxs_def demo_transports demo_runtime_def upt_rec)

lemma demo_group_fields: "g_kind demo_group = Peer" "g_winner demo_group = Some 1"
  "g_winner_since demo_group = Some 0" "g_min_hold demo_group = 10000"
  "g_published demo_group = lit ''10.8.0.1''" "g_max_age demo_group = Some 20"
  "g_confirmed demo_group = Some 6" "g_on_all_down demo_group = ON_ALL_DOWN_LAST_KNOWN_GOOD"
  by (simp_all add: demo_group_def new_peer_group_def)

lemma demo_prio: "prio demo_group 0 = 10" "prio demo_group (Suc 0) = 20"
  by (simp_all add: prio_def demo_transports demo_runtime_def new_runtime_def tr_priority_def
      demo_transport_def)

lemma demo_in_range: "winner_in_range demo_group"
  by (simp add: winner_in_range_def demo_group_fields demo_transports)

lemma demo_pick: "pick 9000000000 demo_group = 1" "pick 10000000000 demo_group = 0"
  by (simp_all add: pick_def demo_group_fields demo_up demo_prio held_def nanos_of_ms_def
      best_priority_def first_best_def)

theorem winner_selection_witness:
  "\<exists>g' a lg. decide_group 9000000000 Peer (lit ''h'') demo_group = Some (g', a, lg) \<and>
     g_winner g' = Some 1 \<and> g_confirmed g' = Some 6"
  using winner_selection [of demo_group 9000000000 "lit ''h''"] demo_up demo_in_range
  by (auto simp: demo_group_fields demo_pick demo_transports demo_runtime_def)

text \<open>
  C19.  The damping: a decision that takes the place of a transport that is still up comes
  only after the hold time, and only for a strictly better priority; and when the
  incumbent is not up the decision names the best transport at once.
\<close>

theorem winner_not_flapping:
  assumes "up_idxs g \<noteq> []" and "winner_in_range g" and "g_winner g = Some w"
    and "decide_group now (g_kind g) name g = Some (g', a, lg)"
  shows "(w \<in> set (up_idxs g) \<and> g_winner g' \<noteq> Some w \<longrightarrow>
      \<not> held now g \<and> prio g (the (g_winner g')) < prio g w) \<and>
    (w \<notin> set (up_idxs g) \<longrightarrow> g_winner g' = Some (first_best g) \<and> g_winner_since g' = Some now)"
proof -
  from winner_selection [OF assms(1,2), of now name] assms(4)
  have w': "g_winner g' = Some (pick now g)"
    "g_winner_since g' = (if Some (pick now g) = g_winner g then g_winner_since g else Some now)" by auto
  note fb = first_best_in [OF assms(1)]
  have "best_priority g \<le> prio g w" if "w \<in> set (up_idxs g)"
    using that by (simp add: best_priority_def)
  then show ?thesis
    using w' fb assms(3) by (auto simp: pick_def split: if_splits)
qed

theorem winner_not_flapping_witness:
  "\<exists>g' a lg. decide_group 10000000000 Peer (lit ''h'') demo_group = Some (g', a, lg) \<and>
     g_winner g' = Some 0 \<and> \<not> held 10000000000 demo_group \<and> prio demo_group 0 < prio demo_group 1"
proof -
  obtain g' a lg where d: "decide_group 10000000000 (g_kind demo_group) (lit ''h'') demo_group = Some (g', a, lg)"
    and w: "g_winner g' = Some 0"
    using decide_group_up [of demo_group 10000000000 "lit ''h''"] demo_up demo_in_range
    by (auto simp: elected_def Let_def demo_pick)
  have "\<not> held 10000000000 demo_group \<and> prio demo_group (the (g_winner g')) < prio demo_group 1"
    using winner_not_flapping [OF _ demo_in_range demo_group_fields(2) d] demo_up w by simp
  with d w show ?thesis by (auto simp: demo_group_fields)
qed

text \<open>
  C2.  STALE-2, live: while every transport of a last-known-good peer is down, the address
  stays published until the first tick at which its confirmation is older than the bound,
  or unknown; from then on it is withdrawn, with the winner, and exactly one withdrawal is
  logged however many ticks follow; the group stays degraded.
\<close>

theorem last_known_good_expires:
  assumes "g_on_all_down g = ON_ALL_DOWN_LAST_KNOWN_GOOD" and "g_published g \<noteq> []"
    and "g_max_age g = Some v" and "0 < v" and "ts \<noteq> []"
  shows "(if \<exists>t \<in> set ts. (case g_confirmed g of None \<Rightarrow> True | Some c \<Rightarrow> t - c > nanos_of_secs v)
     then g_published (fst (down_ticks Peer name ts g)) = [] \<and>
          g_winner (fst (down_ticks Peer name ts g)) = None \<and>
          length (filter is_withdrawal (snd (down_ticks Peer name ts g))) = 1
     else g_published (fst (down_ticks Peer name ts g)) = g_published g \<and>
          g_winner (fst (down_ticks Peer name ts g)) = g_winner g \<and>
          filter is_withdrawal (snd (down_ticks Peer name ts g)) = []) \<and>
    g_degraded (fst (down_ticks Peer name ts g))"
proof -
  have "too_old g t = (case g_confirmed g of None \<Rightarrow> True | Some c \<Rightarrow> t - c > nanos_of_secs v)" for t
    using assms(3,4) by (simp add: too_old_def staleness_def Let_def split: option.split)
  moreover have "retained g" using assms(1,2) by (simp add: retained_def)
  ultimately show ?thesis using down_ticks_retained [of g ts name] assms(5) by simp
qed

theorem last_known_good_expires_witness:
  "g_published (fst (down_ticks Peer (lit ''h'') [10000000000, 20000000007, 30000000000] demo_group)) = [] \<and>
   length (filter is_withdrawal (snd (down_ticks Peer (lit ''h'')
     [10000000000, 20000000007, 30000000000] demo_group))) = 1"
  using last_known_good_expires [of demo_group 20 "[10000000000, 20000000007, 30000000000]" "lit ''h''"]
  by (simp add: demo_group_fields nanos_of_secs_def)

text \<open>
  C13.  TF-3, the ranking: the winner leads; behind it stands every other interface of the
  group once, the down ones too, those that are up before those that are not and each part
  by priority then declaration; an interface shared by two transports stands where the
  better of them does.
\<close>

theorem uplink_ranking_complete:
  assumes "g_winner g = Some w" and "g_route_metric g" and "w < length (g_transports g)"
    and "iface_of g w \<noteq> []"
  shows "\<exists>js. uplink_ranking g = rank_entry g w # map (rank_entry g) js \<and>
    distinct (map ri_interface (uplink_ranking g)) \<and>
    set (map ri_interface (uplink_ranking g)) = iface_of g ` {..< length (g_transports g)} - {[]} \<and>
    sorted_wrt (\<lambda>i j. rank_key g i \<le> rank_key g j) js \<and>
    sorted_wrt (\<lambda>a b. ri_healthy b \<longrightarrow> ri_healthy a) (tl (uplink_ranking g))"
proof -
  obtain js where js: "uplink_ranking g = rank_entry g w # map (rank_entry g) js"
    "distinct (map (iface_of g) (w # js))"
    "set (map (iface_of g) (w # js)) = iface_of g ` {..< length (g_transports g)} - {[]}"
    "sorted_wrt (\<lambda>i j. rank_key g i \<le> rank_key g j) js"
    using uplink_ranking_alt [OF assms] by metis
  have m: "map ri_interface (uplink_ranking g) = map (iface_of g) (w # js)"
    by (simp add: js(1) rank_entry_def comp_def)
  have "sorted_wrt (\<lambda>i j. ri_healthy (rank_entry g j) \<longrightarrow> ri_healthy (rank_entry g i)) js"
    by (rule sorted_wrt_mono_rel [OF _ js(4)])
      (auto simp: rank_key_def rank_entry_def Let_def less_eq_prod_def less_prod_def le_bool_def less_bool_def)
  then have "sorted_wrt (\<lambda>a b. ri_healthy b \<longrightarrow> ri_healthy a) (tl (uplink_ranking g))"
    by (simp add: js(1) sorted_wrt_map)
  then show ?thesis unfolding m using js by blast
qed

definition demo_uplink :: group where
  "demo_uplink = demo_group\<lparr>g_kind := Uplink, g_route_metric := True\<rparr>"

theorem uplink_ranking_complete_witness:
  "set (map ri_interface (uplink_ranking demo_uplink)) = {lit ''lan'', lit ''vpn'', lit ''alt''}"
proof -
  have t: "g_transports demo_uplink = g_transports demo_group" by (simp add: demo_uplink_def)
  have i: "iface_of demo_uplink 0 = lit ''lan''" "iface_of demo_uplink (Suc 0) = lit ''vpn''"
    "iface_of demo_uplink (Suc (Suc 0)) = lit ''alt''"
    by (simp_all add: iface_of_def t demo_transports demo_runtime_def new_runtime_def demo_transport_def)
  have "\<exists>js. uplink_ranking demo_uplink = rank_entry demo_uplink 1 # map (rank_entry demo_uplink) js \<and>
      distinct (map ri_interface (uplink_ranking demo_uplink)) \<and>
      set (map ri_interface (uplink_ranking demo_uplink)) =
        iface_of demo_uplink ` {..< length (g_transports demo_uplink)} - {[]} \<and>
      sorted_wrt (\<lambda>i j. rank_key demo_uplink i \<le> rank_key demo_uplink j) js \<and>
      sorted_wrt (\<lambda>a b. ri_healthy b \<longrightarrow> ri_healthy a) (tl (uplink_ranking demo_uplink))"
    by (rule uplink_ranking_complete)
      (simp_all add: demo_uplink_def demo_group_fields t [unfolded demo_uplink_def] demo_transports
        i [unfolded demo_uplink_def])
  then show ?thesis by (auto simp: t demo_transports lessThan_Suc i)
qed


text \<open>
  C22.  The up/down state machine: from a fresh start, after any sequence of probe results,
  the state is that of the latest run of enough equal results, and the two counters are
  the lengths of the current runs, capped at the thresholds.  A result with an address
  that is no IP literal counts as a failure.
\<close>

theorem probe_state_follows_runs:
  assumes "fresh_runtime tr" and "up_threshold tr \<le> i64_max" and "down_threshold tr \<le> i64_max"
  shows "tr_state (run_results rs tr) =
      history_state (up_threshold tr) (down_threshold tr) (healthy_history rs) \<and>
    tr_succ (run_results rs tr) = min (up_threshold tr) (int (run_of True (healthy_history rs))) \<and>
    tr_fail (run_results rs tr) = min (down_threshold tr) (int (run_of False (healthy_history rs)))"
  using assms by (rule run_results_history)

definition ok_result :: probe_result where
  "ok_result = \<lparr>pr_healthy = True, pr_address = [], pr_detail = []\<rparr>"

definition bad_result :: probe_result where
  "bad_result = \<lparr>pr_healthy = False, pr_address = [], pr_detail = []\<rparr>"

theorem probe_state_follows_runs_witness:
  "tr_state (run_results [(1, ok_result), (2, ok_result), (3, bad_result), (4, bad_result)]
     (new_runtime Peer (lit ''h'') 0 (demo_transport (lit ''lan'') [] 1))) = Up"
proof -
  let ?tr = "new_runtime Peer (lit ''h'') 0 (demo_transport (lit ''lan'') [] 1)"
  have th: "up_threshold ?tr = 2" "down_threshold ?tr = 3"
    by (simp_all add: up_threshold_def down_threshold_def threshold_def new_runtime_def
        demo_transport_def demo_probe_def)
  have "fresh_runtime ?tr" by (simp add: fresh_runtime_def new_runtime_def)
  from probe_state_follows_runs [OF this] show ?thesis
    by (simp add: th i64_max_def healthy_history_def ok_result_def bad_result_def check_address_def
        run_of_def)
qed

text \<open>
  What a probe may commit: a result that is not healthy, or whose address is no IP
  literal, changes neither the time of the last success nor the address of a transport,
  except that an empty address is filled in with the declared one; and an address that is
  an IP literal, or the declared one, or empty stays one of these.
\<close>

lemma unhealthy_result_commits_nothing:
  "(\<not> pr_healthy (check_address r) \<longrightarrow>
      tr_last_success (apply_result t r tr) = tr_last_success tr \<and>
      tr_address (apply_result t r tr) =
        (if tr_address tr = [] then t_address (tr_spec tr) else tr_address tr)) \<and>
   (tr_address tr \<in> {[], t_address (tr_spec tr)} \<or> is_ip_literal (tr_address tr) \<longrightarrow>
      tr_address (apply_result t r tr) \<in> {[], t_address (tr_spec tr)} \<or>
      is_ip_literal (tr_address (apply_result t r tr)))"
  by (auto simp: apply_result_def record_address_def count_result_def check_address_def Let_def)

theorem unhealthy_result_commits_nothing_witness:
  "tr_address (apply_result 7 (bad_result\<lparr>pr_address := lit ''10.0.0.9''\<rparr>)
     (demo_runtime (lit ''lan'') (lit ''10.0.0.1'') 10 Up 5)) = lit ''10.0.0.1''"
  using unhealthy_result_commits_nothing [of "bad_result\<lparr>pr_address := lit ''10.0.0.9''\<rparr>" 7
      "demo_runtime (lit ''lan'') (lit ''10.0.0.1'') 10 Up 5"]
  by (simp add: bad_result_def check_address_def demo_runtime_def)

end
