(* ===== verification/Persist.thy ===== *)
theory Persist
  imports Engine
begin

text \<open>
  \<open>src/engine/state.rs\<close>: the state file.  \<open>dump\<close> is what is saved of the engine, \<open>restore\<close>
  what a new engine takes over from it.  \<open>serde_json\<close> and the file are parameters of
  \<open>load_state\<close>; \<open>save_state\<close> is in \<open>Store\<close>.  A transport is matched by its stable key, a winner by
  the key of its transport; everything that is not matched starts cold.
\<close>

section \<open>Definitions\<close>

text \<open>
  The three structs of the file over the type of its times: \<open>int\<close> in memory, and text in
  what is given to \<open>serde_json\<close> and taken from it (theory \<open>Store\<close>).
\<close>

record 't stored_transport =
  pt_ident :: rstr
  pt_state :: rstr
  pt_succ :: int
  pt_fail :: int
  pt_address :: rstr
  pt_last_success :: "'t option"

record 't stored_group =
  pg_winner_id :: rstr
  pg_winner_since :: "'t option"
  pg_confirmed :: "'t option"
  pg_degraded :: bool
  pg_published :: rstr
  pg_transports :: "'t stored_transport list"

record 't stored_state =
  ps_peers :: "'t stored_group hmap"
  ps_uplinks :: "'t stored_group hmap"

type_synonym persisted_transport = "int stored_transport"
type_synonym persisted_group = "int stored_group"
type_synonym persisted_state = "int stored_state"

subsection \<open>Saving\<close>

definition dump_transport :: "transport_runtime \<Rightarrow> persisted_transport" where
  "dump_transport tr =
     \<lparr>pt_ident = tr_key tr, pt_state = state_str (tr_state tr), pt_succ = tr_succ tr,
      pt_fail = tr_fail tr, pt_address = tr_address tr, pt_last_success = tr_last_success tr\<rparr>"

definition dump_group :: "group \<Rightarrow> persisted_group option" where
  "dump_group g =
     do {
       wid \<leftarrow> (case g_winner g of
                 None \<Rightarrow> Some []
               | Some w \<Rightarrow> map_option tr_key (nth_opt (g_transports g) w));
       Some \<lparr>pg_winner_id = wid, pg_winner_since = g_winner_since g, pg_confirmed = g_confirmed g,
         pg_degraded = g_degraded g, pg_published = g_published g,
         pg_transports = map dump_transport (g_transports g)\<rparr>
     }"

fun dump_groups :: "group hmap \<Rightarrow> persisted_group hmap option" where
  "dump_groups [] = Some []"
| "dump_groups ((n, g) # gs) =
     do { pg \<leftarrow> dump_group g; pgs \<leftarrow> dump_groups gs; Some ((n, pg) # pgs) }"

definition dump :: "engine_state \<Rightarrow> persisted_state option" where
  "dump st =
     do {
       ps \<leftarrow> dump_groups (en_peers st);
       us \<leftarrow> dump_groups (en_uplinks st);
       Some \<lparr>ps_peers = ps, ps_uplinks = us\<rparr>
     }"

subsection \<open>Restoring\<close>

definition state_of_str :: "rstr \<Rightarrow> tstate" where
  "state_of_str s = (if s = lit ''up'' then Up else if s = lit ''down'' then Down else Unknown)"

definition expire_restored ::
  "rstr \<Rightarrow> int \<Rightarrow> group \<Rightarrow> group \<times> log_event list" where
  "expire_restored name now g =
     (if g_kind g \<noteq> Peer \<or> g_on_all_down g \<noteq> ON_ALL_DOWN_LAST_KNOWN_GOOD \<or> g_published g = []
      then (g, [])
      else
        (let verdict = staleness (g_max_age g) (g_confirmed g) now in
         if verdict = Fresh then (g, [])
         else (g\<lparr>g_published := [], g_winner := None\<rparr>,
               [LogWithdrawnOnRestore name (g_published g) verdict
                  (case g_max_age g of Some v \<Rightarrow> v | None \<Rightarrow> 0)])))"

text \<open>The map \<open>saved_by_id\<close>: of two entries with an id, the later one stands.\<close>

definition saved_by_id :: "persisted_transport list \<Rightarrow> rstr \<Rightarrow> persisted_transport option" where
  "saved_by_id pts key = find (\<lambda>pt. pt_ident pt \<noteq> [] \<and> pt_ident pt = key) (rev pts)"

definition static_changed :: "transport_runtime \<Rightarrow> persisted_transport \<Rightarrow> bool" where
  "static_changed tr pt \<longleftrightarrow>
     t_address (tr_spec tr) \<noteq> [] \<and> pt_address pt \<noteq> [] \<and> t_address (tr_spec tr) \<noteq> pt_address pt"

definition restore_transport ::
  "persisted_transport list \<Rightarrow> transport_runtime \<Rightarrow> transport_runtime" where
  "restore_transport pts tr =
     (case saved_by_id pts (tr_key tr) of
        None \<Rightarrow> tr
      | Some pt \<Rightarrow>
          (let tr1 = tr\<lparr>tr_state := state_of_str (pt_state pt), tr_succ := pt_succ pt,
                        tr_fail := pt_fail pt, tr_last_success := pt_last_success pt\<rparr> in
           if t_address (tr_spec tr) = [] then tr1\<lparr>tr_address := pt_address pt\<rparr>
           else if static_changed tr pt then
             tr1\<lparr>tr_address := t_address (tr_spec tr), tr_state := Unknown, tr_succ := 0,
                 tr_fail := 0, tr_detail := []\<rparr>
           else tr1\<lparr>tr_address := t_address (tr_spec tr)\<rparr>))"

definition winner_static_changed :: "persisted_transport list \<Rightarrow> group \<Rightarrow> bool" where
  "winner_static_changed pts g \<longleftrightarrow>
     (\<exists>i < length (g_transports g). g_winner g = Some i \<and>
        (case saved_by_id pts (tr_key (g_transports g ! i)) of
           None \<Rightarrow> False
         | Some pt \<Rightarrow> static_changed (g_transports g ! i) pt))"

definition restore_group ::
  "rstr \<Rightarrow> int \<Rightarrow> persisted_group \<Rightarrow> group \<Rightarrow> group \<times> log_event list" where
  "restore_group name now pg g0 =
     (let g1 = g0\<lparr>g_winner := (if pg_winner_id pg = [] then None
                               else position (\<lambda>tr. tr_key tr = pg_winner_id pg) (g_transports g0)),
                  g_winner_since := pg_winner_since pg, g_confirmed := pg_confirmed pg,
                  g_degraded := pg_degraded pg, g_published := pg_published pg\<rparr>;
          (g2, lg) = expire_restored name now g1;
          changed = winner_static_changed (pg_transports pg) g2;
          g3 = g2\<lparr>g_transports := map (restore_transport (pg_transports pg)) (g_transports g2)\<rparr>;
          g4 = (if g_winner g3 = None \<and> g_published g3 \<noteq> []
                then g3\<lparr>g_winner_since := None, g_published := [], g_confirmed := None, g_degraded := True\<rparr>
                else g3);
          g5 = (if changed
                then g4\<lparr>g_winner := None, g_winner_since := None, g_published := [],
                         g_confirmed := None, g_degraded := True\<rparr>
                else g4)
      in (g5, lg))"

definition restore_groups ::
  "int \<Rightarrow> persisted_group hmap \<Rightarrow> group hmap \<Rightarrow> group hmap \<times> log_event list" where
  "restore_groups now saved gs =
     (let rs = map (\<lambda>(n, g). (n, case hm_get saved n of None \<Rightarrow> (g, []) | Some pg \<Rightarrow> restore_group n now pg g)) gs
      in (map (\<lambda>(n, g, lg). (n, g)) rs, concat (map (\<lambda>(n, g, lg). lg) rs)))"

definition restore :: "int \<Rightarrow> int \<Rightarrow> persisted_state \<Rightarrow> engine_state \<Rightarrow> engine_state \<times> log_event list" where
  "restore now now' ps st =
     (let (ps', lg) = restore_groups now (ps_peers ps) (en_peers st);
          (us', lg') = restore_groups now' (ps_uplinks ps) (en_uplinks st)
      in (st\<lparr>en_peers := ps', en_uplinks := us'\<rparr>, lg @ lg'))"

datatype 'd state_file = StateData 'd | StateMissing | StateUnreadable rstr

definition load_state ::
  "('d \<Rightarrow> rstr + persisted_state) \<Rightarrow> int \<Rightarrow> int \<Rightarrow> 'd state_file \<Rightarrow> engine_state \<Rightarrow>
   engine_state \<times> log_event list" where
  "load_state parse now now' f st =
     (case f of
        StateMissing \<Rightarrow> (st, [])
      | StateUnreadable e \<Rightarrow> (st, [LogColdStart e])
      | StateData d \<Rightarrow>
          (case parse d of
             Inl e \<Rightarrow> (st, [LogColdStart e])
           | Inr ps \<Rightarrow> restore now now' ps st))"

text \<open>\<open>Engine::new\<close>: the groups of the configuration, then the state file.\<close>

definition engine_new ::
  "('d \<Rightarrow> rstr + persisted_state) \<Rightarrow> int \<Rightarrow> int \<Rightarrow> 'd state_file \<Rightarrow> config \<Rightarrow>
   engine_state \<times> log_event list" where
  "engine_new parse now now' f c = load_state parse now now' f (new_state c)"

section \<open>One group\<close>

lemma state_of_state_str [simp]: "state_of_str (state_str s) = s"
  by (cases s) (simp_all add: state_of_str_def state_str_def)

lemma restore_transport_fields [simp]:
  "tr_spec (restore_transport pts tr) = tr_spec tr" "tr_key (restore_transport pts tr) = tr_key tr"
  "tr_id (restore_transport pts tr) = tr_id tr"
  by (simp_all add: restore_transport_def Let_def split: option.split)

lemma expire_restored_fields [simp]:
  "g_transports (fst (expire_restored name now g)) = g_transports g"
  "g_kind (fst (expire_restored name now g)) = g_kind g"
  "g_hostnames (fst (expire_restored name now g)) = g_hostnames g"
  "g_on_all_down (fst (expire_restored name now g)) = g_on_all_down g"
  "g_max_age (fst (expire_restored name now g)) = g_max_age g"
  "g_confirmed (fst (expire_restored name now g)) = g_confirmed g"
  by (simp_all add: expire_restored_def Let_def)

lemma expire_restored_fst:
  "fst (expire_restored name now g) =
     (if g_kind g = Peer \<and> g_on_all_down g = ON_ALL_DOWN_LAST_KNOWN_GOOD \<and> g_published g \<noteq> [] \<and>
         staleness (g_max_age g) (g_confirmed g) now \<noteq> Fresh
      then g\<lparr>g_published := [], g_winner := None\<rparr> else g)"
  unfolding expire_restored_def Let_def by auto

lemma restore_group_fields [simp]:
  "g_transports (fst (restore_group name now pg g)) =
     map (restore_transport (pg_transports pg)) (g_transports g)"
  "g_kind (fst (restore_group name now pg g)) = g_kind g"
  "g_hostnames (fst (restore_group name now pg g)) = g_hostnames g"
  "g_on_all_down (fst (restore_group name now pg g)) = g_on_all_down g"
  "g_max_age (fst (restore_group name now pg g)) = g_max_age g"
  by (auto simp: restore_group_def Let_def split_beta)

definition restored_winner :: "persisted_group \<Rightarrow> group \<Rightarrow> nat option" where
  "restored_winner pg g =
     (if pg_winner_id pg = [] then None
      else position (\<lambda>tr. tr_key tr = pg_winner_id pg) (g_transports g))"

lemma restored_winner_Some:
  "restored_winner pg g = Some w \<Longrightarrow>
     w < length (g_transports g) \<and> tr_key (g_transports g ! w) = pg_winner_id pg \<and> pg_winner_id pg \<noteq> []"
  by (auto simp: restored_winner_def dest: position_Some split: if_splits)

text \<open>The verdict on the restored entry: whether it is withdrawn, by which rule.\<close>

definition restore_stale :: "int \<Rightarrow> persisted_group \<Rightarrow> group \<Rightarrow> bool" where
  "restore_stale now pg g \<longleftrightarrow>
     g_kind g = Peer \<and> g_on_all_down g = ON_ALL_DOWN_LAST_KNOWN_GOOD \<and> pg_published pg \<noteq> [] \<and>
     staleness (g_max_age g) (pg_confirmed pg) now \<noteq> Fresh"

definition restore_moved :: "persisted_group \<Rightarrow> group \<Rightarrow> bool" where
  "restore_moved pg g \<longleftrightarrow>
     (\<exists>w pt. restored_winner pg g = Some w \<and>
        saved_by_id (pg_transports pg) (tr_key (g_transports g ! w)) = Some pt \<and>
        static_changed (g_transports g ! w) pt)"

lemma restore_group_outcome:
  "g_winner (fst (restore_group name now pg g)) =
     (if restore_stale now pg g \<or> restore_moved pg g then None else restored_winner pg g) \<and>
   g_published (fst (restore_group name now pg g)) =
     (if restore_stale now pg g \<or> restore_moved pg g \<or> restored_winner pg g = None then []
      else pg_published pg) \<and>
   g_confirmed (fst (restore_group name now pg g)) =
     (if (restore_moved pg g \<and> \<not> restore_stale now pg g) \<or>
         (\<not> restore_stale now pg g \<and> restored_winner pg g = None \<and> pg_published pg \<noteq> [])
      then None else pg_confirmed pg)"
proof -
  let ?g1 = "g\<lparr>g_winner := restored_winner pg g, g_winner_since := pg_winner_since pg,
      g_confirmed := pg_confirmed pg, g_degraded := pg_degraded pg, g_published := pg_published pg\<rparr>"
  have "fst (expire_restored name now ?g1) =
      (if restore_stale now pg g then ?g1\<lparr>g_published := [], g_winner := None\<rparr> else ?g1)"
    by (simp add: expire_restored_fst restore_stale_def)
  moreover define lg where "lg = snd (expire_restored name now ?g1)"
  ultimately have ex: "expire_restored name now ?g1 =
      (if restore_stale now pg g then ?g1\<lparr>g_published := [], g_winner := None\<rparr> else ?g1, lg)"
    by (intro prod_eqI) (simp_all only: fst_conv snd_conv)
  have mv: "winner_static_changed (pg_transports pg) ?g1 = restore_moved pg g"
    using restored_winner_Some [of pg g]
    by (auto simp: winner_static_changed_def restore_moved_def split: option.splits)
  have mvn: "winner_static_changed (pg_transports pg) (?g1\<lparr>g_published := [], g_winner := None\<rparr>) = False"
    by (simp add: winner_static_changed_def)
  have some: "restore_moved pg g \<Longrightarrow> restored_winner pg g \<noteq> None"
    by (auto simp: restore_moved_def)
  show ?thesis
  proof (cases "restore_stale now pg g")
    case True
    then show ?thesis
      unfolding restore_group_def restored_winner_def [symmetric] Let_def ex using mvn by simp
  next
    case False
    then show ?thesis
      unfolding restore_group_def restored_winner_def [symmetric] Let_def ex using mv some by auto
  qed
qed

lemma dump_group_Some:
  assumes "winner_in_range g"
  obtains pg where "dump_group g = Some pg" "pg_transports pg = map dump_transport (g_transports g)"
    "pg_published pg = g_published g" "pg_confirmed pg = g_confirmed g"
    "pg_degraded pg = g_degraded g" "pg_winner_since pg = g_winner_since g"
    "pg_winner_id pg = (case g_winner g of None \<Rightarrow> [] | Some w \<Rightarrow> tr_key (g_transports g ! w))"
  by (rule that [of "\<lparr>pg_winner_id = (case g_winner g of None \<Rightarrow> [] | Some w \<Rightarrow> tr_key (g_transports g ! w)),
      pg_winner_since = g_winner_since g, pg_confirmed = g_confirmed g, pg_degraded = g_degraded g,
      pg_published = g_published g, pg_transports = map dump_transport (g_transports g)\<rparr>"])
    (use assms in \<open>auto simp: dump_group_def winner_in_range_def split: option.split\<close>)

text \<open>Identities that the configuration guarantees: not empty, not twice in a group.\<close>

definition keys_ok :: "group \<Rightarrow> bool" where
  "keys_ok g \<longleftrightarrow> distinct (map tr_key (g_transports g)) \<and> [] \<notin> set (map tr_key (g_transports g))"

lemma find_SomeD: "find P xs = Some x \<Longrightarrow> P x \<and> x \<in> set xs"
  by (induction xs) (auto split: if_splits)

lemma saved_by_id_dump:
  assumes "keys_ok g" and "tr \<in> set (g_transports g)"
  shows "saved_by_id (map dump_transport (g_transports g)) (tr_key tr) = Some (dump_transport tr)"
proof -
  let ?P = "\<lambda>pt. pt_ident pt \<noteq> [] \<and> pt_ident pt = tr_key tr"
  have key: "pt_ident (dump_transport t) = tr_key t" for t by (simp add: dump_transport_def)
  have "tr_key tr \<noteq> []" using assms by (force simp: keys_ok_def)
  then have "find ?P (rev (map dump_transport (g_transports g))) \<noteq> None"
    using assms(2) by (auto simp: find_None_iff key)
  then obtain pt where pt: "find ?P (rev (map dump_transport (g_transports g))) = Some pt" by auto
  from find_SomeD [OF this] obtain t where t: "t \<in> set (g_transports g)" "pt = dump_transport t"
    "tr_key t = tr_key tr" by (auto simp: key)
  then have "t = tr" using assms by (auto simp: keys_ok_def distinct_map inj_on_def)
  with pt t show ?thesis by (simp add: saved_by_id_def)
qed

lemma saved_by_id_absent:
  "key \<notin> set (map tr_key ts) \<Longrightarrow> saved_by_id (map dump_transport ts) key = None"
  by (auto simp: saved_by_id_def find_None_iff dump_transport_def)


section \<open>A group saved and restored\<close>

text \<open>What \<open>Engine::new\<close> builds for the configuration a group was built from.\<close>

definition cold_transport :: "transport_runtime \<Rightarrow> transport_runtime" where
  "cold_transport tr = tr\<lparr>tr_state := Unknown, tr_succ := 0, tr_fail := 0, tr_address := [],
     tr_detail := [], tr_last_success := None, tr_probe_started := None, tr_next_due := None\<rparr>"

definition cold_group :: "group \<Rightarrow> group" where
  "cold_group g = g\<lparr>g_transports := map cold_transport (g_transports g), g_winner := None,
     g_winner_since := None, g_degraded := False, g_published := [], g_confirmed := None,
     g_publish_error := []\<rparr>"

text \<open>What does not survive a restart: the details, the watchdog's marks, the error reported.\<close>

definition volatile_reset :: "group \<Rightarrow> group" where
  "volatile_reset g = g\<lparr>g_transports := map (\<lambda>tr. tr\<lparr>tr_detail := [], tr_probe_started := None,
     tr_next_due := None\<rparr>) (g_transports g), g_publish_error := []\<rparr>"

definition address_settled :: "group \<Rightarrow> bool" where
  "address_settled g \<longleftrightarrow> (\<forall>tr \<in> set (g_transports g).
     t_address (tr_spec tr) \<noteq> [] \<longrightarrow> tr_address tr = t_address (tr_spec tr))"

definition restart :: "rstr \<Rightarrow> int \<Rightarrow> group \<Rightarrow> group" where
  "restart name now g =
     (case dump_group g of
        Some pg \<Rightarrow> fst (restore_group name now pg (cold_group g)) | None \<Rightarrow> cold_group g)"

lemma volatile_reset_fields [simp]:
  "g_published (volatile_reset g) = g_published g" "g_max_age (volatile_reset g) = g_max_age g"
  "g_confirmed (volatile_reset g) = g_confirmed g" "g_winner (volatile_reset g) = g_winner g"
  "g_on_all_down (volatile_reset g) = g_on_all_down g"
  by (simp_all add: volatile_reset_def)

lemma cold_keys [simp]: "map tr_key (g_transports (cold_group g)) = map tr_key (g_transports g)"
  by (simp add: cold_group_def cold_transport_def comp_def)

lemma cold_fields [simp]:
  "g_kind (cold_group g) = g_kind g" "g_on_all_down (cold_group g) = g_on_all_down g"
  "g_max_age (cold_group g) = g_max_age g" "length (g_transports (cold_group g)) = length (g_transports g)"
  by (simp_all add: cold_group_def)

lemma position_key:
  assumes "distinct (map tr_key ts)" and "w < length ts"
  shows "position (\<lambda>tr. tr_key tr = tr_key (ts ! w)) ts = Some w"
  by (rule position_unique) (use assms in \<open>auto simp: distinct_conv_nth\<close>)

lemma position_key_map:
  "position (\<lambda>tr. tr_key tr = k) (map f ts) = position (\<lambda>tr. tr_key (f tr) = k) ts"
  by (induction ts) auto

lemma restored_winner_dump:
  assumes "dump_group g = Some pg" and "keys_ok g" and "winner_in_range g"
  shows "restored_winner pg (cold_group g) = g_winner g"
proof (cases "g_winner g")
  case None
  with assms show ?thesis by (auto simp: restored_winner_def dump_group_def)
next
  case (Some w)
  then have w: "w < length (g_transports g)" using assms(3) by (simp add: winner_in_range_def)
  have "pg_winner_id pg = tr_key (g_transports g ! w)"
    using assms(1) Some w by (auto simp: dump_group_def)
  moreover have "tr_key (g_transports g ! w) \<noteq> []"
    using assms(2) w by (metis keys_ok_def length_map nth_map nth_mem)
  moreover have "position (\<lambda>tr. tr_key tr = tr_key (g_transports g ! w)) (g_transports (cold_group g)) = Some w"
    using position_key [of "g_transports g" w] assms(2) w
    by (simp add: cold_group_def position_key_map keys_ok_def cold_transport_def)
  ultimately show ?thesis by (simp add: restored_winner_def Some)
qed

lemma restore_transport_cold:
  assumes "keys_ok g" and "tr \<in> set (g_transports g)"
    and "t_address (tr_spec tr) \<noteq> [] \<longrightarrow> tr_address tr = t_address (tr_spec tr)"
  shows "restore_transport (map dump_transport (g_transports g)) (cold_transport tr) =
    tr\<lparr>tr_detail := [], tr_probe_started := None, tr_next_due := None\<rparr>"
  using saved_by_id_dump [OF assms(1,2)] assms(3)
  by (cases tr) (auto simp: restore_transport_def cold_transport_def dump_transport_def
      static_changed_def Let_def)

lemma restore_moved_cold:
  assumes "dump_group g = Some pg" and "keys_ok g" and "winner_in_range g" and "address_settled g"
  shows "\<not> restore_moved pg (cold_group g)"
proof
  assume "restore_moved pg (cold_group g)"
  then obtain w pt where w: "g_winner g = Some w"
    and pt: "saved_by_id (pg_transports pg) (tr_key (g_transports (cold_group g) ! w)) = Some pt"
      "static_changed (g_transports (cold_group g) ! w) pt"
    by (auto simp: restore_moved_def restored_winner_dump [OF assms(1-3)])
  have len: "w < length (g_transports g)" using w assms(3) by (simp add: winner_in_range_def)
  then have c: "g_transports (cold_group g) ! w = cold_transport (g_transports g ! w)"
    by (simp add: cold_group_def)
  have "pg_transports pg = map dump_transport (g_transports g)"
    by (rule dump_group_Some [OF assms(3)]) (use assms(1) in simp)
  then have "pt = dump_transport (g_transports g ! w)"
    using pt(1) saved_by_id_dump [OF assms(2), of "g_transports g ! w"] len
    by (simp add: c cold_transport_def)
  with pt(2) assms(4) len show False
    by (auto simp: static_changed_def c cold_transport_def dump_transport_def address_settled_def)
qed

lemma restart_alt:
  assumes "keys_ok g" and "winner_in_range g" and "address_settled g"
    and "g_published g \<noteq> [] \<longrightarrow> g_winner g \<noteq> None"
  shows "restart name now g =
    (if g_kind g = Peer \<and> retained g \<and> too_old g now
     then (volatile_reset g)\<lparr>g_winner := None, g_published := []\<rparr> else volatile_reset g)"
proof -
  obtain pg where pg: "dump_group g = Some pg" "pg_transports pg = map dump_transport (g_transports g)"
    "pg_published pg = g_published g" "pg_confirmed pg = g_confirmed g"
    "pg_degraded pg = g_degraded g" "pg_winner_since pg = g_winner_since g"
    by (rule dump_group_Some [OF assms(2)])
  let ?c = "cold_group g"
  let ?g1 = "?c\<lparr>g_winner := g_winner g, g_winner_since := g_winner_since g,
      g_confirmed := g_confirmed g, g_degraded := g_degraded g, g_published := g_published g\<rparr>"
  let ?P = "g_kind g = Peer \<and> retained g \<and> too_old g now"
  have win: "restored_winner pg ?c = g_winner g" by (rule restored_winner_dump [OF pg(1) assms(1,2)])
  define lg where "lg = snd (expire_restored name now ?g1)"
  have "fst (expire_restored name now ?g1) =
      (if ?P then ?g1\<lparr>g_published := [], g_winner := None\<rparr> else ?g1)"
    by (simp add: expire_restored_fst retained_def too_old_def)
  then have ex: "expire_restored name now ?g1 =
      (if ?P then ?g1\<lparr>g_published := [], g_winner := None\<rparr> else ?g1, lg)"
    unfolding lg_def by (intro prod_eqI) (simp_all only: fst_conv snd_conv)
  have mv: "winner_static_changed (pg_transports pg) ?g1 = restore_moved pg ?c"
    using restored_winner_Some [of pg ?c] win
    by (auto simp: winner_static_changed_def restore_moved_def split: option.splits)
  have nomv: "\<not> restore_moved pg ?c" by (rule restore_moved_cold [OF pg(1) assms(1-3)])
  have ts: "map (restore_transport (pg_transports pg)) (g_transports ?c) = g_transports (volatile_reset g)"
    using restore_transport_cold [OF assms(1)] assms(3)
    by (simp add: pg(2) cold_group_def volatile_reset_def address_settled_def)
  have r: "restart name now g = fst (restore_group name now pg ?c)"
    by (simp add: restart_def pg(1))
  show ?thesis
  proof (cases ?P)
    case True
    have "winner_static_changed (pg_transports pg) (?g1\<lparr>g_published := [], g_winner := None\<rparr>) = False"
      by (simp add: winner_static_changed_def)
    then show ?thesis
      unfolding r restore_group_def restored_winner_def [symmetric] win pg(3-6) Let_def ex
      using True ts by (simp add: volatile_reset_def cold_group_def)
  next
    case False
    have n: "(g_winner g = None \<and> g_published g \<noteq> []) = False" using assms(4) by blast
    have nmv: "winner_static_changed (pg_transports pg) ?g1 = False" using mv nomv by blast
    show ?thesis
      unfolding r restore_group_def restored_winner_def [symmetric] win pg(3-6) Let_def ex if_not_P [OF False]
      using nmv ts n by (simp add: volatile_reset_def cold_group_def) auto
  qed
qed


section \<open>Properties\<close>

text \<open>
  TF-6, the round trip: a group that is saved and restored for the same declaration is
  the same group, the volatile fields apart, unless it is a last-known-good peer whose
  entry is too old at the instant of the restart; then only its publication and its
  winner are dropped.
\<close>

lemma restart_round_trip:
  assumes "keys_ok g" and "winner_in_range g" and "address_settled g"
    and "g_published g \<noteq> [] \<longrightarrow> g_winner g \<noteq> None"
  shows "restart name now g =
    (if g_kind g = Peer \<and> retained g \<and> too_old g now
     then (volatile_reset g)\<lparr>g_winner := None, g_published := []\<rparr> else volatile_reset g)"
  using assms by (rule restart_alt)

lemma demo_group_ok: "keys_ok demo_group" "address_settled demo_group"
  by (simp_all add: keys_ok_def demo_transports demo_runtime_def new_runtime_def demo_transport_def
      address_settled_def)

theorem restart_round_trip_witness:
  "restart (lit ''h'') 7 demo_group = volatile_reset demo_group"
  using restart_round_trip [OF demo_group_ok(1) demo_in_range demo_group_ok(2), of "lit ''h''" 7]
  by (simp add: demo_group_fields too_old_def staleness_def nanos_of_secs_def)



text \<open>
  Whatever the state file holds: the restored winner is an index of the group; nothing
  is published without a winner; and a last-known-good entry is published only while it
  is inside its bound.  The old position of a winner in the list plays no part: a restored
  winner has the key that was saved.
\<close>

lemma restore_well_formed:
  "(\<forall>w. g_winner (fst (restore_group name now pg g)) = Some w \<longrightarrow>
      w < length (g_transports g) \<and> tr_key (g_transports g ! w) = pg_winner_id pg) \<and>
   (g_published (fst (restore_group name now pg g)) \<noteq> [] \<longrightarrow>
      g_winner (fst (restore_group name now pg g)) \<noteq> None \<and>
      (g_kind g = Peer \<and> g_on_all_down g = ON_ALL_DOWN_LAST_KNOWN_GOOD \<longrightarrow>
         staleness (g_max_age g) (pg_confirmed pg) now = Fresh))"
  using restore_group_outcome [of name now pg g] restored_winner_Some [of pg g]
  by (auto simp: restore_stale_def split: if_splits)

definition demo_saved :: persisted_group where
  "demo_saved = \<lparr>pg_winner_id = lit ''vpn'', pg_winner_since = Some 0, pg_confirmed = Some 6,
     pg_degraded = False, pg_published = lit ''10.8.0.1'', pg_transports = []\<rparr>"

lemma demo_key: "tr_key (demo_runtime a b c d e) = a"
  by (simp add: demo_runtime_def new_runtime_def demo_transport_def)

theorem restore_well_formed_witness:
  "g_winner (fst (restore_group (lit ''h'') 7 demo_saved demo_group)) = Some 1 \<and>
   staleness (Some 20) (Some 6) 7 = Fresh"
proof -
  have "restored_winner demo_saved demo_group = Some 1"
    by (simp add: restored_winner_def demo_saved_def demo_transports demo_key)
  moreover have "\<not> restore_stale 7 demo_saved demo_group" "\<not> restore_moved demo_saved demo_group"
    by (simp_all add: restore_stale_def staleness_def demo_group_fields demo_saved_def
        nanos_of_secs_def restore_moved_def saved_by_id_def)
  ultimately have o: "g_winner (fst (restore_group (lit ''h'') 7 demo_saved demo_group)) = Some 1"
    "g_published (fst (restore_group (lit ''h'') 7 demo_saved demo_group)) \<noteq> []"
    using restore_group_outcome [of "lit ''h''" 7 demo_saved demo_group]
    by (simp_all add: demo_saved_def)
  then show ?thesis
    using restore_well_formed [of "lit ''h''" 7 demo_saved demo_group]
    by (simp add: demo_group_fields demo_saved_def)
qed


text \<open>The same transports declared in another order.\<close>

definition demo_reordered :: group where
  "demo_reordered = demo_group\<lparr>g_transports := map cold_transport (rev (g_transports demo_group)),
     g_winner := None, g_published := []\<rparr>"


end
