(* ===== verification/Reconcile.thy ===== *)
theory Reconcile
  imports Persist Hosts
begin

text \<open>
  \<open>reconcile\<close>, \<open>probe_once\<close> and the startup publications of \<open>src/engine/mod.rs\<close>.  Each
  operation is cut at its mutex sections: what runs under the engine-state lock is a
  function of the engine state, what runs outside it is a function of the world (the hosts
  file and the routing table).  \<open>reconcile\<close> and \<open>probe_once\<close> are the sections in sequence;
  the theory \<open>Workers\<close> interleaves them.  The RFC 3339 formatter is a parameter.
\<close>

section \<open>Definitions\<close>

type_synonym time_format = "int \<Rightarrow> rstr option"

definition entry_of_group :: "time_format \<Rightarrow> group \<Rightarrow> entry" where
  "entry_of_group fmt g =
     \<lparr>e_address = g_published g, e_hostnames = g_hostnames g,
      e_confirmed_at = Option.bind (g_confirmed g) fmt\<rparr>"

definition peer_entries :: "time_format \<Rightarrow> engine_state \<Rightarrow> entry list" where
  "peer_entries fmt st =
     map (entry_of_group fmt) (filter (\<lambda>g. g_published g \<noteq> []) (hm_values (en_peers st)))"

text \<open>The part of the world that a publication touches.\<close>

record 'w io =
  io_hosts :: hosts_fs
  io_routes :: "'w ip_state"

text \<open>The publishers an engine is built with, and the standard library's clock format.\<close>

record 'w publishers =
  pu_hosts :: hosts_publisher
  pu_routes :: route_publisher
  pu_ip :: "'w ip_env"
  pu_fmt :: time_format

definition written_at :: "'w publishers \<Rightarrow> int \<Rightarrow> rstr" where
  "written_at pu now = (case pu_fmt pu now of Some s \<Rightarrow> s | None \<Rightarrow> [])"

definition publish_hosts ::
  "'w publishers \<Rightarrow> int \<Rightarrow> entry list \<Rightarrow> 'w io \<Rightarrow> (rstr + bool) \<times> 'w io \<times> log_event list" where
  "publish_hosts pu now es io =
     (case hosts_publish (pu_hosts pu) (written_at pu now) es (io_hosts io) of
        (r, fs) \<Rightarrow> (r, io\<lparr>io_hosts := fs\<rparr>, if r = Inr True then [LogHostsReassert (length es)] else []))"

definition publish_routes ::
  "'w publishers \<Rightarrow> (rstr \<Rightarrow> int \<Rightarrow> int \<Rightarrow> log_event) \<Rightarrow> ranked_interface list \<Rightarrow> int \<Rightarrow> int \<Rightarrow> 'w io \<Rightarrow>
   publication \<times> 'w io \<times> log_event list" where
  "publish_routes pu line rk base step io =
     (case apply_routes (pu_ip pu) (pu_routes pu) rk base step (io_routes io) of
        (out, rs) \<Rightarrow> (out, io\<lparr>io_routes := rs\<rparr>,
           map (\<lambda>c. line (rc_interface c) (rc_from_metric c) (rc_to_metric c)) (pb_changes out)))"

definition error_of :: "rstr + bool \<Rightarrow> rstr option" where
  "error_of r = (case r of Inl e \<Rightarrow> Some e | Inr _ \<Rightarrow> None)"

subsection \<open>The sections of \<open>reconcile\<close>\<close>

text \<open>Under the state lock: the decision, and what the publication will need of the state.\<close>

record decision =
  dc_action :: action
  dc_entries :: "entry list"
  dc_empty :: bool
  dc_changed :: bool

definition group_view :: "group \<Rightarrow> nat option \<times> bool \<times> rstr" where
  "group_view g = (g_winner g, g_degraded g, g_published g)"

definition reconcile_decide ::
  "time_format \<Rightarrow> int \<Rightarrow> group_kind \<Rightarrow> rstr \<Rightarrow> engine_state \<Rightarrow>
   (engine_state \<times> decision \<times> log_event list) option" where
  "reconcile_decide fmt now k name st =
     do {
       g \<leftarrow> get_group st k name;
       (st', a, lg) \<leftarrow> decide_action now k name st;
       g' \<leftarrow> get_group st' k name;
       Some (st',
         \<lparr>dc_action = a,
          dc_entries = (case a of PublishPeers _ \<Rightarrow> peer_entries fmt st' | _ \<Rightarrow> []),
          dc_empty = nothing_to_publish st',
          dc_changed = (group_view g \<noteq> group_view g')\<rparr>, lg)
     }"

text \<open>Outside the state lock: the publication.\<close>

datatype outcome = NotPublished | HostsPublished "rstr + bool" | RoutesPublished publication

definition reconcile_publish ::
  "'w publishers \<Rightarrow> int \<Rightarrow> group_kind \<Rightarrow> rstr \<Rightarrow> decision \<Rightarrow> 'w io \<Rightarrow>
   outcome \<times> 'w io \<times> log_event list" where
  "reconcile_publish pu now k name d io =
     (case dc_action d of
        NoAction \<Rightarrow> (NotPublished, io, [])
      | PublishPeers passive \<Rightarrow>
          if passive \<and> dc_empty d then (NotPublished, io, [])
          else (case publish_hosts pu now (dc_entries d) io of
                  (r, io', lg) \<Rightarrow> (HostsPublished r, io', lg))
      | PublishUplink rk base step \<Rightarrow>
          (case publish_routes pu (LogRouteReassert (group_label k name)) rk base step io of
             (out, io', lg) \<Rightarrow> (RoutesPublished out, io', lg)))"

text \<open>Under the state lock again: what went wrong is recorded.\<close>

definition what_routes :: "group_kind \<Rightarrow> rstr \<Rightarrow> rstr" where
  "what_routes k name = lit ''publish routes for group='' @ group_label k name"

definition reconcile_record ::
  "group_kind \<Rightarrow> rstr \<Rightarrow> decision \<Rightarrow> outcome \<Rightarrow> engine_state \<Rightarrow>
   (engine_state \<times> bool \<times> log_event list) option" where
  "reconcile_record k name d out st =
     (case out of
        NotPublished \<Rightarrow> Some (st, dc_changed d, [])
      | HostsPublished r \<Rightarrow>
          (case log_publish_error (en_hosts_error st) (lit ''publish hosts'') (error_of r) of
             (e, lg) \<Rightarrow> Some (st\<lparr>en_hosts_error := e\<rparr>, dc_changed d \<or> en_hosts_error st \<noteq> e, lg))
      | RoutesPublished p \<Rightarrow>
          do {
            g \<leftarrow> get_group st k name;
            let (e, lg) = log_publish_error (g_publish_error g) (what_routes k name) (pb_error p);
            Some (put_group st k name (g\<lparr>g_publish_error := e\<rparr>),
              dc_changed d \<or> g_publish_error g \<noteq> e, lg)
          })"

text \<open>\<open>reconcile\<close> when no other worker comes between its sections.\<close>

definition reconcile ::
  "'w publishers \<Rightarrow> int \<Rightarrow> group_kind \<Rightarrow> rstr \<Rightarrow> engine_state \<times> 'w io \<Rightarrow>
   ((engine_state \<times> 'w io) \<times> bool \<times> log_event list) option" where
  "reconcile pu now k name s =
     do {
       (st1, d, lg1) \<leftarrow> reconcile_decide (pu_fmt pu) now k name (fst s);
       let (out, io', lg2) = reconcile_publish pu now k name d (snd s);
       (st2, changed, lg3) \<leftarrow> reconcile_record k name d out st1;
       Some ((st2, io'), changed, lg1 @ lg2 @ lg3)
     }"

subsection \<open>Startup publications\<close>

definition publish_peers_locked ::
  "'w publishers \<Rightarrow> int \<Rightarrow> engine_state \<times> 'w io \<Rightarrow> (engine_state \<times> 'w io) \<times> log_event list" where
  "publish_peers_locked pu now s =
     (case publish_hosts pu now (peer_entries (pu_fmt pu) (fst s)) (snd s) of
        (r, io', lg1) \<Rightarrow>
          (case log_publish_error (en_hosts_error (fst s)) (lit ''publish hosts'') (error_of r) of
             (e, lg2) \<Rightarrow> (((fst s)\<lparr>en_hosts_error := e\<rparr>, io'), lg1 @ lg2)))"

definition publish_restored_peers ::
  "'w publishers \<Rightarrow> int \<Rightarrow> engine_state \<times> 'w io \<Rightarrow> (engine_state \<times> 'w io) \<times> log_event list" where
  "publish_restored_peers pu now s =
     (if nothing_to_publish (fst s) then (s, []) else publish_peers_locked pu now s)"

text \<open>One name of the loop of \<open>publish_restored_uplinks\<close>; \<open>state.uplinks[&name]\<close> may panic.\<close>

definition publish_restored_uplink ::
  "'w publishers \<Rightarrow> rstr \<Rightarrow> engine_state \<times> 'w io \<Rightarrow>
   ((engine_state \<times> 'w io) \<times> log_event list) option" where
  "publish_restored_uplink pu name s =
     do {
       g \<leftarrow> get_group (fst s) Uplink name;
       let rk = uplink_ranking g;
       if rk = [] then Some (s, [])
       else do {
         let (out, io', lg1) = publish_routes pu (LogRouteReassertRestart (group_label Uplink name)) rk
                                 (g_metric_base g) (g_metric_step g) (snd s);
         let (e, lg2) = log_publish_error (g_publish_error g) (what_routes Uplink name) (pb_error out);
         Some ((put_group (fst s) Uplink name (g\<lparr>g_publish_error := e\<rparr>), io'), lg1 @ lg2)
       }
     }"

fun publish_restored_names ::
  "'w publishers \<Rightarrow> rstr list \<Rightarrow> engine_state \<times> 'w io \<Rightarrow>
   ((engine_state \<times> 'w io) \<times> log_event list) option" where
  "publish_restored_names pu [] s = Some (s, [])"
| "publish_restored_names pu (n # ns) s =
     do {
       (s', lg) \<leftarrow> publish_restored_uplink pu n s;
       (s'', lg') \<leftarrow> publish_restored_names pu ns s';
       Some (s'', lg @ lg')
     }"

definition publish_restored_uplinks ::
  "'w publishers \<Rightarrow> engine_state \<times> 'w io \<Rightarrow> ((engine_state \<times> 'w io) \<times> log_event list) option" where
  "publish_restored_uplinks pu s = publish_restored_names pu (map fst (en_uplinks (fst s))) s"

subsection \<open>One probe tick\<close>

text \<open>The result of \<open>probe::run\<close>: a misconfigured transport counts as a failure.\<close>

definition probe_verdict :: "rstr \<Rightarrow> rstr + probe_result \<Rightarrow> probe_result \<times> log_event list" where
  "probe_verdict label r =
     (case r of
        Inr res \<Rightarrow> (res, [])
      | Inl e \<Rightarrow> (\<lparr>pr_healthy = False, pr_address = [], pr_detail = e\<rparr>, [LogMisconfigured label e]))"

text \<open>
  The state side of \<open>probe_once\<close> up to its calls of \<open>save_state\<close> and \<open>write_status\<close>: the
  new state and world, whether these two calls are forced, and the log, in which the
  transition comes last.
\<close>

definition probe_once ::
  "'w publishers \<Rightarrow> int \<Rightarrow> int \<Rightarrow> group_kind \<Rightarrow> rstr \<Rightarrow> nat \<Rightarrow> rstr + probe_result \<Rightarrow>
   engine_state \<times> 'w io \<Rightarrow>
   ((engine_state \<times> 'w io) \<times> bool \<times> bool \<times> log_event list) option" where
  "probe_once pu observed_at now k name i r s =
     do {
       g \<leftarrow> get_group (fst s) k name;
       tr \<leftarrow> nth_opt (g_transports g) i;
       let (res, lg0) = probe_verdict (tr_id tr) r;
       (st1, state_changed, address_changed, lg1) \<leftarrow> probe_step k name i observed_at res (fst s);
       (s2, changed, lg2) \<leftarrow> reconcile pu now k name (st1, snd s);
       Some (s2, state_changed \<or> address_changed \<or> changed, state_changed \<or> changed,
         lg0 @ lg2 @ lg1)
     }"

subsection \<open>The marks of a worker\<close>

text \<open>The two sections of \<open>run_transport\<close> that the watchdog reads.\<close>

definition mark_started ::
  "group_kind \<Rightarrow> rstr \<Rightarrow> nat \<Rightarrow> int \<Rightarrow> engine_state \<Rightarrow> engine_state option" where
  "mark_started k name i now st =
     do {
       g \<leftarrow> get_group st k name;
       tr \<leftarrow> nth_opt (g_transports g) i;
       Some (put_group st k name (g\<lparr>g_transports := (g_transports g)
         [i := tr\<lparr>tr_probe_started := Some now, tr_next_due := None\<rparr>]\<rparr>))
     }"

definition mark_idle ::
  "group_kind \<Rightarrow> rstr \<Rightarrow> nat \<Rightarrow> int \<Rightarrow> engine_state \<Rightarrow> engine_state option" where
  "mark_idle k name i due st =
     do {
       g \<leftarrow> get_group st k name;
       tr \<leftarrow> nth_opt (g_transports g) i;
       Some (put_group st k name (g\<lparr>g_transports := (g_transports g)
         [i := tr\<lparr>tr_probe_started := None, tr_next_due := Some due\<rparr>]\<rparr>))
     }"

section \<open>The engine state as a machine\<close>

text \<open>
  Every change of the engine state is one of these sections, whichever worker runs it and
  in whatever order.  A section that panics leaves the state as it is.
\<close>

datatype event =
    Started group_kind rstr nat int
  | Observed group_kind rstr nat int probe_result
  | Decided group_kind rstr int
  | HostsRecorded decision "rstr + bool"
  | RoutesRecorded group_kind rstr decision publication
  | Idled group_kind rstr nat int

fun engine_event :: "engine_state \<Rightarrow> event \<Rightarrow> engine_state option" where
  "engine_event st (Started k n i t) = mark_started k n i t st"
| "engine_event st (Observed k n i t r) = map_option fst (probe_step k n i t r st)"
| "engine_event st (Decided k n t) = map_option fst (decide_action t k n st)"
| "engine_event st (HostsRecorded d r) =
     map_option fst (reconcile_record Peer [] d (HostsPublished r) st)"
| "engine_event st (RoutesRecorded k n d p) =
     map_option fst (reconcile_record k n d (RoutesPublished p) st)"
| "engine_event st (Idled k n i t) = mark_idle k n i t st"

definition engine_step :: "engine_state \<Rightarrow> event \<Rightarrow> engine_state" where
  "engine_step st e = (case engine_event st e of Some st' \<Rightarrow> st' | None \<Rightarrow> st)"

definition run_events :: "engine_state \<Rightarrow> event list \<Rightarrow> engine_state" where
  "run_events st es = foldl engine_step st es"

subsection \<open>The invariant\<close>

text \<open>
  A property of every group lifts to the state.  Two are kept by every section: the
  structural one, and that with the addresses of the peers, all of them empty or IP
  literals.
\<close>

definition groups_sat :: "(group \<Rightarrow> bool) \<Rightarrow> group_kind \<Rightarrow> group hmap \<Rightarrow> bool" where
  "groups_sat P k gs \<longleftrightarrow> hm_ok gs \<and> (\<forall>g \<in> set (hm_values gs). g_kind g = k \<and> P g)"

definition state_sat :: "(group \<Rightarrow> bool) \<Rightarrow> engine_state \<Rightarrow> bool" where
  "state_sat P st \<longleftrightarrow> groups_sat P Peer (en_peers st) \<and> groups_sat P Uplink (en_uplinks st)"

definition group_inv :: "group \<Rightarrow> bool" where
  "group_inv g \<longleftrightarrow> winner_in_range g \<and> (g_published g \<noteq> [] \<longrightarrow> g_winner g \<noteq> None)"

definition address_clean :: "rstr \<Rightarrow> bool" where
  "address_clean a \<longleftrightarrow> a = [] \<or> is_ip_literal a"

definition group_clean :: "group \<Rightarrow> bool" where
  "group_clean g \<longleftrightarrow> group_inv g \<and>
     (g_kind g = Peer \<longrightarrow> address_clean (g_published g) \<and>
        (\<forall>tr \<in> set (g_transports g). address_clean (tr_address tr) \<and> address_clean (t_address (tr_spec tr))))"

abbreviation state_inv :: "engine_state \<Rightarrow> bool" where "state_inv \<equiv> state_sat group_inv"
abbreviation state_clean :: "engine_state \<Rightarrow> bool" where "state_clean \<equiv> state_sat group_clean"

lemma address_clean_Nil [simp]: "address_clean []"
  by (simp add: address_clean_def)

text \<open>What the configuration fixed: the groups with everything that changes reset.\<close>

definition cold_groups :: "group hmap \<Rightarrow> group hmap" where
  "cold_groups gs = map (\<lambda>(n, g). (n, cold_group g)) gs"

definition cold_state :: "engine_state \<Rightarrow> engine_state" where
  "cold_state st = \<lparr>en_peers = cold_groups (en_peers st), en_uplinks = cold_groups (en_uplinks st),
     en_hosts_error = []\<rparr>"

lemma groups_sat_get:
  "groups_sat P k gs \<Longrightarrow> hm_get gs n = Some g \<Longrightarrow> g_kind g = k \<and> P g"
  by (force simp: groups_sat_def dest: map_of_SomeD)

lemma state_sat_get: "state_sat P st \<Longrightarrow> get_group st k n = Some g \<Longrightarrow> g_kind g = k \<and> P g"
  using groups_sat_get [of P k "groups_of k st" n g]
  by (cases k) (auto simp: state_sat_def get_group_def groups_of_def)

lemma groups_sat_put [wf_intros]:
  "groups_sat P k gs \<Longrightarrow> g_kind g = k \<Longrightarrow> P g \<Longrightarrow> groups_sat P k (hm_put gs n g)"
  unfolding groups_sat_def by (intro conjI hm_ok_put hm_all_put) auto

text \<open>A write to one group that keeps its property and its kind.\<close>

lemma state_sat_put:
  "state_sat P st \<Longrightarrow> get_group st k n = Some g \<Longrightarrow> (P g \<Longrightarrow> g_kind g = k \<Longrightarrow> g_kind g' = k \<and> P g')
   \<Longrightarrow> state_sat P (put_group st k n g')"
  using state_sat_get [of P st k n g]
  by (cases k) (auto simp: state_sat_def put_group_def intro: groups_sat_put)

lemma state_sat_error [simp]: "state_sat P (st\<lparr>en_hosts_error := e\<rparr>) = state_sat P st"
  by (simp add: state_sat_def)

lemma state_sat_mono: "state_sat P st \<Longrightarrow> (\<And>g. P g \<Longrightarrow> Q g) \<Longrightarrow> state_sat Q st"
  by (auto simp: state_sat_def groups_sat_def)

lemma clean_inv: "state_clean st \<Longrightarrow> state_inv st"
  by (erule state_sat_mono) (simp add: group_clean_def)

lemma cold_groups_put:
  "hm_get gs n = Some g \<Longrightarrow> cold_group g' = cold_group g \<Longrightarrow> cold_groups (hm_put gs n g') = cold_groups gs"
  by (induction gs) (auto simp: cold_groups_def)

lemma cold_state_put:
  "get_group st k n = Some g \<Longrightarrow> cold_group g' = cold_group g \<Longrightarrow> cold_state (put_group st k n g') = cold_state st"
  using cold_groups_put [of "groups_of k st" n g g']
  by (cases k) (auto simp: cold_state_def put_group_def get_group_def groups_of_def)

lemma cold_state_error [simp]: "cold_state (st\<lparr>en_hosts_error := e\<rparr>) = cold_state st"
  by (simp add: cold_state_def)

subsection \<open>Every section keeps it\<close>

text \<open>What a section does: nothing, the error of the hosts file, or one group.\<close>

lemma group_inv_transport:
  "group_inv g \<Longrightarrow> group_inv (g\<lparr>g_transports := (g_transports g)[i := tr]\<rparr>)"
  by (simp add: group_inv_def winner_in_range_def)

lemma group_clean_transport:
  assumes "group_clean g" and "i < length (g_transports g)"
    and "g_kind g = Peer \<Longrightarrow> address_clean (tr_address (g_transports g ! i)) \<Longrightarrow>
      address_clean (t_address (tr_spec (g_transports g ! i))) \<Longrightarrow>
      address_clean (tr_address tr') \<and> address_clean (t_address (tr_spec tr'))"
  shows "group_clean (g\<lparr>g_transports := (g_transports g)[i := tr']\<rparr>)"
  using assms nth_mem [OF assms(2)]
  by (auto simp: group_clean_def group_inv_transport dest!: subsetD [OF set_update_subset_insert])

lemma cold_group_transport:
  assumes "i < length (g_transports g)" and "cold_transport tr' = cold_transport (g_transports g ! i)"
  shows "cold_group (g\<lparr>g_transports := (g_transports g)[i := tr']\<rparr>) = cold_group g"
proof -
  have "map cold_transport ((g_transports g)[i := tr']) = map cold_transport (g_transports g)"
    by (rule nth_equalityI) (use assms in \<open>auto simp: nth_list_update\<close>)
  then show ?thesis by (simp add: cold_group_def)
qed

lemma apply_result_clean:
  assumes "address_clean (tr_address tr)" and "address_clean (t_address (tr_spec tr))"
  shows "address_clean (tr_address (apply_result t r tr))"
  using assms by (auto simp: apply_result_def record_address_def count_result_def check_address_def
      address_clean_def Let_def)

lemma apply_result_cold [simp]: "cold_transport (apply_result t r tr) = cold_transport tr"
  by (simp add: cold_transport_def apply_result_def record_address_def count_result_def Let_def)

definition event_result :: "engine_state \<Rightarrow> group_kind \<Rightarrow> rstr \<Rightarrow> group \<Rightarrow> group \<Rightarrow> bool" where
  "event_result st k n g g' \<longleftrightarrow> get_group st k n = Some g \<and> cold_group g' = cold_group g \<and>
     (group_inv g \<longrightarrow> g_kind g = k \<longrightarrow> group_inv g') \<and> (group_clean g \<longrightarrow> g_kind g = k \<longrightarrow> group_clean g')"

lemma probe_step_result:
  assumes "probe_step k n i t r st = Some (st', x)"
  obtains g where "event_result st k n g (g\<lparr>g_transports := (g_transports g)
      [i := apply_result t r (g_transports g ! i)]\<rparr>)" "i < length (g_transports g)"
    "st' = put_group st k n (g\<lparr>g_transports := (g_transports g)[i := apply_result t r (g_transports g ! i)]\<rparr>)"
proof -
  obtain g tr where g: "get_group st k n = Some g" "nth_opt (g_transports g) i = Some tr"
    and st': "st' = put_group st k n (g\<lparr>g_transports := (g_transports g)[i := apply_result t r tr]\<rparr>)"
    using assms(1) by (auto simp: probe_step_def Let_def bind_eq_Some_conv)
  show ?thesis
    by (rule that [of g]) (use g st' apply_result_clean in
      \<open>auto simp: event_result_def nth_opt_eq_Some cold_group_transport intro: group_inv_transport
        intro!: group_clean_transport\<close>)
qed

lemma mark_result:
  assumes "mark_started k n i t st = Some st' \<or> mark_idle k n i t st = Some st'"
  obtains g g' where "event_result st k n g g'" "st' = put_group st k n g'" "g_winner g' = g_winner g"
    "g_published g' = g_published g" "g_confirmed g' = g_confirmed g"
    "\<And>j. tr_state (g_transports g' ! j) = tr_state (g_transports g ! j) \<and>
       tr_address (g_transports g' ! j) = tr_address (g_transports g ! j) \<and>
       tr_last_success (g_transports g' ! j) = tr_last_success (g_transports g ! j)"
proof -
  obtain g a b where g: "get_group st k n = Some g" "i < length (g_transports g)"
    and st': "st' = put_group st k n (g\<lparr>g_transports := (g_transports g)
      [i := (g_transports g ! i)\<lparr>tr_probe_started := a, tr_next_due := b\<rparr>]\<rparr>)"
    using assms by (auto simp: mark_started_def mark_idle_def bind_eq_Some_conv nth_opt_eq_Some)
  show ?thesis
    by (rule that [OF _ st']) (use g in \<open>auto simp: event_result_def nth_list_update cold_transport_def
      intro!: cold_group_transport group_inv_transport group_clean_transport\<close>)
qed

lemma group_inv_error [simp]: "group_inv (g\<lparr>g_publish_error := e\<rparr>) = group_inv g"
  by (simp add: group_inv_def winner_in_range_def)

lemma group_clean_error [simp]: "group_clean (g\<lparr>g_publish_error := e\<rparr>) = group_clean g"
  by (simp add: group_clean_def)

lemma record_state:
  assumes "reconcile_record k n d out st = Some (st', x)"
  shows "st' = st \<or> (\<exists>e. st' = st\<lparr>en_hosts_error := e\<rparr>) \<or>
    (\<exists>g e. get_group st k n = Some g \<and> st' = put_group st k n (g\<lparr>g_publish_error := e\<rparr>))"
proof (cases out)
  case (RoutesPublished p)
  with assms obtain g where "get_group st k n = Some g"
    by (auto simp: reconcile_record_def bind_eq_Some_conv)
  with assms RoutesPublished show ?thesis
    by (cases "log_publish_error (g_publish_error g) (what_routes k n) (pb_error p)")
      (auto simp: reconcile_record_def)
qed (use assms in \<open>auto simp: reconcile_record_def split: prod.splits\<close>)

text \<open>The decision: what it can do to a group.\<close>

lemma decide_group_cases:
  assumes "decide_group now k n g = Some (g', a, lg)" and "g_kind g = k" and "winner_in_range g"
  shows "g_transports g' = g_transports g \<and> cold_group g' = cold_group g \<and>
    ((g_winner g' = g_winner g \<and> g_published g' = g_published g \<and> g_confirmed g' = g_confirmed g) \<or>
     (g_winner g' = None \<and> g_published g' = [] \<and> g_confirmed g' = g_confirmed g) \<or>
     (\<exists>w \<in> set (up_idxs g). g_winner g' = Some w \<and>
        g_confirmed g' = tr_last_success (g_transports g ! w) \<and>
        (g_published g' = g_published g \<and> (k = Peer \<longrightarrow> g_winner g = Some w) \<or>
         k = Peer \<and> g_published g' = tr_address (g_transports g ! w))))"
proof (cases "up_idxs g = []")
  case True
  with assms have "decide_all_down now k n g = (g', a, lg)" by (simp add: decide_group_down)
  then show ?thesis
    by (auto simp: decide_all_down_def Let_def cold_group_def split: if_splits)
next
  case False
  have g': "g' = elected now g"
    using decide_group_up [OF False assms(3), of now n] assms(1,2) by simp
  show ?thesis
    using pick_in [OF False, of now] assms(2)
    by (auto simp: g' elected_def Let_def cold_group_def)
qed

lemma decide_group_some:
  "g_kind g = k \<Longrightarrow> winner_in_range g \<Longrightarrow> decide_group now k n g \<noteq> None"
  using decide_group_up [of g now n] decide_group_down [of g now k n] by (cases "up_idxs g = []") auto

lemma decide_group_result:
  assumes "decide_group now k n g = Some (g', a, lg)" and "get_group st k n = Some g"
    and "g_kind g = k" and "winner_in_range g"
  shows "event_result st k n g g'"
proof -
  note c = decide_group_cases [OF assms(1,3,4)]
  have "g_kind (cold_group g') = g_kind (cold_group g)" using c by simp
  then have k: "g_kind g' = k" using assms(3) by simp
  have adr: "address_clean (tr_address (g_transports g ! w))"
    if "group_clean g" "w \<in> set (up_idxs g)" "k = Peer" for w
    using that assms(3) by (auto simp: group_clean_def up_idxs_iff)
  have i: "group_inv g'" if "group_inv g"
    using c that by (auto simp: group_inv_def winner_in_range_def up_idxs_iff)
  moreover have "group_clean g'" if "group_clean g"
    using c that k assms(3) adr [OF that] i by (auto simp: group_clean_def)
  ultimately show ?thesis using c assms(2) by (simp add: event_result_def)
qed

lemma engine_event_cases:
  assumes "engine_event st e = Some st'" and "state_inv st"
  shows "st' = st \<or> (\<exists>err. st' = st\<lparr>en_hosts_error := err\<rparr>) \<or>
    (\<exists>k n g g'. event_result st k n g g' \<and> st' = put_group st k n g')"
proof (cases e)
  case (Started k n i t)
  with assms(1) have "mark_started k n i t st = Some st' \<or> mark_idle k n i t st = Some st'" by simp
  then show ?thesis by (rule mark_result) blast
next
  case (Idled k n i t)
  with assms(1) have "mark_started k n i t st = Some st' \<or> mark_idle k n i t st = Some st'" by simp
  then show ?thesis by (rule mark_result) blast
next
  case (Observed k n i t r)
  with assms(1) obtain x where "probe_step k n i t r st = Some (st', x)" by auto
  then show ?thesis by (rule probe_step_result) blast
next
  case (Decided k n t)
  with assms(1) obtain g g' a lg where g: "get_group st k n = Some g"
    "decide_group t k n g = Some (g', a, lg)" "st' = put_group st k n g'"
    by (auto simp: decide_action_def bind_eq_Some_conv)
  have "g_kind g = k \<and> winner_in_range g"
    using state_sat_get [OF assms(2) g(1)] by (simp add: group_inv_def)
  with g decide_group_result show ?thesis by blast
next
  case (HostsRecorded d r)
  with assms(1) show ?thesis by (auto simp: reconcile_record_def split: prod.splits)
next
  case (RoutesRecorded k n d p)
  with assms(1) obtain x where "reconcile_record k n d (RoutesPublished p) st = Some (st', x)" by auto
  moreover have "event_result st k n g (g\<lparr>g_publish_error := e\<rparr>)" if "get_group st k n = Some g" for g e
    using that by (simp add: event_result_def cold_group_def)
  ultimately show ?thesis by (elim record_state [THEN disjE] disjE) blast+
qed

lemma engine_event_keeps:
  assumes "engine_event st e = Some st'" and "state_inv st"
  shows "state_inv st'" and "state_clean st \<Longrightarrow> state_clean st'" and "cold_state st' = cold_state st"
proof -
  have *: "state_inv st' \<and> (state_clean st \<longrightarrow> state_clean st') \<and> cold_state st' = cold_state st"
    if e: "event_result st k n g g'" and st': "st' = put_group st k n g'" for k n g g'
  proof -
    have "g_kind (cold_group g') = g_kind (cold_group g)" using e by (simp add: event_result_def)
    then have "g_kind g' = g_kind g" by simp
    then show ?thesis
      using e assms(2) unfolding st' event_result_def
      by (auto intro: state_sat_put cold_state_put)
  qed
  show "state_inv st'" "state_clean st \<Longrightarrow> state_clean st'" "cold_state st' = cold_state st"
    using engine_event_cases [OF assms] assms(2) * by auto
qed

interpretation engine: invariant_machine engine_step state_inv
  by unfold_locales (auto simp: engine_step_def intro: engine_event_keeps(1) split: option.split)

interpretation clean_engine: invariant_machine engine_step state_clean
  by unfold_locales (auto simp: engine_step_def dest: clean_inv intro: engine_event_keeps(2) split: option.split)

lemma engine_step_cold: "state_inv st \<Longrightarrow> cold_state (engine_step st e) = cold_state st"
  by (auto simp: engine_step_def dest: engine_event_keeps(3) split: option.split)

lemma run_events_cold: "state_inv st \<Longrightarrow> cold_state (run_events st es) = cold_state st"
  unfolding run_events_def
  by (induction es arbitrary: st) (simp_all add: engine_step_cold engine.step_inv)

lemma run_events_snoc: "run_events st (es @ [e]) = engine_step (run_events st es) e"
  by (simp add: run_events_def)

subsection \<open>No section panics\<close>

definition has_transport :: "engine_state \<Rightarrow> group_kind \<Rightarrow> rstr \<Rightarrow> nat \<Rightarrow> bool" where
  "has_transport st k n i \<longleftrightarrow> (case get_group st k n of Some g \<Rightarrow> i < length (g_transports g) | None \<Rightarrow> False)"

text \<open>The keys an event uses are keys of the engine.\<close>

fun event_ok :: "engine_state \<Rightarrow> event \<Rightarrow> bool" where
  "event_ok st (Started k n i t) = has_transport st k n i"
| "event_ok st (Observed k n i t r) = has_transport st k n i"
| "event_ok st (Decided k n t) = (get_group st k n \<noteq> None)"
| "event_ok st (HostsRecorded d r) = True"
| "event_ok st (RoutesRecorded k n d p) = (get_group st k n \<noteq> None)"
| "event_ok st (Idled k n i t) = has_transport st k n i"

lemma get_group_cold: "get_group (cold_state st) k n = map_option cold_group (get_group st k n)"
  by (cases k) (simp_all add: get_group_def groups_of_def cold_state_def cold_groups_def map_of_map)

lemma event_ok_cold: "event_ok (cold_state st) e = event_ok st e"
  by (cases e) (auto simp: has_transport_def get_group_cold split: option.splits)

lemma event_defined:
  assumes "state_inv st" and "event_ok st e"
  shows "engine_event st e \<noteq> None"
proof (cases e)
  case (Decided k n t)
  with assms(2) obtain g where g: "get_group st k n = Some g" by auto
  have "decide_group t k n g \<noteq> None"
    by (rule decide_group_some) (use state_sat_get [OF assms(1) g] in \<open>simp_all add: group_inv_def\<close>)
  with g Decided show ?thesis by (auto simp: decide_action_def)
next
  case (RoutesRecorded k n d p)
  with assms(2) obtain g where "get_group st k n = Some g" by auto
  with RoutesRecorded show ?thesis
    by (cases "log_publish_error (g_publish_error g) (what_routes k n) (pb_error p)")
      (simp add: reconcile_record_def)
qed (use assms(2) in \<open>auto simp: has_transport_def mark_started_def mark_idle_def probe_step_def
  reconcile_record_def Let_def split: option.splits prod.splits\<close>)

lemma transport_keys_iff:
  assumes "state_inv st"
  shows "(k, n, i) \<in> set (transport_keys st) \<longleftrightarrow> has_transport st k n i"
proof -
  have d: "distinct (map fst (groups_of k st))" for k
    using assms by (cases k) (auto simp: state_sat_def groups_sat_def hm_ok_def groups_of_def)
  have "(k, n, i) \<in> set (transport_keys st) \<longleftrightarrow>
      (\<exists>g. (n, g) \<in> set (groups_of k st) \<and> i < length (g_transports g))"
    by (cases k) (force simp: transport_keys_def keys_of_groups_def groups_of_def)+
  also have "\<dots> \<longleftrightarrow> (\<exists>g. get_group st k n = Some g \<and> i < length (g_transports g))"
    by (simp add: map_of_eq_Some_iff [OF d] get_group_def)
  also have "\<dots> \<longleftrightarrow> has_transport st k n i" by (auto simp: has_transport_def split: option.splits)
  finally show ?thesis .
qed

subsection \<open>The engine at start\<close>

lemma hm_values_map: "hm_values (map (\<lambda>(n, x). (n, f n x)) m) = map (\<lambda>(n, x). f n x) m"
  by (induction m) auto

lemma new_groups_sat:
  assumes "hm_ok m" and "\<And>n x. (n, x) \<in> set m \<Longrightarrow> g_kind (f n x) = k \<and> P (f n x)"
  shows "groups_sat P k (map (\<lambda>(n, x). (n, f n x)) m)"
  using assms by (auto simp: groups_sat_def hm_ok_def comp_def split_beta)

lemma new_runtimes_fields:
  assumes "tr \<in> set (new_runtimes k n ts)"
  shows "tr_address tr = []" "tr_spec tr \<in> set ts" "tr_last_success tr = None" "tr_state tr = Unknown"
    "cold_transport tr = tr"
  using assms
  by (auto simp: new_runtimes_def new_runtime_def in_set_enumerate_eq cold_transport_def)

lemma new_state_inv:
  "hm_ok (c_peers c) \<Longrightarrow> hm_ok (c_uplinks c) \<Longrightarrow> state_inv (new_state c)"
  unfolding state_sat_def new_state_def
  by (auto intro!: new_groups_sat simp: group_inv_def winner_in_range_def new_peer_group_def
      new_uplink_group_def)

lemma new_state_clean:
  assumes "config_ok c" and "hm_ok (c_peers c)" and "hm_ok (c_uplinks c)"
  shows "state_clean (new_state c)"
proof -
  have "address_clean (t_address t)" if "(n, p) \<in> set (c_peers c)" "t \<in> set (pe_transports p)" for n p t
    using assms(1) that by (force simp: config_ok_def peer_ok_def address_clean_def)
  then have "group_clean (new_peer_group n p)" if "(n, p) \<in> set (c_peers c)" for n p
    using that by (auto simp: group_clean_def group_inv_def winner_in_range_def new_peer_group_def
        new_runtimes_fields(1) dest: new_runtimes_fields(2))
  then show ?thesis
    using assms(2,3) unfolding state_sat_def new_state_def
    by (auto intro!: new_groups_sat simp: group_clean_def group_inv_def winner_in_range_def
        new_peer_group_def new_uplink_group_def)
qed

lemma cold_new_group [simp]:
  "cold_group (new_peer_group n p) = new_peer_group n p"
  "cold_group (new_uplink_group n u) = new_uplink_group n u"
  by (simp_all add: cold_group_def new_peer_group_def new_uplink_group_def map_idI new_runtimes_fields(5))

lemma cold_new_state [simp]: "cold_state (new_state c) = new_state c"
  by (auto simp: cold_state_def new_state_def cold_groups_def)

text \<open>The state file may change nothing but what a run of the engine may change.\<close>

lemma restore_group_cold [simp]: "cold_group (fst (restore_group n now pg g)) = cold_group g"
proof -
  have c: "cold_transport (restore_transport pts tr) = cold_transport tr" for pts tr
    by (simp add: restore_transport_def cold_transport_def Let_def split: option.split)
  show ?thesis
    by (simp add: restore_group_def Let_def split_beta cold_group_def comp_def c expire_restored_fst)
qed

lemma restore_group_inv:
  assumes "group_inv g"
  shows "group_inv (fst (restore_group n now pg g))"
  using restore_group_outcome [of n now pg g] restored_winner_Some [of pg g]
  by (auto simp: group_inv_def winner_in_range_def split: if_splits)

definition persisted_clean :: "persisted_group \<Rightarrow> bool" where
  "persisted_clean pg \<longleftrightarrow> address_clean (pg_published pg) \<and>
     (\<forall>pt \<in> set (pg_transports pg). address_clean (pt_address pt))"

lemma restore_transport_clean:
  assumes "\<forall>pt \<in> set pts. address_clean (pt_address pt)" and "address_clean (tr_address tr)"
    and "address_clean (t_address (tr_spec tr))"
  shows "address_clean (tr_address (restore_transport pts tr))"
proof (cases "saved_by_id pts (tr_key tr)")
  case (Some pt)
  then have "pt \<in> set pts" using find_SomeD [of _ "rev pts" pt] by (auto simp: saved_by_id_def)
  with Some assms show ?thesis by (simp add: restore_transport_def Let_def)
qed (use assms in \<open>simp add: restore_transport_def\<close>)

lemma restore_group_clean:
  assumes "group_clean g" and "persisted_clean pg"
  shows "group_clean (fst (restore_group n now pg g))"
  using restore_group_outcome [of n now pg g] restore_group_inv [of g n now pg] assms
    restore_transport_clean
  by (auto simp: group_clean_def persisted_clean_def split: if_splits)

lemma restore_groups_alt:
  "fst (restore_groups now saved gs) =
     map (\<lambda>(n, g). (n, case hm_get saved n of None \<Rightarrow> g | Some pg \<Rightarrow> fst (restore_group n now pg g))) gs"
  by (auto simp: restore_groups_def Let_def split_beta split: option.splits)

lemma restore_groups_sat:
  assumes "groups_sat P k gs"
    and "\<And>n pg g. hm_get saved n = Some pg \<Longrightarrow> P g \<Longrightarrow> P (fst (restore_group n now pg g))"
  shows "groups_sat P k (fst (restore_groups now saved gs))"
  using assms
  by (auto simp: groups_sat_def hm_ok_def restore_groups_alt comp_def split_beta split: option.splits)

lemma restore_groups_cold: "cold_groups (fst (restore_groups now saved gs)) = cold_groups gs"
  by (auto simp: restore_groups_alt cold_groups_def split: option.splits)

lemma engine_new_cases:
  obtains "fst (engine_new parse now now' f c) = new_state c"
  | ps where "fst (engine_new parse now now' f c) =
      (new_state c)\<lparr>en_peers := fst (restore_groups now (ps_peers ps) (en_peers (new_state c))),
        en_uplinks := fst (restore_groups now' (ps_uplinks ps) (en_uplinks (new_state c)))\<rparr>"
    "\<exists>d. f = StateData d \<and> parse d = Inr ps"
proof (cases f)
  case (StateData d)
  then show ?thesis
    using that by (cases "parse d") (auto simp: engine_new_def load_state_def restore_def split_beta)
qed (use that in \<open>auto simp: engine_new_def load_state_def\<close>)

lemma engine_new_inv:
  assumes "hm_ok (c_peers c)" and "hm_ok (c_uplinks c)"
  shows "state_inv (fst (engine_new parse now now' f c)) \<and>
    cold_state (fst (engine_new parse now now' f c)) = new_state c"
proof (cases rule: engine_new_cases [of parse now now' f c])
  case 1
  then show ?thesis using new_state_inv [OF assms] by simp
next
  case (2 ps)
  have "cold_state (new_state c) = new_state c" by simp
  then show ?thesis
    using new_state_inv [OF assms] unfolding 2(1)
    by (auto simp: state_sat_def cold_state_def restore_groups_cold intro!: restore_groups_sat restore_group_inv)
qed

lemma engine_new_clean:
  assumes "config_ok c" and "hm_ok (c_peers c)" and "hm_ok (c_uplinks c)"
    and "\<And>d ps pg. f = StateData d \<Longrightarrow> parse d = Inr ps \<Longrightarrow>
      pg \<in> set (hm_values (ps_peers ps)) \<union> set (hm_values (ps_uplinks ps)) \<Longrightarrow> persisted_clean pg"
  shows "state_clean (fst (engine_new parse now now' f c))"
proof (cases rule: engine_new_cases [of parse now now' f c])
  case 1
  then show ?thesis using new_state_clean [OF assms(1-3)] by simp
next
  case (2 ps)
  have "persisted_clean pg" if "hm_get (ps_peers ps) n = Some pg \<or> hm_get (ps_uplinks ps) n = Some pg" for n pg
    using that 2(2) assms(4) by (force dest: map_of_SomeD)
  then show ?thesis
    using new_state_clean [OF assms(1-3)] unfolding 2(1)
    by (auto simp: state_sat_def intro!: restore_groups_sat restore_group_clean)
qed

end
