(* ===== verification/Runs.thy ===== *)
theory Runs
  imports Reconcile
begin

text \<open>
  Runs of the engine: what holds in every state that any sequence of sections, in any
  interleaving of the workers, can reach from \<open>Engine::new\<close>.  No section panics, whatever the
  state file held; what is published is fit for a hosts file; and on a cold start every
  published address and every confirmation time goes back to a successful probe.
\<close>

lemma run_events_inv:
  assumes "state_inv st"
  shows "state_inv (run_events st es)" and "cold_state (run_events st es) = cold_state st"
  using engine.run_inv [OF assms, of es] run_events_cold [OF assms] by (simp_all add: run_events_def)

lemma run_events_clean: "state_clean st \<Longrightarrow> state_clean (run_events st es)"
  using clean_engine.run_inv [of st es] by (simp add: run_events_def)

lemma dump_groups_some:
  "\<forall>g \<in> set (hm_values gs). winner_in_range g \<Longrightarrow> dump_groups gs \<noteq> None"
proof (induction gs)
  case (Cons x gs)
  obtain n g where x: "x = (n, g)" by (cases x)
  have "winner_in_range g" using Cons.prems x by simp
  then obtain pg where "dump_group g = Some pg" by (rule dump_group_Some)
  with Cons x show ?case by auto
qed simp

lemma dump_some:
  assumes "state_inv st"
  shows "dump st \<noteq> None"
proof -
  have "\<forall>g \<in> set (hm_values (en_peers st)). winner_in_range g"
    "\<forall>g \<in> set (hm_values (en_uplinks st)). winner_in_range g"
    using assms by (auto simp: state_sat_def groups_sat_def group_inv_def)
  then have "dump_groups (en_peers st) \<noteq> None" "dump_groups (en_uplinks st) \<noteq> None"
    by (simp_all only: dump_groups_some not_False_eq_True)
  then show ?thesis by (auto simp: dump_def)
qed

section \<open>Evidence\<close>

text \<open>A healthy observation of a transport, among the events so far.\<close>

definition observed_healthy ::
  "event list \<Rightarrow> group_kind \<Rightarrow> rstr \<Rightarrow> nat \<Rightarrow> int \<Rightarrow> probe_result \<Rightarrow> bool" where
  "observed_healthy es k n i t r \<longleftrightarrow> Observed k n i t r \<in> set es \<and> pr_healthy (check_address r)"

definition address_backed :: "event list \<Rightarrow> group_kind \<Rightarrow> rstr \<Rightarrow> nat \<Rightarrow> rstr \<Rightarrow> rstr \<Rightarrow> bool" where
  "address_backed es k n i declared a \<longleftrightarrow>
     a = declared \<or> (\<exists>t r. observed_healthy es k n i t r \<and> pr_address (check_address r) = a)"

definition transport_backed ::
  "event list \<Rightarrow> group_kind \<Rightarrow> rstr \<Rightarrow> nat \<Rightarrow> transport_runtime \<Rightarrow> bool" where
  "transport_backed es k n i tr \<longleftrightarrow>
     (tr_state tr = Up \<longrightarrow> (\<exists>t r. observed_healthy es k n i t r)) \<and>
     (\<forall>t. tr_last_success tr = Some t \<longrightarrow> (\<exists>r. observed_healthy es k n i t r)) \<and>
     (tr_address tr = [] \<or> address_backed es k n i (t_address (tr_spec tr)) (tr_address tr))"

definition group_backed :: "event list \<Rightarrow> group_kind \<Rightarrow> rstr \<Rightarrow> group \<Rightarrow> bool" where
  "group_backed es k n g \<longleftrightarrow>
     (\<forall>i < length (g_transports g). transport_backed es k n i (g_transports g ! i)) \<and>
     (\<forall>t. g_confirmed g = Some t \<longrightarrow> (\<exists>i < length (g_transports g). \<exists>r. observed_healthy es k n i t r)) \<and>
     (g_published g \<noteq> [] \<longrightarrow>
        (\<exists>i < length (g_transports g). (\<exists>t r. observed_healthy es k n i t r) \<and>
           address_backed es k n i (t_address (tr_spec (g_transports g ! i))) (g_published g)))"

lemma observed_healthy_mono: "observed_healthy es k n i t r \<Longrightarrow> observed_healthy (es @ fs) k n i t r"
  by (auto simp: observed_healthy_def)

lemma address_backed_mono: "address_backed es k n i d a \<Longrightarrow> address_backed (es @ fs) k n i d a"
  by (auto simp: address_backed_def intro: observed_healthy_mono)

lemma transport_backed_mono: "transport_backed es k n i tr \<Longrightarrow> transport_backed (es @ fs) k n i tr"
  unfolding transport_backed_def by (blast intro: observed_healthy_mono address_backed_mono)

lemma group_backed_mono: "group_backed es k n g \<Longrightarrow> group_backed (es @ fs) k n g"
  unfolding group_backed_def
  by (blast intro: observed_healthy_mono address_backed_mono transport_backed_mono)

lemma group_backed_transport:
  assumes "group_backed es k n g" and "i < length (g_transports g)"
    and "transport_backed es k n i (g_transports g ! i) \<Longrightarrow> transport_backed es k n i tr'"
    and "tr_spec tr' = tr_spec (g_transports g ! i)"
  shows "group_backed es k n (g\<lparr>g_transports := (g_transports g)[i := tr']\<rparr>)"
proof -
  have spec: "tr_spec ((g_transports g)[i := tr'] ! j) = tr_spec (g_transports g ! j)"
    if "j < length (g_transports g)" for j
    using assms(2,4) that by (cases "j = i") auto
  have "transport_backed es k n j ((g_transports g)[i := tr'] ! j)"
    if "j < length (g_transports g)" for j
    using assms(1-3) that by (auto simp: nth_list_update group_backed_def)
  then show ?thesis
    using assms(1) by (auto simp: group_backed_def spec cong: conj_cong)
qed

lemma apply_result_backed:
  assumes "transport_backed es k n i tr"
  shows "transport_backed (es @ [Observed k n i t r]) k n i (apply_result t r tr)"
proof -
  let ?tr = "apply_result t r tr" and ?es = "es @ [Observed k n i t r]"
  have b: "transport_backed ?es k n i tr" using assms by (rule transport_backed_mono)
  have now: "pr_healthy (check_address r) \<Longrightarrow> observed_healthy ?es k n i t r"
    by (simp add: observed_healthy_def)
  have "tr_state ?tr = Up \<Longrightarrow> tr_state tr = Up \<or> pr_healthy (check_address r)"
    by (auto simp: apply_result_def record_address_def count_result_def Let_def split: if_splits)
  then have "tr_state ?tr = Up \<Longrightarrow> \<exists>t r. observed_healthy ?es k n i t r"
    using b now unfolding transport_backed_def by blast
  moreover have "tr_last_success ?tr = tr_last_success tr \<or>
      pr_healthy (check_address r) \<and> tr_last_success ?tr = Some t"
    by (auto simp: apply_result_def record_address_def count_result_def Let_def)
  then have "tr_last_success ?tr = Some u \<Longrightarrow> \<exists>r. observed_healthy ?es k n i u r" for u
    using b now unfolding transport_backed_def by auto
  moreover have "tr_address ?tr = tr_address tr \<or> tr_address ?tr = t_address (tr_spec tr) \<or>
      pr_healthy (check_address r) \<and> pr_address (check_address r) = tr_address ?tr"
    by (auto simp: apply_result_def record_address_def count_result_def Let_def)
  then have "tr_address ?tr = [] \<or> address_backed ?es k n i (t_address (tr_spec tr)) (tr_address ?tr)"
    using b now unfolding transport_backed_def address_backed_def by auto
  ultimately show ?thesis by (simp add: transport_backed_def)
qed

lemma decide_backed:
  assumes "decide_group t k n g = Some (g', a, lg)" and "g_kind g = k" and "winner_in_range g"
    and "group_backed es k n g"
  shows "group_backed es k n g'"
proof -
  have up: "w < length (g_transports g) \<and> (\<exists>t r. observed_healthy es k n w t r) \<and>
      (tr_address (g_transports g ! w) = [] \<or>
       address_backed es k n w (t_address (tr_spec (g_transports g ! w))) (tr_address (g_transports g ! w))) \<and>
      (\<forall>t. tr_last_success (g_transports g ! w) = Some t \<longrightarrow> (\<exists>r. observed_healthy es k n w t r))"
    if "w \<in> set (up_idxs g)" for w
    using assms(4) that by (simp add: group_backed_def transport_backed_def up_idxs_iff)
  show ?thesis
    using decide_group_cases [OF assms(1-3)] assms(4) up unfolding group_backed_def
    by (elim conjE disjE bexE) (simp, simp, metis+)
qed

lemma get_group_put:
  "get_group (put_group st k n g) k' n' = (if k' = k \<and> n' = n then Some g else get_group st k' n')"
  by (cases k; cases k') (auto simp: get_group_def put_group_def groups_of_def update_conv')

lemma get_group_error [simp]: "get_group (st\<lparr>en_hosts_error := e\<rparr>) k n = get_group st k n"
  by (cases k) (simp_all add: get_group_def groups_of_def)

lemma group_backed_error [simp]: "group_backed es k n (g\<lparr>g_publish_error := e\<rparr>) = group_backed es k n g"
  by (simp add: group_backed_def)

text \<open>One section, seen from the group it writes.\<close>

lemma event_backed:
  assumes "engine_event st e = Some st'" and "state_inv st"
    and "\<And>k n g. get_group st k n = Some g \<Longrightarrow> group_backed es k n g" and "get_group st' k n = Some g"
  shows "group_backed (es @ [e]) k n g"
proof -
  have old: "group_backed (es @ [e]) k n g0" if "get_group st k n = Some g0" for k n g0
    using group_backed_mono [OF assms(3) [OF that]] .
  have one: ?thesis
    if "st' = put_group st k1 n1 g1" and "group_backed (es @ [e]) k1 n1 g1" for k1 n1 g1
    using assms(4) that old by (auto simp: get_group_put split: if_splits)
  have mark: ?thesis if m: "st' = put_group st k1 n1 (g1\<lparr>g_transports := (g_transports g1)[i := tr']\<rparr>)"
    "get_group st k1 n1 = Some g1" "i < length (g_transports g1)" "tr_state tr' = tr_state (g_transports g1 ! i)"
    "tr_address tr' = tr_address (g_transports g1 ! i)" "tr_spec tr' = tr_spec (g_transports g1 ! i)"
    "tr_last_success tr' = tr_last_success (g_transports g1 ! i)" for k1 n1 g1 i tr'
    by (rule one [OF m(1)], rule group_backed_transport [OF old [OF m(2)]])
      (use m(3-7) in \<open>simp_all add: transport_backed_def\<close>)
  show ?thesis
  proof (cases e)
    case (Started k1 n1 i t)
    with assms(1) obtain g1 where m: "get_group st k1 n1 = Some g1" "i < length (g_transports g1)"
      "st' = put_group st k1 n1 (g1\<lparr>g_transports := (g_transports g1)
         [i := (g_transports g1 ! i)\<lparr>tr_probe_started := Some t, tr_next_due := None\<rparr>]\<rparr>)"
      by (auto simp: mark_started_def bind_eq_Some_conv nth_opt_eq_Some)
    show ?thesis by (rule mark [OF m(3,1,2)]) simp_all
  next
    case (Idled k1 n1 i t)
    with assms(1) obtain g1 where m: "get_group st k1 n1 = Some g1" "i < length (g_transports g1)"
      "st' = put_group st k1 n1 (g1\<lparr>g_transports := (g_transports g1)
         [i := (g_transports g1 ! i)\<lparr>tr_probe_started := None, tr_next_due := Some t\<rparr>]\<rparr>)"
      by (auto simp: mark_idle_def bind_eq_Some_conv nth_opt_eq_Some)
    show ?thesis by (rule mark [OF m(3,1,2)]) simp_all
  next
    case (Observed k1 n1 i t r)
    with assms(1) obtain x where "probe_step k1 n1 i t r st = Some (st', x)" by auto
    then obtain g1 where g1: "get_group st k1 n1 = Some g1" "i < length (g_transports g1)"
      "st' = put_group st k1 n1 (g1\<lparr>g_transports := (g_transports g1)[i := apply_result t r (g_transports g1 ! i)]\<rparr>)"
      by (rule probe_step_result) (auto simp: event_result_def)
    have b: "transport_backed es k1 n1 i (g_transports g1 ! i)"
      using assms(3) [OF g1(1)] g1(2) by (simp add: group_backed_def)
    show ?thesis
      by (rule one [OF g1(3)], rule group_backed_transport [OF old [OF g1(1)] g1(2)])
        (use apply_result_backed [OF b] Observed in simp_all)
  next
    case (Decided k1 n1 t)
    with assms(1) obtain g1 g2 a lg where g1: "get_group st k1 n1 = Some g1"
      "decide_group t k1 n1 g1 = Some (g2, a, lg)" "st' = put_group st k1 n1 g2"
      by (auto simp: decide_action_def bind_eq_Some_conv)
    have "g_kind g1 = k1 \<and> winner_in_range g1"
      using state_sat_get [OF assms(2) g1(1)] by (simp add: group_inv_def)
    then show ?thesis using one [OF g1(3)] decide_backed [OF g1(2)] old [OF g1(1)] by blast
  next
    case (HostsRecorded d r)
    with assms(1) have "\<exists>err. st' = st\<lparr>en_hosts_error := err\<rparr>"
      by (auto simp: reconcile_record_def split: prod.splits)
    then show ?thesis using assms(4) old by auto
  next
    case (RoutesRecorded k1 n1 d p)
    with assms(1) obtain x where "reconcile_record k1 n1 d (RoutesPublished p) st = Some (st', x)" by auto
    from record_state [OF this] show ?thesis
    proof (elim disjE exE conjE)
      fix g1 err assume "get_group st k1 n1 = Some g1" "st' = put_group st k1 n1 (g1\<lparr>g_publish_error := err\<rparr>)"
      then show ?thesis using one [of k1 n1] old [of k1 n1 g1] by simp
    qed (use assms(4) old in auto)
  qed
qed

lemma run_backed:
  assumes "state_inv st0" and "\<And>k n g. get_group st0 k n = Some g \<Longrightarrow> group_backed [] k n g"
  shows "get_group (run_events st0 es) k n = Some g \<Longrightarrow> group_backed es k n g"
proof (induction es arbitrary: k n g rule: rev_induct)
  case Nil
  then show ?case using assms(2) by (simp add: run_events_def)
next
  case (snoc e es)
  let ?st = "run_events st0 es"
  show ?case
  proof (cases "engine_event ?st e")
    case None
    then have "get_group ?st k n = Some g"
      using snoc.prems by (simp add: run_events_snoc engine_step_def)
    then show ?thesis using group_backed_mono snoc.IH by blast
  next
    case (Some st')
    then have "get_group st' k n = Some g"
      using snoc.prems by (simp add: run_events_snoc engine_step_def)
    then show ?thesis
      using event_backed [OF Some run_events_inv(1) [OF assms(1)]] snoc.IH by blast
  qed
qed

lemma new_state_get:
  "get_group (new_state c) Peer n = map_option (new_peer_group n) (hm_get (c_peers c) n)"
  "get_group (new_state c) Uplink n = map_option (new_uplink_group n) (hm_get (c_uplinks c) n)"
proof -
  have *: "map_of (map (\<lambda>(n, x). (n, f n x)) m) n = map_option (f n) (map_of m n)"
    for f :: "rstr \<Rightarrow> 'a \<Rightarrow> 'b" and m by (induction m) auto
  show "get_group (new_state c) Peer n = map_option (new_peer_group n) (hm_get (c_peers c) n)"
    "get_group (new_state c) Uplink n = map_option (new_uplink_group n) (hm_get (c_uplinks c) n)"
    by (simp_all add: get_group_def groups_of_def new_state_def *)
qed

lemma new_group_backed: "get_group (new_state c) k n = Some g \<Longrightarrow> group_backed [] k n g"
  by (cases k)
    (auto simp: new_state_get group_backed_def transport_backed_def new_peer_group_def new_uplink_group_def
      new_runtimes_fields dest: nth_mem)

section \<open>Properties\<close>

text \<open>The sections of the worker with a given key.\<close>

fun event_of :: "group_kind \<times> rstr \<times> nat \<Rightarrow> event \<Rightarrow> bool" where
  "event_of (k, n, i) (Started k' n' i' t) = (k' = k \<and> n' = n \<and> i' = i)"
| "event_of (k, n, i) (Observed k' n' i' t r) = (k' = k \<and> n' = n \<and> i' = i)"
| "event_of (k, n, i) (Decided k' n' t) = (k' = k \<and> n' = n)"
| "event_of (k, n, i) (HostsRecorded d r) = True"
| "event_of (k, n, i) (RoutesRecorded k' n' d p) = (k' = k \<and> n' = n)"
| "event_of (k, n, i) (Idled k' n' i' t) = (k' = k \<and> n' = n \<and> i' = i)"

lemma event_of_ok:
  assumes "state_inv st" and "key \<in> set (transport_keys st)" and "event_of key e"
  shows "event_ok st e"
proof -
  obtain k n i where key: "key = (k, n, i)" by (cases key)
  have "has_transport st k n i" using assms(1,2) by (simp add: key transport_keys_iff)
  then show ?thesis
    using assms(3) by (cases e) (auto simp: key has_transport_def split: option.splits)
qed

text \<open>
  C8.  No panic: whatever the state file held, after any sequence of sections of any workers,
  every section of a worker that was started for one of the engine's transports finds its
  group, its transport and the winner it names; the state can be saved; and the part of
  the state that the configuration fixed is still that of the configuration.
\<close>

theorem sections_never_panic:
  assumes "hm_ok (c_peers c)" and "hm_ok (c_uplinks c)"
    and "key \<in> set (transport_keys (fst (engine_new parse now now' f c)))" and "event_of key e"
  shows "\<exists>st'. engine_event (run_events (fst (engine_new parse now now' f c)) es) e = Some st' \<and>
    dump st' \<noteq> None \<and> cold_state st' = new_state c"
proof -
  let ?st0 = "fst (engine_new parse now now' f c)"
  note inv = engine_new_inv [OF assms(1,2), of parse now now' f]
  note run = run_events_inv [OF conjunct1 [OF inv], of es]
  have "event_ok (cold_state (run_events ?st0 es)) e"
    using event_of_ok [OF conjunct1 [OF inv] assms(3,4)] by (simp add: run(2) event_ok_cold)
  then have "event_ok (run_events ?st0 es) e" by (simp add: event_ok_cold)
  with event_defined [OF run(1)] obtain st' where st': "engine_event (run_events ?st0 es) e = Some st'"
    by blast
  show ?thesis
    using st' engine_event_keeps [OF st' run(1)] dump_some [of st'] run(2) inv by auto
qed

definition demo_config :: config where
  "demo_config =
     \<lparr>c_daemon = \<lparr>dm_state_dir = lit ''/var/lib/nixnet'', dm_runtime_dir = lit ''nixnet'',
        dm_hosts_file = lit ''/run/nixnet/hosts'', dm_ip_path = lit ''ip'',
        dm_default_probe = \<lparr>d_interval_ms = 1, d_timeout_ms = 1, d_up_threshold = 1, d_down_threshold = 1\<rparr>\<rparr>,
      c_peers = [(lit ''h'', \<lparr>pe_hostnames = [lit ''h'', lit ''alias''],
        pe_transports = [demo_transport (lit ''lan'') (lit ''192.0.2.10'') 10, demo_transport (lit ''vpn'') [] 20],
        pe_min_hold_ms = 10000, pe_on_all_down = ON_ALL_DOWN_LAST_KNOWN_GOOD, pe_max_age_sec = Some 20\<rparr>)],
      c_uplinks = []\<rparr>"

lemma demo_config_maps [simp]: "hm_ok (c_peers demo_config)" "hm_ok (c_uplinks demo_config)"
  by (simp_all add: demo_config_def hm_ok_def)

lemma demo_tokens:
  "is_hosts_token (lit ''h'')" "is_hosts_token (lit ''alias'')"
  "trim (lit ''lan'') \<noteq> []" "trim (lit ''vpn'') \<noteq> []"
  by (simp_all add: is_hosts_token_def str_simps is_whitespace_def trim_def trim_start_def trim_end_def)

lemma demo_config_ok: "config_ok demo_config"
  by (simp add: demo_config_def config_ok_def peer_ok_def ids_ok_def probe_ok_def demo_transport_def
      demo_probe_def is_ip_literal_examples demo_tokens)

lemma demo_new_group:
  "get_group (new_state demo_config) Peer (lit ''h'') =
     Some (new_peer_group (lit ''h'') (snd (hd (c_peers demo_config))))"
  "g_kind (new_peer_group n p) = Peer" "g_hostnames (new_peer_group n p) = pe_hostnames p"
  by (simp_all add: new_state_get demo_config_def new_peer_group_def)

theorem sections_never_panic_witness:
  "\<exists>st'. engine_event (run_events (fst (engine_new (\<lambda>_. Inl []) 0 0 (StateData ()) demo_config))
       [Observed Peer (lit ''h'') 0 1 ok_result]) (Decided Peer (lit ''h'') 5) = Some st' \<and> dump st' \<noteq> None \<and> cold_state st' = new_state demo_config"
proof (rule sections_never_panic)
  show "(Peer, lit ''h'', 1) \<in> set (transport_keys (fst (engine_new (\<lambda>_. Inl []) 0 0 (StateData ()) demo_config)))"
    by (simp add: engine_new_def load_state_def transport_keys_iff new_state_inv has_transport_def
        demo_new_group) (simp add: new_peer_group_def new_runtimes_def demo_config_def)
qed simp_all

text \<open>
  What reaches the hosts file: in a clean state of a well-formed configuration every entry
  is an IP literal with at least one name, and no field of it has whitespace or a comment
  sign in it.
\<close>

lemma clean_entries:
  assumes "config_ok c" and clean: "state_clean st" and cold: "cold_state st = new_state c"
    and "\<And>t s. fmt t = Some s \<Longrightarrow> is_token s" and "e \<in> set (peer_entries fmt st)"
  shows "clean_entry e \<and> is_ip_literal (e_address e)"
proof -
  from assms(5) obtain g where g: "g \<in> set (hm_values (en_peers st))" "g_published g \<noteq> []"
    "e = entry_of_group fmt g"
    by (auto simp: peer_entries_def)
  then obtain n where n: "get_group st Peer n = Some g"
    using clean by (auto simp: state_sat_def groups_sat_def hm_ok_def get_group_def groups_of_def)
  have "group_clean g \<and> g_kind g = Peer" using state_sat_get [OF clean n] by simp
  then have ip: "is_ip_literal (g_published g)"
    using g(2) by (simp add: group_clean_def address_clean_def)
  have "map_option cold_group (get_group st Peer n) = get_group (new_state c) Peer n"
    using get_group_cold [of st Peer n] cold by simp
  then obtain p where p: "cold_group g = new_peer_group n p" "hm_get (c_peers c) n = Some p"
    using n by (cases "hm_get (c_peers c) n") (simp_all add: new_state_get)
  then have ok: "peer_ok p" using assms(1) by (force simp: config_ok_def dest: map_of_SomeD)
  have "g_hostnames g = pe_hostnames p"
    using arg_cong [OF p(1), of g_hostnames] by (simp add: cold_group_def new_peer_group_def)
  with ok have "g_hostnames g \<noteq> [] \<and> (\<forall>h \<in> set (g_hostnames g). is_token h)"
    by (auto simp: peer_ok_def is_hosts_token_def is_token_def)
  then show ?thesis
    using ip is_ip_literal_token [OF ip] assms(4)
    by (auto simp: g(3) entry_of_group_def clean_entry_def is_token_def bind_eq_Some_conv)
qed

lemma get_group_observed:
  assumes "get_group st k n = Some g" and "nth_opt (g_transports g) i = Some tr"
  shows "get_group (engine_step st (Observed k n i t r)) k n =
    Some (g\<lparr>g_transports := (g_transports g)[i := apply_result t r tr]\<rparr>)"
  using assms by (simp add: engine_step_def probe_step_def Let_def get_group_put)

lemma get_group_decided:
  assumes "get_group st k n = Some g" and "decide_group t k n g = Some (g', a, lg)"
  shows "get_group (engine_step st (Decided k n t)) k n = Some g'"
  using assms by (simp add: engine_step_def decide_action_def get_group_put)

definition demo_run :: "event list" where
  "demo_run = [Observed Peer (lit ''h'') 0 1 ok_result, Observed Peer (lit ''h'') 0 2 ok_result,
     Decided Peer (lit ''h'') 3]"

lemma demo_run_group:
  "\<exists>g. get_group (run_events (new_state demo_config) demo_run) Peer (lit ''h'') = Some g \<and>
     g_confirmed g = Some 2 \<and> g_published g = lit ''192.0.2.10'' \<and> length (g_transports g) = 2"
proof -
  let ?p = "snd (hd (c_peers demo_config))" and ?st = "new_state demo_config"
  let ?g0 = "new_peer_group (lit ''h'') ?p"
  let ?tr0 = "new_runtime Peer (lit ''h'') 0 (demo_transport (lit ''lan'') (lit ''192.0.2.10'') 10)"
  let ?tr1 = "new_runtime Peer (lit ''h'') (Suc 0) (demo_transport (lit ''vpn'') [] 20)"
  let ?up = "apply_result 2 ok_result (apply_result 1 ok_result ?tr0)"
  have ts: "g_transports ?g0 = [?tr0, ?tr1]"
    by (simp add: new_peer_group_def new_runtimes_def demo_config_def)
  let ?g2 = "?g0\<lparr>g_transports := [?up, ?tr1]\<rparr>"
  have 1: "get_group (engine_step ?st (Observed Peer (lit ''h'') 0 1 ok_result)) Peer (lit ''h'') =
      Some (?g0\<lparr>g_transports := [apply_result 1 ok_result ?tr0, ?tr1]\<rparr>)"
    using get_group_observed [OF demo_new_group(1), of 0 ?tr0] by (simp add: ts)
  have 2: "get_group (engine_step (engine_step ?st (Observed Peer (lit ''h'') 0 1 ok_result))
      (Observed Peer (lit ''h'') 0 2 ok_result)) Peer (lit ''h'') = Some ?g2"
    using get_group_observed [OF 1, of 0 "apply_result 1 ok_result ?tr0"] by simp
  have up: "tr_state ?up = Up" "tr_last_success ?up = Some 2" "tr_address ?up = lit ''192.0.2.10''"
    "tr_state (new_runtime Peer (lit ''h'') (Suc 0) t) = Unknown" for t
    by (simp_all add: apply_result_def record_address_def count_result_def check_address_def Let_def
        ok_result_def new_runtime_def demo_transport_def demo_probe_def threshold_def sat_add64_def
        i64_max_def i64_min_def)
  have idx: "up_idxs ?g2 = [0]" by (simp add: up_idxs_def up upt_rec)
  have kind: "g_kind ?g0 = Peer" "g_winner ?g0 = None" "winner_in_range ?g2"
    by (simp_all add: new_peer_group_def winner_in_range_def)
  have "pick 3 ?g2 = 0" using pick_in [of ?g2 3] idx by simp
  then have "decide_group 3 Peer (lit ''h'') ?g2 =
      Some (elected 3 ?g2, elected_action 3 ?g2, elected_log 3 (lit ''h'') ?g2) \<and>
      g_confirmed (elected 3 ?g2) = Some 2 \<and> g_published (elected 3 ?g2) = lit ''192.0.2.10'' \<and>
      length (g_transports (elected 3 ?g2)) = 2"
    using decide_group_up [of ?g2 3 "lit ''h''"] by (simp add: idx kind elected_def Let_def up)
  with get_group_decided [OF 2] show ?thesis by (simp add: run_events_def demo_run_def)
qed

text \<open>
  C9.  Nothing is made up on a cold start: in every reachable state, the confirmation time
  of a group is the time of a successful probe of one of its transports, and an address
  that is published was reported by a successful probe of a transport, or is the declared
  address of a transport that had one.
\<close>

theorem published_was_probed:
  assumes "hm_ok (c_peers c)" and "hm_ok (c_uplinks c)"
    and "get_group (run_events (new_state c) es) k n = Some g"
  shows "(\<forall>t. g_confirmed g = Some t \<longrightarrow>
      (\<exists>i r. Observed k n i t r \<in> set es \<and> pr_healthy (check_address r))) \<and>
    (g_published g \<noteq> [] \<longrightarrow>
      (\<exists>i < length (g_transports g). \<exists>t r. Observed k n i t r \<in> set es \<and> pr_healthy (check_address r) \<and>
         (g_published g = pr_address (check_address r) \<or>
          g_published g = t_address (tr_spec (g_transports g ! i)))))"
proof -
  have "group_backed es k n g"
    by (rule run_backed [OF new_state_inv [OF assms(1,2)] new_group_backed assms(3)])
  note b = this [unfolded group_backed_def address_backed_def observed_healthy_def]
  show ?thesis using conjunct1 [OF conjunct2 [OF b]] conjunct2 [OF conjunct2 [OF b]] by metis
qed

theorem published_was_probed_witness:
  "\<exists>g. get_group (run_events (new_state demo_config) demo_run) Peer (lit ''h'') = Some g \<and>
     g_confirmed g = Some 2 \<and> g_published g = lit ''192.0.2.10'' \<and>
     (\<exists>i r. Observed Peer (lit ''h'') i 2 r \<in> set demo_run \<and> pr_healthy (check_address r))"
proof -
  obtain g where g: "get_group (run_events (new_state demo_config) demo_run) Peer (lit ''h'') = Some g"
    "g_confirmed g = Some 2" "g_published g = lit ''192.0.2.10''" using demo_run_group by blast
  then show ?thesis using published_was_probed [OF demo_config_maps g(1)] by blast
qed

end
