(* ===== verification/Ticks.thy ===== *)
theory Ticks
  imports Runs
begin

text \<open>
  A tick as a whole, on the engine state and the world together: what \<open>reconcile\<close> leaves
  in the hosts file and in the routing table, what it logs, and which ticks do not touch
  the world although it disagrees with the state.
\<close>

section \<open>Reading the hosts file back\<close>

text \<open>The entries a file holds, without their freshness, are those of its other lines.\<close>

lemma trim_end_append: "a \<noteq> [] \<Longrightarrow> \<not> is_whitespace (last a) \<Longrightarrow> trim_end (a @ x) = a @ trim_end x"
proof -
  assume a: "a \<noteq> []" "\<not> is_whitespace (last a)"
  then have d: "dropWhile is_whitespace (rev a) = rev a"
    by (cases a rule: rev_cases) auto
  show ?thesis
    by (cases "\<forall>c \<in> set x. is_whitespace c")
      (auto simp: trim_end_def dropWhile_append d)
qed

lemma trim_freshness:
  assumes "starts_with FRESHNESS (trim_start l)"
  obtains r where "trim l = lit ''# nixnet'' @ r"
proof -
  obtain x where "trim_start l = FRESHNESS @ x" using assms by (auto simp: starts_with_iff)
  then have "trim_start l = lit ''# nixnet'' @ SP # x" by (simp add: FRESHNESS_def str_simps)
  then have "trim l = lit ''# nixnet'' @ trim_end (SP # x)"
    unfolding trim_def by (simp only:) (rule trim_end_append, simp_all add: str_simps is_whitespace_def)
  then show ?thesis by (rule that)
qed

lemma parse_lines_significant:
  "map strip_confirmed es = map strip_confirmed es' \<Longrightarrow>
   map strip_confirmed (parse_lines b p es ls) =
   map strip_confirmed (parse_lines b p' es' (filter (\<lambda>l. \<not> starts_with FRESHNESS (trim_start l)) ls))"
proof (induction ls arbitrary: b p p' es es')
  case (Cons l ls)
  show ?case
  proof (cases "starts_with FRESHNESS (trim_start l)")
    case True
    then obtain r where "trim l = lit ''# nixnet'' @ r" by (rule trim_freshness)
    then have "trim l \<noteq> BEGIN_MARKER" "trim l \<noteq> END_MARKER" "starts_with [HASH] (trim l)"
      by (simp_all add: BEGIN_MARKER_def END_MARKER_def str_simps)
    with True Cons show ?thesis by (simp add: Let_def)
  next
    case False
    then show ?thesis
      by (simp add: Let_def strip_confirmed_def Cons.prems [unfolded strip_confirmed_def]
          split: list.split) (use Cons in \<open>simp add: strip_confirmed_def\<close>)
  qed
qed simp

lemma parse_significant:
  "significant a = significant b \<Longrightarrow>
   map strip_confirmed (parse_nix_hosts a) = map strip_confirmed (parse_nix_hosts b)"
  using parse_lines_significant [of "[]" "[]" False None "lines a" None]
    parse_lines_significant [of "[]" "[]" False None "lines b" None]
  by (simp add: parse_nix_hosts_def significant_def)

lemma publish_reads_back:
  assumes "hosts_publish hp w es fs = (Inr b, fs')" and "hosts_publisher_ok hp"
    and "\<forall>e \<in> set es. clean_entry e" and "is_token w"
    and "\<forall>l \<in> set (lines (snd (static_of hp (hosts_read fs)))). trim l \<noteq> BEGIN_MARKER"
  shows "\<exists>f. hf_file fs' = Some f \<and>
    map strip_confirmed (parse_nix_hosts (f_data f)) = map strip_confirmed (sort_key e_address es)"
proof (cases "hosts_plan hp w es (hosts_read fs)")
  case (PlanErr e)
  with assms(1) show ?thesis by (simp add: hosts_publish_def)
next
  case (PlanWrite out)
  let ?r = "write_with_chmod (hf_faults fs) (6 * 64 + 4 * 8 + 4) out (hf_file fs)"
  have "fst ?r = None" "fs' = fs\<lparr>hf_file := snd ?r\<rparr>"
    using assms(1) PlanWrite by (auto simp: hosts_publish_def split: prod.splits option.splits)
  then have "hf_file fs' = Some (new_file (Some (6 * 64 + 4 * 8 + 4)) out)"
    using public_file.ok_written [of "hf_faults fs" _ out "hf_file fs"] by (simp add: new_file_def)
  moreover have "parse_nix_hosts out = sort_key e_address es"
    using parse_render [OF _ assms(4) static_of_prefix [OF assms(2)] assms(5)] assms(3)
    by (simp add: plan_write_render [OF PlanWrite])
  ultimately show ?thesis by (simp add: new_file_def)
next
  case PlanKeep
  then obtain c where c: "hosts_read fs = ReadOk c"
    by (auto simp: hosts_plan_def split: read_result.splits)
  let ?p = "fst (split_static c)" and ?s = "fst (snd (split_static c))"
  let ?out = "render ?p ?s w (sort_key e_address es)"
  have st: "static_of hp (hosts_read fs) = (?p, ?s)" by (simp add: c static_of_def)
  have "significant c = significant ?out"
    using PlanKeep by (auto simp: hosts_plan_def c same_but_for_freshness_def Let_def
        split: prod.splits if_splits)
  moreover have "parse_nix_hosts ?out = sort_key e_address es"
    using parse_render [OF _ assms(4) _ assms(5)] static_of_prefix [OF assms(2), of "hosts_read fs"] assms(3)
    by (simp add: st)
  ultimately have "map strip_confirmed (parse_nix_hosts c) = map strip_confirmed (sort_key e_address es)"
    using parse_significant by metis
  moreover have "\<exists>f. hf_file fs = Some f \<and> f_data f = c"
    using c by (auto simp: hosts_read_def split: option.splits)
  moreover have "fs' = fs" using assms(1) PlanKeep by (simp add: hosts_publish_def)
  ultimately show ?thesis by auto
qed

section \<open>The effect of a tick\<close>

lemma publish_hosts_alt:
  "publish_hosts pu now es io =
     (let (r, fs) = hosts_publish (pu_hosts pu) (written_at pu now) es (io_hosts io)
      in (r, io\<lparr>io_hosts := fs\<rparr>, if r = Inr True then [LogHostsReassert (length es)] else []))"
  by (simp add: publish_hosts_def split_beta)

lemma peer_entries_error [simp]: "peer_entries fmt (st\<lparr>en_hosts_error := e\<rparr>) = peer_entries fmt st"
  by (simp add: peer_entries_def)

lemma nothing_to_publish_error [simp]:
  "nothing_to_publish (st\<lparr>en_hosts_error := e\<rparr>) = nothing_to_publish st"
  by (simp add: nothing_to_publish_def)

lemma peer_action:
  assumes "decide_group now Peer n g = Some (g', a, lg)" and "g_kind g = Peer" and "winner_in_range g"
  shows "\<exists>p. a = PublishPeers p"
proof (cases "up_idxs g = []")
  case True
  then show ?thesis
    using assms(1) by (auto simp: decide_group_down decide_all_down_def Let_def split: if_splits)
next
  case False
  then show ?thesis
    using assms decide_group_up [OF False assms(3), of now n] by (auto simp: elected_action_def)
qed

lemma uplink_ranking_cong:
  "uplink_ranking (g\<lparr>g_publish_error := e\<rparr>) = uplink_ranking g"
  "uplink_ranking (g\<lparr>g_degraded := b\<rparr>) = uplink_ranking g"
proof -
  have r: "rank_from (g\<lparr>g_publish_error := e\<rparr>) seen is = rank_from g seen is"
    "rank_from (g\<lparr>g_degraded := b\<rparr>) seen is = rank_from g seen is" for seen "is"
    by (induction "is" arbitrary: seen) (auto simp: Let_def)
  have k: "rank_key (g\<lparr>g_publish_error := e\<rparr>) = rank_key g" "rank_key (g\<lparr>g_degraded := b\<rparr>) = rank_key g"
    by (simp_all add: rank_key_def fun_eq_iff)
  have o: "uplink_order (g\<lparr>g_publish_error := e\<rparr>) w = uplink_order g w"
    "uplink_order (g\<lparr>g_degraded := b\<rparr>) w = uplink_order g w" for w
    by (simp_all add: uplink_order_def k)
  show "uplink_ranking (g\<lparr>g_publish_error := e\<rparr>) = uplink_ranking g"
    "uplink_ranking (g\<lparr>g_degraded := b\<rparr>) = uplink_ranking g"
    by (simp_all add: uplink_ranking_def o r split: option.split)
qed

lemma uplink_action_of_result:
  assumes "decide_group now Uplink n g = Some (g', a, lg)" and "g_kind g = Uplink" and "winner_in_range g"
  shows "a = uplink_action g'"
proof (cases "up_idxs g = []")
  case True
  then show ?thesis
    using assms(1) by (auto simp: decide_group_down decide_all_down_def Let_def split: if_splits)
next
  case False
  then show ?thesis
    using assms decide_group_up [OF False assms(3), of now n] by (auto simp: elected_action_def)
qed

text \<open>The three sections of a peer's tick, put together.\<close>

lemma reconcile_peer:
  assumes "get_group st Peer n = Some g" and "g_kind g = Peer" and "winner_in_range g"
    and "decide_group now Peer n g = Some (g', PublishPeers p, lg)"
  shows "reconcile pu now Peer n (st, io) =
    (let st1 = put_group st Peer n g';
         chg = (group_view g \<noteq> group_view g')
     in if p \<and> nothing_to_publish st1 then Some ((st1, io), chg, lg)
        else (let (r, io', lg2) = publish_hosts pu now (peer_entries (pu_fmt pu) st1) io;
                  (e, lg3) = log_publish_error (en_hosts_error st1) (lit ''publish hosts'') (error_of r)
              in Some ((st1\<lparr>en_hosts_error := e\<rparr>, io'), chg \<or> en_hosts_error st1 \<noteq> e, lg @ lg2 @ lg3)))"
  using assms
  by (simp add: reconcile_def reconcile_decide_def decide_action_def get_group_put reconcile_publish_def
      reconcile_record_def Let_def split_beta)

lemma reconcile_uplink:
  assumes "get_group st Uplink n = Some g" and "decide_group now Uplink n g = Some (g', uplink_action g', lg)"
    and "uplink_ranking g' \<noteq> []"
  shows "reconcile pu now Uplink n (st, io) =
    (let (out, rs) = apply_routes (pu_ip pu) (pu_routes pu) (uplink_ranking g') (g_metric_base g')
           (g_metric_step g') (io_routes io);
         (e, lg3) = log_publish_error (g_publish_error g') (what_routes Uplink n) (pb_error out)
     in Some ((put_group (put_group st Uplink n g') Uplink n (g'\<lparr>g_publish_error := e\<rparr>), io\<lparr>io_routes := rs\<rparr>),
          group_view g \<noteq> group_view g' \<or> g_publish_error g' \<noteq> e,
          lg @ map (\<lambda>c. LogRouteReassert (group_label Uplink n) (rc_interface c) (rc_from_metric c)
            (rc_to_metric c)) (pb_changes out) @ lg3))"
  using assms
  by (simp add: reconcile_def reconcile_decide_def decide_action_def get_group_put reconcile_publish_def
      reconcile_record_def publish_routes_def uplink_action_def Let_def split_beta)

lemma hosts_publish_succeeds:
  "hf_read_fault fs = None \<Longrightarrow> hf_faults fs = no_faults \<Longrightarrow> \<exists>b. fst (hosts_publish hp w es fs) = Inr b"
  by (auto simp: hosts_publish_no_faults hosts_plan_def hosts_read_def Let_def
      split: publish_plan.split option.split prod.split)

section \<open>Properties\<close>


definition demo_fmt :: time_format where
  "demo_fmt t = Some (show_nat (nat t))"

lemma show_nat_token: "is_token (show_nat n)"
  using show_nat_digits [of n] by (fastforce simp: is_token_def is_whitespace_def)

definition demo_pu :: "kroute list publishers" where
  "demo_pu = \<lparr>pu_hosts = demo_hp, pu_routes = demo_rp, pu_ip = kernel_ip, pu_fmt = demo_fmt\<rparr>"

definition demo_io :: "rstr \<Rightarrow> kroute list io" where
  "demo_io data = \<lparr>io_hosts = demo_fs\<lparr>hf_file := Some \<lparr>f_data = data, f_mode = 420\<rparr>\<rparr>,
     io_routes = \<lparr>is_world = dhcp_table, is_log = []\<rparr>\<rparr>"

definition state_with :: "group \<Rightarrow> engine_state" where
  "state_with g = \<lparr>en_peers = (if g_kind g = Peer then [(lit ''h'', g)] else []),
     en_uplinks = (if g_kind g = Peer then [] else [(lit ''h'', g)]), en_hosts_error = []\<rparr>"

lemma state_with_simps [simp]:
  "g_kind g = Peer \<Longrightarrow> get_group (state_with g) Peer (lit ''h'') = Some g"
  "g_kind g = Uplink \<Longrightarrow> get_group (state_with g) Uplink (lit ''h'') = Some g"
  "group_inv g \<Longrightarrow> state_inv (state_with g)"
  "g_kind g = Peer \<Longrightarrow> g_kind g' = Peer \<Longrightarrow> put_group (state_with g) Peer (lit ''h'') g' = state_with g'"
  "g_kind g = Peer \<Longrightarrow> nothing_to_publish (state_with g) \<longleftrightarrow> g_published g = []"
  "g_kind g = Peer \<Longrightarrow> peer_entries fmt (state_with g) =
     (if g_published g = [] then [] else [entry_of_group fmt g])"
  by (cases "g_kind g"; auto simp: state_with_def get_group_def groups_of_def put_group_def state_sat_def
      groups_sat_def hm_ok_def nothing_to_publish_def peer_entries_def)+

text \<open>A tick of the demonstration group: the file named a third address before.\<close>

lemma demo_elected:
  "decide_group 9000000000 Peer (lit ''h'') demo_group =
     Some (elected 9000000000 demo_group, PublishPeers True, [])"
  "g_published (elected 9000000000 demo_group) = lit ''10.8.0.1''"
  "g_kind (elected 9000000000 demo_group) = Peer"
  "g_hostnames (elected 9000000000 demo_group) = [lit ''h'']"
  "g_confirmed (elected 9000000000 demo_group) = Some 6"
proof -
  have dr: "\<not> drifted demo_group 1"
    by (simp add: drifted_def demo_transports demo_runtime_def demo_group_fields)
  have dg: "g_degraded demo_group = False" "g_hostnames demo_group = [lit ''h'']"
    by (simp_all add: demo_group_def new_peer_group_def)
  show "decide_group 9000000000 Peer (lit ''h'') demo_group =
     Some (elected 9000000000 demo_group, PublishPeers True, [])"
    using decide_group_up [of demo_group 9000000000 "lit ''h''"] dr
    by (simp add: demo_up demo_in_range demo_group_fields elected_action_def elected_log_def demo_pick dg)
  show "g_published (elected 9000000000 demo_group) = lit ''10.8.0.1''"
    "g_kind (elected 9000000000 demo_group) = Peer"
    "g_hostnames (elected 9000000000 demo_group) = [lit ''h'']"
    "g_confirmed (elected 9000000000 demo_group) = Some 6"
    using dr by (simp_all add: elected_def Let_def demo_pick demo_group_fields dg demo_transports demo_runtime_def)
qed



definition demo_wan :: group where
  "demo_wan = demo_uplink\<lparr>g_metric_base := 100, g_metric_step := 50\<rparr>"

definition wan_io :: "kroute list io" where
  "wan_io = (demo_io [])\<lparr>io_routes := \<lparr>is_world =
     [\<lparr>kr_dev = lit ''lan'', kr_gateway = Some (lit ''10.0.0.254''), kr_metric = 600\<rparr>,
      \<lparr>kr_dev = lit ''vpn'', kr_gateway = None, kr_metric = 700\<rparr>], is_log = []\<rparr>\<rparr>"

lemma demo_wan_fields: "g_kind demo_wan = Uplink" "g_transports demo_wan = g_transports demo_group"
  "g_winner demo_wan = Some 1" "g_winner_since demo_wan = Some 0" "g_min_hold demo_wan = 10000"
  "g_route_metric demo_wan" "g_metric_base demo_wan = 100" "g_metric_step demo_wan = 50"
  "g_degraded demo_wan = False"
  by (simp_all add: demo_wan_def demo_uplink_def demo_group_fields)
    (simp add: demo_group_def new_peer_group_def)

lemma demo_wan_pick: "up_idxs demo_wan = [0, 1]" "winner_in_range demo_wan" "pick 9000000000 demo_wan = 1"
proof -
  have up: "up_idxs demo_wan = up_idxs demo_group" "prio demo_wan = prio demo_group"
    by (simp_all add: up_idxs_def prio_def demo_wan_fields fun_eq_iff)
  have held: "held 9000000000 demo_wan" by (simp add: held_def demo_wan_fields nanos_of_ms_def)
  show "up_idxs demo_wan = [0, 1]" "winner_in_range demo_wan" "pick 9000000000 demo_wan = 1"
    by (simp_all add: up demo_up winner_in_range_def demo_wan_fields demo_transports pick_def held)
qed

lemma demo_wan_ranking:
  "uplink_ranking (elected 9000000000 demo_wan) =
     [\<lparr>ri_interface = lit ''vpn'', ri_healthy = True\<rparr>, \<lparr>ri_interface = lit ''lan'', ri_healthy = True\<rparr>,
      \<lparr>ri_interface = lit ''alt'', ri_healthy = False\<rparr>]"
  by (simp add: uplink_ranking_def elected_def Let_def demo_wan_pick demo_wan_fields demo_transports
      uplink_order_def rank_key_def upt_rec demo_runtime_def new_runtime_def demo_transport_def
      tr_priority_def less_eq_prod_def less_prod_def)


text \<open>A run of ticks of one peer at given instants.\<close>

fun run_ticks ::
  "'w publishers \<Rightarrow> rstr \<Rightarrow> int list \<Rightarrow> engine_state \<times> 'w io \<Rightarrow> (engine_state \<times> 'w io) option" where
  "run_ticks pu n [] s = Some s"
| "run_ticks pu n (t # ts) s = do { (s', chg, lg) \<leftarrow> reconcile pu t Peer n s; run_ticks pu n ts s' }"

lemma idle_decide:
  assumes "g_kind g = Peer" and "up_idxs g = []" and "g_winner g = None" and "g_published g = []"
  shows "\<exists>lg. decide_group now Peer n g = Some (g\<lparr>g_degraded := True\<rparr>, PublishPeers True, lg)"
  using assms by (auto simp: decide_group_down decide_all_down_def Let_def)

lemma nothing_to_publish_put:
  assumes "nothing_to_publish st" and "g_published g = []"
  shows "nothing_to_publish (put_group st Peer n g)"
  using hm_all_put [of "en_peers st" "\<lambda>g. g_published g = []" g n] assms
  by (simp add: nothing_to_publish_def put_group_def)

text \<open>
  C35.  A limit of STALE-2 in the code: once nothing is published any more, because the
  only entry was withdrawn at a restart or by a tick whose write failed, neither the
  publication at startup nor any number of ticks of a peer that stays down touches the
  hosts file again, whatever block it still holds.
\<close>

theorem withdrawn_block_stays:
  assumes "nothing_to_publish st" and "get_group st Peer n = Some g" and "g_kind g = Peer"
    and "up_idxs g = []" and "g_winner g = None"
  shows "publish_restored_peers pu t0 (st, io) = ((st, io), []) \<and>
    (\<exists>st'. run_ticks pu n ts (st, io) = Some (st', io) \<and> nothing_to_publish st')"
proof -
  have "\<exists>st'. run_ticks pu n ts (st, io) = Some (st', io) \<and> nothing_to_publish st'"
    using assms
  proof (induction ts arbitrary: st g)
    case (Cons t ts)
    have pub: "g_published g = []"
      using Cons.prems(1,2) by (force simp: nothing_to_publish_def get_group_def groups_of_def dest: map_of_SomeD)
    have range: "winner_in_range g" using Cons.prems(5) by (simp add: winner_in_range_def)
    let ?g = "g\<lparr>g_degraded := True\<rparr>" and ?st = "put_group st Peer n (g\<lparr>g_degraded := True\<rparr>)"
    obtain lg where d: "decide_group t Peer n g = Some (?g, PublishPeers True, lg)"
      using idle_decide [OF Cons.prems(3-5) pub] by blast
    have n: "nothing_to_publish ?st"
      using nothing_to_publish_put [OF Cons.prems(1)] pub by simp
    have "\<exists>st'. run_ticks pu n ts (?st, io) = Some (st', io) \<and> nothing_to_publish st'"
      by (rule Cons.IH [OF n, of ?g]) (use Cons.prems in \<open>simp_all add: get_group_put\<close>)
    then show ?case
      using reconcile_peer [OF Cons.prems(2,3) range d, of pu io] n by (auto simp: Let_def)
  qed simp
  then show ?thesis using assms(1) by (simp add: publish_restored_peers_def)
qed

text \<open>A peer with one transport that is down, saved while its address was still retained.\<close>

definition demo_stale :: group where
  "demo_stale = demo_group\<lparr>g_transports := [demo_runtime (lit ''lan'') (lit ''10.0.0.1'') 10 Down 6],
     g_winner := Some 0, g_published := lit ''10.0.0.1'', g_degraded := True\<rparr>"

definition stale_block :: rstr where
  "stale_block = render [] [] (lit ''T0'') [demo_entry]"

lemma demo_stale_restart:
  "restart (lit ''h'') 90000000000 demo_stale =
     (volatile_reset demo_stale)\<lparr>g_winner := None, g_published := []\<rparr>"
proof -
  have "keys_ok demo_stale" "address_settled demo_stale" "winner_in_range demo_stale"
    by (simp_all add: demo_stale_def keys_ok_def demo_runtime_def new_runtime_def demo_transport_def
        address_settled_def winner_in_range_def)
  moreover have "retained demo_stale" "too_old demo_stale 90000000000" "g_kind demo_stale = Peer"
    "g_winner demo_stale = Some 0"
    by (simp_all add: demo_stale_def retained_def too_old_def staleness_def demo_group_fields nanos_of_secs_def)
  ultimately show ?thesis by (simp add: restart_alt)
qed

theorem withdrawn_block_stays_witness:
  "\<exists>st' io'. run_ticks demo_pu (lit ''h'') [91000000000, 94000000000]
       (state_with (restart (lit ''h'') 90000000000 demo_stale), demo_io stale_block) = Some (st', io') \<and>
     hf_file (io_hosts io') = Some \<lparr>f_data = stale_block, f_mode = 420\<rparr> \<and>
     parse_nix_hosts stale_block = [demo_entry]"
proof -
  let ?g = "restart (lit ''h'') 90000000000 demo_stale"
  have g: "g_kind ?g = Peer" "g_published ?g = []" "g_winner ?g = None" "up_idxs ?g = []"
    by (simp_all add: demo_stale_restart)
      (simp_all add: volatile_reset_def demo_stale_def demo_group_fields up_idxs_def demo_runtime_def)
  have "parse_nix_hosts stale_block = [demo_entry]"
    using parse_render [of "[demo_entry]" "lit ''T0''" "[]" "[]"] demo_ok
    by (simp add: stale_block_def static_prefix_def BEGIN_MARKER_def lines_def is_token_def str_simps
        is_whitespace_def)
  then show ?thesis
    using withdrawn_block_stays [of "state_with ?g" "lit ''h''" ?g demo_pu 0 "demo_io stale_block"
        "[91000000000, 94000000000]"] g
    by (auto simp: demo_io_def)
qed

text \<open>A failed probe that is not yet the last one changes only the counters and the detail.\<close>

lemma failed_probe_keeps:
  assumes "\<not> pr_healthy r" and "tr_fail tr + 1 < down_threshold tr" and "- 1 \<le> tr_fail tr"
    and "t_address (tr_spec tr) \<noteq> [] \<longrightarrow> tr_address tr = t_address (tr_spec tr)"
  shows "tr_state (apply_result t r tr) = tr_state tr \<and> tr_address (apply_result t r tr) = tr_address tr \<and>
    tr_last_success (apply_result t r tr) = tr_last_success tr"
proof -
  have c: "check_address r = r" using assms(1) by (simp add: check_address_def)
  have "min (sat_add64 (tr_fail tr) 1) (down_threshold tr) < down_threshold tr"
    using assms(2,3) by (auto simp: sat_add64_def i64_max_def i64_min_def)
  with count_result_alt(2) [where tr = tr, OF assms(1) refl, of t]
  have "tr_state (count_result t r tr) = tr_state tr \<and> tr_address (count_result t r tr) = tr_address tr \<and>
      tr_last_success (count_result t r tr) = tr_last_success tr \<and> tr_spec (count_result t r tr) = tr_spec tr"
    by (auto simp: split: if_splits)
  then show ?thesis
    using assms(1,4) by (auto simp: apply_result_def Let_def c record_address_def)
qed



text \<open>A run of publications of one artifact, with the error that is kept between them.\<close>

fun run_errors :: "rstr \<Rightarrow> rstr \<Rightarrow> rstr option list \<Rightarrow> rstr \<times> log_event list" where
  "run_errors what reported [] = (reported, [])"
| "run_errors what reported (r # rs) =
     (let (reported', lg) = log_publish_error reported what r;
          (reported'', lg') = run_errors what reported' rs
      in (reported'', lg @ lg'))"

definition change_line :: "rstr \<Rightarrow> rstr option \<Rightarrow> rstr option \<Rightarrow> log_event list" where
  "change_line what old new =
     (if new = old then []
      else (case new of Some e \<Rightarrow> [LogPublishFailed what e] | None \<Rightarrow> [LogPublishRecovered what]))"

definition reported_error :: "rstr \<Rightarrow> rstr option" where
  "reported_error s = (if s = [] then None else Some s)"

text \<open>
  A persistent publish failure is one event: over any run of publications, a line is
  logged exactly where the outcome differs from the one before, a failure or a recovery,
  and the error that is kept is that of the last publication.
\<close>

lemma errors_logged_on_change:
  assumes "Some [] \<notin> set rs"
  shows "snd (run_errors what reported rs) =
      concat (map2 (change_line what) (reported_error reported # rs) rs) \<and>
    reported_error (fst (run_errors what reported rs)) = last (reported_error reported # rs)"
  using assms
proof (induction rs arbitrary: reported)
  case (Cons r rs)
  obtain rep lg where one: "log_publish_error reported what r = (rep, lg)" by force
  have "reported_error rep = r" "lg = change_line what (reported_error reported) r"
    using one Cons.prems
    by (auto simp: log_publish_error_def change_line_def reported_error_def split: option.splits if_splits)
  with Cons one show ?case by (simp add: split_beta)
qed simp

theorem errors_logged_on_change_witness:
  "snd (run_errors (lit ''w'') [] [Some (lit ''e''), Some (lit ''e''), None, None]) =
     [LogPublishFailed (lit ''w'') (lit ''e''), LogPublishRecovered (lit ''w'')]"
  using errors_logged_on_change [of "[Some (lit ''e''), Some (lit ''e''), None, None]" "lit ''w''" "[]"]
  by (simp add: change_line_def reported_error_def)

end
