(* ===== verification/Status.thy ===== *)
theory Status
  imports Runs
begin

text \<open>
  \<open>src/status.rs\<close> and the status part of \<open>src/engine/mod.rs\<close>: the snapshot of the engine,
  its lifetime, the throttled atomic write of \<open>status.json\<close>, and the verdict that a reader
  of the file reaches.  \<open>serde_json\<close>, the RFC 3339 format and the range of
  \<open>OffsetDateTime\<close> are parameters.
\<close>

section \<open>Definitions\<close>

record status_transport =
  ss_state :: rstr
  ss_detail :: rstr

record status_group =
  sg_winner :: rstr
  sg_since :: rstr
  sg_confirmed :: rstr
  sg_publish_error :: rstr
  sg_degraded :: bool
  sg_transports :: "status_transport hmap"

record snapshot =
  sn_generated_at :: rstr
  sn_valid_until :: rstr
  sn_hosts_error :: rstr
  sn_peers :: "status_group hmap"
  sn_uplinks :: "status_group hmap"

text \<open>\<open>and_then(|t| t.format(&Rfc3339).ok()).unwrap_or_default()\<close>.\<close>

definition format_or_empty :: "time_format \<Rightarrow> int option \<Rightarrow> rstr" where
  "format_or_empty fmt t =
     (case Option.bind t fmt of Some s \<Rightarrow> s | None \<Rightarrow> [])"

definition winner_label :: "group \<Rightarrow> nat \<Rightarrow> rstr" where
  "winner_label g w =
     (if w \<ge> length (g_transports g) then []
      else (case g_kind g of
              Peer \<Rightarrow> g_published g
            | Uplink \<Rightarrow> t_interface (tr_spec (g_transports g ! w))))"

definition status_of_transport :: "transport_runtime \<Rightarrow> status_transport" where
  "status_of_transport tr = \<lparr>ss_state = state_str (tr_state tr), ss_detail = tr_detail tr\<rparr>"

definition render_transports :: "transport_runtime list \<Rightarrow> status_transport hmap" where
  "render_transports trs = foldl (\<lambda>m tr. hm_put m (tr_id tr) (status_of_transport tr)) [] trs"

definition render_group :: "time_format \<Rightarrow> group \<Rightarrow> status_group" where
  "render_group fmt g =
     \<lparr>sg_winner = (case g_winner g of Some w \<Rightarrow> winner_label g w | None \<Rightarrow> []),
      sg_since = (case g_winner g of Some w \<Rightarrow> format_or_empty fmt (g_winner_since g) | None \<Rightarrow> []),
      sg_confirmed = format_or_empty fmt (g_confirmed g),
      sg_publish_error = g_publish_error g, sg_degraded = g_degraded g,
      sg_transports = render_transports (g_transports g)\<rparr>"

definition render_groups :: "time_format \<Rightarrow> group hmap \<Rightarrow> status_group hmap" where
  "render_groups fmt gs = foldl (\<lambda>m (n, g). hm_put m n (render_group fmt g)) [] gs"

definition snapshot_of :: "time_format \<Rightarrow> engine_state \<Rightarrow> snapshot" where
  "snapshot_of fmt st =
     \<lparr>sn_generated_at = [], sn_valid_until = [], sn_hosts_error = en_hosts_error st,
      sn_peers = render_groups fmt (en_peers st), sn_uplinks = render_groups fmt (en_uplinks st)\<rparr>"

subsection \<open>The lifetime of a snapshot\<close>

definition all_transports :: "config \<Rightarrow> transport list" where
  "all_transports c =
     concat (map pe_transports (hm_values (c_peers c))) @ concat (map u_transports (hm_values (c_uplinks c)))"

definition longest_cycle :: "config \<Rightarrow> int" where
  "longest_cycle c =
     (case map (\<lambda>t. sat_add64 (p_interval_ms (t_probe t)) (p_timeout_ms (t_probe t))) (all_transports c) of
        [] \<Rightarrow> 0
      | x # xs \<Rightarrow> foldl max x xs)"

text \<open>In milliseconds, the unit of the \<open>Duration\<close> it is made into.\<close>

definition status_ttl :: "config \<Rightarrow> int" where
  "status_ttl c = max (sat_add64 (longest_cycle c) 5000) 15000"

subsection \<open>Writing and reading\<close>

record status_env =
  se_fmt :: time_format
  se_parse_time :: "rstr \<Rightarrow> int option"
  se_representable :: "int \<Rightarrow> bool"
  se_serialize :: "snapshot \<Rightarrow> rstr + 8 word list"
  se_deserialize :: "8 word list \<Rightarrow> rstr + snapshot"

text \<open>The fields \<open>write\<close> fills in; an instant that cannot be represented is a panic.\<close>

definition stamp :: "status_env \<Rightarrow> int \<Rightarrow> int \<Rightarrow> snapshot \<Rightarrow> snapshot option" where
  "stamp se now valid_ms snap =
     (let until = now + nanos_of_ms (min valid_ms i64_max) in
      if se_representable se until
      then Some (snap\<lparr>sn_generated_at := format_or_empty (se_fmt se) (Some now),
                      sn_valid_until := format_or_empty (se_fmt se) (Some until)\<rparr>)
      else None)"

definition status_write ::
  "status_env \<Rightarrow> faults \<Rightarrow> int \<Rightarrow> snapshot \<Rightarrow> int \<Rightarrow> 8 word list disk_file option \<Rightarrow>
   (rstr option \<times> 8 word list disk_file option) option" where
  "status_write se flt now snap valid_ms target =
     do {
       snap' \<leftarrow> stamp se now valid_ms snap;
       Some (case se_serialize se snap' of
               Inl e \<Rightarrow> (Some e, target)
             | Inr data \<Rightarrow> write_with_chmod flt (6 * 64 + 4 * 8 + 4) (data @ [of_int NL]) target)
     }"

definition status_read ::
  "status_env \<Rightarrow> rstr + 8 word list \<Rightarrow> rstr + snapshot" where
  "status_read se data = (case data of Inl e \<Rightarrow> Inl e | Inr d \<Rightarrow> se_deserialize se d)"

definition group_healthy :: "status_group \<Rightarrow> bool" where
  "group_healthy g \<longleftrightarrow> \<not> sg_degraded g \<and> sg_winner g \<noteq> [] \<and> sg_publish_error g = []"

definition is_healthy_at :: "status_env \<Rightarrow> int \<Rightarrow> snapshot \<Rightarrow> bool" where
  "is_healthy_at se now snap \<longleftrightarrow>
     (case se_parse_time se (sn_valid_until snap) of Some deadline \<Rightarrow> now \<le> deadline | None \<Rightarrow> False) \<and>
     sn_hosts_error snap = [] \<and>
     (\<forall>g \<in> set (hm_values (sn_peers snap)). group_healthy g) \<and>
     (\<forall>g \<in> set (hm_values (sn_uplinks snap)). group_healthy g)"

text \<open>
  \<open>write_status\<close>: \<open>last\<close> is the instant of the last successful write on the monotonic
  clock, \<open>clk\<close> this clock now; the result is the new \<open>last\<close>, the file and whether a
  failure was logged.
\<close>

definition throttled :: "int \<Rightarrow> bool \<Rightarrow> int option \<Rightarrow> int \<Rightarrow> bool" where
  "throttled period force prev clk \<longleftrightarrow>
     \<not> force \<and> (case prev of Some t \<Rightarrow> clk - t < period | None \<Rightarrow> False)"

definition write_status ::
  "status_env \<Rightarrow> faults \<Rightarrow> bool \<Rightarrow> int \<Rightarrow> int \<Rightarrow> int \<Rightarrow> engine_state \<Rightarrow>
   int option \<times> 8 word list disk_file option \<Rightarrow>
   ((int option \<times> 8 word list disk_file option) \<times> rstr option) option" where
  "write_status se flt force clk now ttl st s =
     (if throttled 1000000000 force (fst s) clk then Some (s, None)
      else
        do {
          (e, f) \<leftarrow> status_write se flt now (snapshot_of (se_fmt se) st) ttl (snd s);
          Some (case e of
                  Some msg \<Rightarrow> ((fst s, f), Some msg)
                | None \<Rightarrow> ((Some clk, f), None))
        })"

section \<open>Lemmas\<close>

lemma foldl_put_values:
  "distinct (map k xs) \<Longrightarrow> (\<forall>x \<in> set xs. k x \<notin> set (map fst m)) \<Longrightarrow>
   foldl (\<lambda>m x. hm_put m (k x) (f x)) m xs = m @ map (\<lambda>x. (k x, f x)) xs"
proof (induction xs arbitrary: m)
  case (Cons x xs)
  have "hm_put m (k x) (f x) = m @ [(k x, f x)]"
    using Cons.prems(2) by (induction m) auto
  moreover have "foldl (\<lambda>m x. hm_put m (k x) (f x)) (m @ [(k x, f x)]) xs =
      (m @ [(k x, f x)]) @ map (\<lambda>x. (k x, f x)) xs"
    by (rule Cons.IH) (use Cons.prems in \<open>auto simp: image_iff\<close>)
  ultimately show ?case by simp
qed simp

lemma render_groups_alt: "hm_ok gs \<Longrightarrow> render_groups fmt gs = map (\<lambda>(n, g). (n, render_group fmt g)) gs"
  using foldl_put_values [of fst gs "[]" "\<lambda>x. render_group fmt (snd x)"]
  by (simp add: render_groups_def hm_ok_def case_prod_unfold)

lemma foldl_max_ge: "x \<le> foldl max x (xs :: int list)"
proof (induction xs arbitrary: x)
  case (Cons a xs)
  show ?case using Cons [of "max x a"] by simp
qed simp

lemma foldl_max_ge_elem: "y \<in> set xs \<Longrightarrow> y \<le> foldl max x (xs :: int list)"
proof (induction xs arbitrary: x)
  case (Cons a xs)
  show ?case using Cons foldl_max_ge [of "max x a" xs] by (cases "y = a") auto
qed simp

lemma longest_cycle_ge:
  assumes "t \<in> set (all_transports c)"
  shows "sat_add64 (p_interval_ms (t_probe t)) (p_timeout_ms (t_probe t)) \<le> longest_cycle c"
proof -
  let ?f = "\<lambda>t. sat_add64 (p_interval_ms (t_probe t)) (p_timeout_ms (t_probe t))"
  obtain x xs where xs: "map ?f (all_transports c) = x # xs" using assms by (cases "all_transports c") auto
  have "?f t \<in> set (x # xs)" using assms by (simp flip: xs)
  then show ?thesis
    using foldl_max_ge [of x xs] foldl_max_ge_elem [of "?f t" xs x] by (auto simp: longest_cycle_def xs)
qed

text \<open>The ids of the transports of a group: the declaration index is part of them.\<close>

lemma show_nat_inject: "show_nat i @ LP # s = show_nat j @ LP # t \<Longrightarrow> LP < 48 \<Longrightarrow> i = j"
proof -
  assume e: "show_nat i @ LP # s = show_nat j @ LP # t" and lp: "LP < 48"
  have tw: "takeWhile (\<lambda>c. 48 \<le> c) (show_nat n @ LP # r) = show_nat n" for n r
  proof -
    have "takeWhile (\<lambda>c. 48 \<le> c) (show_nat n @ LP # r) = show_nat n @ takeWhile (\<lambda>c. 48 \<le> c) (LP # r)"
      by (rule takeWhile_append2) (use show_nat_digits [of n] in blast)
    then show ?thesis using lp by simp
  qed
  have "show_nat i = show_nat j"
    using arg_cong [OF e, of "takeWhile (\<lambda>c. 48 \<le> c)"] unfolding tw .
  then have "Some (int i) = Some (int j)" by (metis digits_val_show_nat)
  then show "i = j" by simp
qed

lemma transport_id_inject: "transport_id k n i t = transport_id k n j t' \<Longrightarrow> i = j"
proof -
  assume e: "transport_id k n i t = transport_id k n j t'"
  have "\<exists>s. transport_id k n i t = (kind_label k @ lit ''/'' @ n @ lit ''#'') @ show_nat i @ 40 # s" for i t
    by (simp add: transport_id_def Let_def str_simps)
  then obtain s s' where "show_nat i @ 40 # s = show_nat j @ 40 # s'"
    using e by (metis same_append_eq)
  then show "i = j" by (rule show_nat_inject) simp
qed

lemma new_runtimes_nth:
  "i < length ts \<Longrightarrow> new_runtimes k n ts ! i = new_runtime k n i (ts ! i)"
  "length (new_runtimes k n ts) = length ts"
  by (simp_all add: new_runtimes_def enumerate_map)

lemma new_runtimes_ids: "distinct (map tr_id (new_runtimes k n ts))"
proof -
  have "i = j" if "i < length ts" "j < length ts"
    "tr_id (new_runtimes k n ts ! i) = tr_id (new_runtimes k n ts ! j)" for i j
    using that transport_id_inject [of k n i "ts ! i" j "ts ! j"]
    by (simp add: new_runtimes_nth new_runtime_def)
  then show ?thesis by (auto simp: distinct_conv_nth new_runtimes_nth)
qed

lemma cold_group_ids: "map tr_id (g_transports (cold_group g)) = map tr_id (g_transports g)"
  by (simp add: cold_group_def cold_transport_def comp_def)

lemma cold_state_group:
  assumes "cold_state st = new_state c" and "get_group st k n = Some g"
  shows "get_group (new_state c) k n = Some (cold_group g)"
  using get_group_cold [of st k n] assms by simp

lemma group_ids_distinct:
  assumes "cold_state st = new_state c" and "get_group st k n = Some g"
  shows "distinct (map tr_id (g_transports g))"
proof -
  have "\<exists>ts. new_runtimes k n ts = g_transports (cold_group g)"
    using cold_state_group [OF assms]
    by (cases k) (auto simp: new_state_get new_peer_group_def new_uplink_group_def dest!: arg_cong [of _ "cold_group g" g_transports])
  then show ?thesis using new_runtimes_ids by (metis cold_group_ids)
qed

text \<open>When the group of a state is green.\<close>

definition group_green :: "group \<Rightarrow> bool" where
  "group_green g \<longleftrightarrow> \<not> g_degraded g \<and> g_publish_error g = [] \<and>
     (case g_winner g of
        None \<Rightarrow> False
      | Some w \<Rightarrow> (case g_kind g of
                     Peer \<Rightarrow> g_published g \<noteq> []
                   | Uplink \<Rightarrow> t_interface (tr_spec (g_transports g ! w)) \<noteq> []))"

lemma group_healthy_render:
  "winner_in_range g \<Longrightarrow> group_healthy (render_group fmt g) \<longleftrightarrow> group_green g"
  by (auto simp: group_healthy_def render_group_def group_green_def winner_label_def winner_in_range_def
      split: option.splits group_kind.splits)

section \<open>Properties\<close>

text \<open>
  HEALTH: the verdict of a reader of the status file is the state of the engine when it
  was written: green exactly when the file has not outlived its lifetime, the hosts file
  has no publish error, and every group has an elected transport and a published value,
  is not degraded and has no publish error.  After the lifetime the verdict is red.
\<close>

lemma written_verdict:
  assumes "state_inv st"
    and "status_write se flt t0 (snapshot_of (se_fmt se) st) ttl f = Some (None, Some file)"
    and "\<And>snap d. se_serialize se snap = Inr d \<Longrightarrow> se_deserialize se (d @ [of_int NL]) = Inr snap"
    and "\<And>t. se_representable se t \<Longrightarrow> \<exists>s. se_fmt se t = Some s \<and> se_parse_time se s = Some t"
  shows "\<exists>snap. status_read se (Inr (f_data file)) = Inr snap \<and> f_mode file = 420 \<and>
    (is_healthy_at se now snap \<longleftrightarrow>
       now \<le> t0 + nanos_of_ms (min ttl i64_max) \<and> en_hosts_error st = [] \<and>
       (\<forall>g \<in> set (hm_values (en_peers st) @ hm_values (en_uplinks st)). group_green g))"
proof -
  let ?until = "t0 + nanos_of_ms (min ttl i64_max)"
  obtain snap where snap: "stamp se t0 ttl (snapshot_of (se_fmt se) st) = Some snap"
    using assms(2) by (auto simp: status_write_def bind_eq_Some_conv)
  then have rep: "se_representable se ?until" by (auto simp: stamp_def Let_def split: if_splits)
  obtain d where d: "se_serialize se snap = Inr d"
    "write_with_chmod flt 420 (d @ [of_int NL]) f = (None, Some file)"
    using assms(2) snap by (auto simp: status_write_def split: sum.splits)
  have "file = new_file (Some 420) (d @ [of_int NL])"
    using public_file.ok_written [of flt 420 "d @ [of_int NL]" f] d(2) by (simp add: new_file_def)
  then have fd: "f_data file = d @ [of_int NL]" "f_mode file = 420" by (simp_all add: new_file_def)
  obtain s where s: "se_fmt se ?until = Some s" "se_parse_time se s = Some ?until"
    using assms(4) [OF rep] by blast
  have ok: "hm_ok (en_peers st)" "hm_ok (en_uplinks st)"
    using assms(1) by (simp_all add: state_sat_def groups_sat_def)
  have "winner_in_range g" if "g \<in> set (hm_values (en_peers st) @ hm_values (en_uplinks st))" for g
    using that assms(1) by (auto simp: state_sat_def groups_sat_def group_inv_def)
  then have "(\<forall>g \<in> set (hm_values (en_peers st) @ hm_values (en_uplinks st)). group_healthy (render_group (se_fmt se) g)) \<longleftrightarrow>
      (\<forall>g \<in> set (hm_values (en_peers st) @ hm_values (en_uplinks st)). group_green g)"
    by (intro ball_cong refl group_healthy_render)
  moreover have "sn_peers snap = map (\<lambda>(n, g). (n, render_group (se_fmt se) g)) (en_peers st)"
    "sn_uplinks snap = map (\<lambda>(n, g). (n, render_group (se_fmt se) g)) (en_uplinks st)"
    using snap by (auto simp: stamp_def Let_def snapshot_of_def render_groups_alt ok split: if_splits)
  then have "hm_values (sn_peers snap) = map (render_group (se_fmt se)) (hm_values (en_peers st))"
    "hm_values (sn_uplinks snap) = map (render_group (se_fmt se)) (hm_values (en_uplinks st))"
    by (simp_all add: case_prod_unfold)
  ultimately have "(\<forall>g \<in> set (hm_values (sn_peers snap) @ hm_values (sn_uplinks snap)). group_healthy g) \<longleftrightarrow>
      (\<forall>g \<in> set (hm_values (en_peers st) @ hm_values (en_uplinks st)). group_green g)"
    by (simp only: set_append set_map ball_Un ball_simps(9) image_image ball_imageD Set.ball_simps)
  moreover have "sn_valid_until snap = s" "sn_hosts_error snap = en_hosts_error st"
    using snap s(1) by (auto simp: stamp_def Let_def snapshot_of_def format_or_empty_def split: if_splits)
  ultimately have "is_healthy_at se now snap \<longleftrightarrow> now \<le> ?until \<and> en_hosts_error st = [] \<and>
      (\<forall>g \<in> set (hm_values (en_peers st) @ hm_values (en_uplinks st)). group_green g)"
    using s(2) by (auto simp: is_healthy_at_def ball_Un)
  then show ?thesis using assms(3) [OF d(1)] fd by (simp add: status_read_def)
qed

text \<open>An environment that can serialize one snapshot, that of an engine with no groups.\<close>

definition empty_state :: engine_state where
  "empty_state = \<lparr>en_peers = [], en_uplinks = [], en_hosts_error = []\<rparr>"

definition demo_snapshot :: "int \<Rightarrow> snapshot" where
  "demo_snapshot t = \<lparr>sn_generated_at = show_int t, sn_valid_until = show_int (t + 15000000000),
     sn_hosts_error = [], sn_peers = [], sn_uplinks = []\<rparr>"

definition demo_se :: status_env where
  "demo_se = \<lparr>se_fmt = (\<lambda>t. Some (show_int t)), se_parse_time = parse_decimal, se_representable = (\<lambda>_. True),
     se_serialize = (\<lambda>s. if s = demo_snapshot 7 then Inr [] else Inl []),
     se_deserialize = (\<lambda>d. Inr (demo_snapshot 7))\<rparr>"

lemma demo_status_write:
  "status_write demo_se no_faults 7 (snapshot_of (se_fmt demo_se) empty_state) 15000 None =
     Some (None, Some \<lparr>f_data = [of_int NL], f_mode = 420\<rparr>)"
  by (simp add: status_write_def stamp_def demo_se_def snapshot_of_def empty_state_def render_groups_def
      format_or_empty_def demo_snapshot_def nanos_of_ms_def i64_max_def write_with_chmod_def
      write_impl_no_faults new_file_def)

text \<open>
  The lifetime of a snapshot: at least fifteen seconds, at most what an \<open>i64\<close> of
  milliseconds holds, and, as long as nothing saturates, at least five seconds more than
  the interval and the timeout of any configured transport together; so a worker that
  keeps its cadence renews the file in time.
\<close>

lemma status_ttl_covers:
  assumes "t \<in> set (all_transports c)"
    and "p_interval_ms (t_probe t) + p_timeout_ms (t_probe t) + 5000 \<le> i64_max"
  shows "15000 \<le> status_ttl c \<and> status_ttl c \<le> i64_max \<and>
    p_interval_ms (t_probe t) + p_timeout_ms (t_probe t) + 5000 \<le> status_ttl c"
proof -
  let ?s = "p_interval_ms (t_probe t) + p_timeout_ms (t_probe t)"
  have "?s \<le> longest_cycle c"
    using longest_cycle_ge [OF assms(1)] assms(2) by (auto simp: sat_add64_def)
  then have "?s + 5000 \<le> sat_add64 (longest_cycle c) 5000"
    using assms(2) by (auto simp: sat_add64_def)
  moreover have "sat_add64 a b \<le> i64_max" for a b
    by (simp add: sat_add64_def i64_min_def i64_max_def)
  ultimately show ?thesis by (auto simp: status_ttl_def i64_max_def)
qed

theorem status_ttl_covers_witness: "15000 \<le> status_ttl demo_config"
proof -
  have "demo_transport (lit ''vpn'') [] 20 \<in> set (all_transports demo_config)"
    by (simp add: all_transports_def demo_config_def)
  from status_ttl_covers [OF this] show ?thesis
    by (simp add: demo_transport_def demo_probe_def i64_max_def)
qed

text \<open>
  No transport is lost in the status: in every reachable state the rendered map of a
  group holds each of its transports under its own label, with its state and detail, and
  nothing else, although the labels are keys that a name clash would overwrite.
\<close>

lemma status_shows_every_transport:
  assumes "hm_ok (c_peers c)" and "hm_ok (c_uplinks c)"
    and "get_group (run_events (fst (engine_new parse now now' f c)) es) k n = Some g"
  shows "sg_transports (render_group fmt g) =
      map (\<lambda>tr. (tr_id tr, status_of_transport tr)) (g_transports g) \<and>
    distinct (map fst (sg_transports (render_group fmt g)))"
proof -
  have "cold_state (run_events (fst (engine_new parse now now' f c)) es) = new_state c"
    using engine_new_inv [OF assms(1,2), of parse now now' f] run_events_inv(2) by simp
  then have d: "distinct (map tr_id (g_transports g))" using group_ids_distinct assms(3) by blast
  then have "render_transports (g_transports g) = map (\<lambda>tr. (tr_id tr, status_of_transport tr)) (g_transports g)"
    using foldl_put_values [of tr_id "g_transports g" "[]" status_of_transport]
    by (simp add: render_transports_def)
  then show ?thesis using d by (simp add: render_group_def comp_def)
qed

theorem status_shows_every_transport_witness:
  "\<exists>g. get_group (run_events (fst (engine_new (\<lambda>_. Inl []) 0 0 (StateMissing :: unit state_file) demo_config))
       demo_run) Peer (lit ''h'') = Some g \<and> length (sg_transports (render_group (\<lambda>_. None) g)) = 2"
proof -
  have "fst (engine_new (\<lambda>_. Inl []) 0 0 (StateMissing :: unit state_file) demo_config) = new_state demo_config"
    by (simp add: engine_new_def load_state_def)
  with demo_run_group obtain g where "get_group (run_events (fst (engine_new (\<lambda>_. Inl []) 0 0
      (StateMissing :: unit state_file) demo_config)) demo_run) Peer (lit ''h'') = Some g"
    "length (g_transports g) = 2" by auto
  with status_shows_every_transport [OF demo_config_maps this(1), of "\<lambda>_. None"] show ?thesis
    by auto
qed

text \<open>A lifetime that no instant can hold is a panic of the write, not an error of it.\<close>

lemma status_write_panics:
  "\<not> se_representable se (t0 + nanos_of_ms (min ttl i64_max)) \<Longrightarrow> status_write se flt t0 snap ttl f = None"
  by (simp add: status_write_def stamp_def)

end
