(* ===== verification/ExecProbe.thy ===== *)
theory ExecProbe
  imports Probe
begin

text \<open>
  \<open>src/probe/exec.rs\<close>: the provider contract.  The child process is that of the theory
  \<open>Subprocess\<close>, given by what the operating system answers when the command line is
  started; \<open>serde_json::from_str\<close> on the envelope is a parameter.
\<close>

section \<open>Definitions\<close>

record exec_envelope =
  ee_address :: "rstr option"
  ee_healthy :: "bool option"
  ee_detail :: "rstr option"

record exec_env =
  xe_world :: "rstr list \<Rightarrow> child_world"
  xe_json :: "rstr \<Rightarrow> rstr + exec_envelope"

definition or_empty :: "rstr option \<Rightarrow> rstr" where
  "or_empty x = (case x of Some s \<Rightarrow> s | None \<Rightarrow> [])"

text \<open>What the envelope contributes: the address and the first part of the detail.\<close>

definition exec_envelope_fields :: "exec_env \<Rightarrow> rstr \<Rightarrow> rstr \<times> rstr" where
  "exec_envelope_fields xe line =
     (if line = [] then ([], [])
      else (case xe_json xe line of
              Inr env \<Rightarrow> (or_empty (ee_address env), or_empty (ee_detail env))
            | Inl e \<Rightarrow> ([], lit ''exec probe: stdout was not the one-line JSON envelope: '' @ e)))"

definition exec_result :: "exec_env \<Rightarrow> bounded_output \<Rightarrow> probe_result" where
  "exec_result xe output =
     (let well = \<not> bo_timed_out output \<and> es_success (bo_status output);
          (address, detail) = exec_envelope_fields xe (first_non_empty_line (bo_stdout output));
          detail1 = (if detail = [] then
                       (if well then lit ''exec exit 0'' else lit ''exec exit non-zero'')
                     else detail);
          stderr = trim (from_utf8_lossy (bo_stderr output));
          detail2 = (if stderr \<noteq> [] then detail1 @ lit '': stderr: '' @ stderr else detail1);
          detail3 = (if bo_truncated output
                     then detail2 @ lit '' (probe output truncated at 64 KiB)'' else detail2)
      in \<lparr>pr_healthy = well, pr_address = address, pr_detail = detail3\<rparr>)"

definition exec_run ::
  "exec_env \<Rightarrow> transport \<Rightarrow> int \<Rightarrow> ((rstr + probe_result) \<times> child_op list) option" where
  "exec_run xe t timeout =
     (case tokenize (p_exec (t_probe t)) of
        Inl e \<Rightarrow> Some (Inl (lit ''exec probe: '' @ e), [])
      | Inr argv \<Rightarrow>
          if argv = [] then Some (Inl (lit ''exec probe: probe.exec is empty''), [])
          else (case run_child timeout (xe_world xe argv) of
                  None \<Rightarrow> None
                | Some (Inl e, ops) \<Rightarrow> Some (Inr (unhealthy e), ops)
                | Some (Inr output, ops) \<Rightarrow> Some (Inr (exec_result xe output), ops)))"

section \<open>Properties\<close>

lemma exec_result_fields:
  "pr_healthy (exec_result xe out) \<longleftrightarrow> \<not> bo_timed_out out \<and> es_success (bo_status out)"
  "pr_address (exec_result xe out) =
     fst (exec_envelope_fields xe (first_non_empty_line (bo_stdout out)))"
  "pr_detail (exec_result xe out) \<noteq> []"
  by (auto simp: exec_result_def Let_def split_beta)

lemma exec_address_from_envelope:
  assumes "fst (exec_envelope_fields xe line) \<noteq> []"
  shows "\<exists>env. xe_json xe line = Inr env \<and> ee_address env = Some (fst (exec_envelope_fields xe line))"
  using assms by (auto simp: exec_envelope_fields_def or_empty_def split: if_splits sum.splits option.splits)

lemma exec_verdict:
  assumes "exec_run xe t timeout = Some (Inr res, ops)"
  shows "\<exists>argv. tokenize (p_exec (t_probe t)) = Inr argv \<and> argv \<noteq> [] \<and>
    (pr_healthy res \<longleftrightarrow>
       (\<exists>out. run_child timeout (xe_world xe argv) = Some (Inr out, ops) \<and>
          \<not> bo_timed_out out \<and> es_success (bo_status out))) \<and>
    (pr_address res \<noteq> [] \<longrightarrow>
       (\<exists>out env. run_child timeout (xe_world xe argv) = Some (Inr out, ops) \<and>
          xe_json xe (first_non_empty_line (bo_stdout out)) = Inr env \<and>
          ee_address env = Some (pr_address res))) \<and>
    (pr_healthy res \<longrightarrow> pr_detail res \<noteq> [])"
proof -
  from assms obtain argv where argv: "tokenize (p_exec (t_probe t)) = Inr argv" "argv \<noteq> []"
    by (auto simp: exec_run_def split: sum.splits if_splits)
  from assms argv consider
      (failed) e where "run_child timeout (xe_world xe argv) = Some (Inl e, ops)" "res = unhealthy e"
    | (ran) out where "run_child timeout (xe_world xe argv) = Some (Inr out, ops)" "res = exec_result xe out"
    by (auto simp: exec_run_def split: sum.splits if_splits option.splits prod.splits)
  then show ?thesis
  proof cases
    case failed
    with argv show ?thesis by auto
  next
    case ran
    with argv exec_address_from_envelope [of xe "first_non_empty_line (bo_stdout out)"] show ?thesis
      by (auto simp: exec_result_fields)
  qed
qed

text \<open>
  C34.  The provider contract: the exit code decides.  The probe returns once its deadline has
  passed, whatever its child does; it is healthy exactly when its child ran to its end
  within the deadline with a success status, whatever it wrote; an address is only ever the
  one in the envelope on the first non-empty line of its output; and a healthy result
  always says something in its detail.
\<close>

theorem exec_exit_code_decides:
  assumes "\<And>argv. tokenize (p_exec (t_probe t)) = Inr argv \<Longrightarrow>
    \<exists>p \<in> set (cw_polls (xe_world xe argv)). timeout \<le> po_elapsed p"
  shows "exec_run xe t timeout \<noteq> None \<and>
    (\<forall>res ops. exec_run xe t timeout = Some (Inr res, ops) \<longrightarrow>
      (\<exists>argv. tokenize (p_exec (t_probe t)) = Inr argv \<and> argv \<noteq> [] \<and>
        (pr_healthy res \<longleftrightarrow>
           (\<exists>out. run_child timeout (xe_world xe argv) = Some (Inr out, ops) \<and>
              \<not> bo_timed_out out \<and> es_success (bo_status out))) \<and>
        (pr_address res \<noteq> [] \<longrightarrow>
           (\<exists>out env. run_child timeout (xe_world xe argv) = Some (Inr out, ops) \<and>
              xe_json xe (first_non_empty_line (bo_stdout out)) = Inr env \<and>
              ee_address env = Some (pr_address res))) \<and>
        (pr_healthy res \<longrightarrow> pr_detail res \<noteq> [])))"
proof (intro conjI allI impI)
  have "run_child timeout (xe_world xe argv) \<noteq> None" if "tokenize (p_exec (t_probe t)) = Inr argv" for argv
    using assms [OF that] child_deadline [of "xe_world xe argv" timeout] by blast
  then show "exec_run xe t timeout \<noteq> None"
    by (auto simp: exec_run_def split: sum.splits option.splits)
qed (rule exec_verdict)

definition demo_exec :: exec_env where
  "demo_exec =
     \<lparr>xe_world = (\<lambda>argv. \<lparr>cw_spawn = None, cw_nonblock_out = None, cw_nonblock_err = None,
        cw_io = ([Got [79, 75, 10], Got []], [WouldBlock]),
        cw_polls = [\<lparr>po_wait = Exited \<lparr>es_success = True, es_display = lit ''exit status: 0''\<rparr>, po_elapsed = 60\<rparr>],
        cw_reap = Inl []\<rparr>),
      xe_json = (\<lambda>line. Inr \<lparr>ee_address = Some (lit ''192.0.2.7''), ee_healthy = Some False, ee_detail = None\<rparr>)\<rparr>"

definition demo_exec_transport :: transport where
  "demo_exec_transport =
     (demo_transport [] [] 10)\<lparr>t_probe := demo_probe\<lparr>p_method := lit ''exec'', p_exec := lit ''/bin/p''\<rparr>\<rparr>"

lemma demo_exec_run:
  "\<exists>res ops. exec_run demo_exec demo_exec_transport 50 = Some (Inr res, ops) \<and> pr_healthy res \<and>
     pr_address res = lit ''192.0.2.7''"
proof -
  have argv: "tokenize (lit ''/bin/p'') = Inr [lit ''/bin/p'']"
    by (simp add: tokenize_def str_simps)
  have line: "first_non_empty_line [79, 75, 10] = [79, 75]"
    by (simp add: first_non_empty_line_def from_utf8_lossy_def lossy_step_def lines_def chop_eol_def
        trim_def trim_start_def trim_end_def is_whitespace_def)
  have "run_child 50 (xe_world demo_exec [lit ''/bin/p'']) =
      Some (Inr \<lparr>bo_status = \<lparr>es_success = True, es_display = lit ''exit status: 0''\<rparr>,
        bo_stdout = [79, 75, 10], bo_stderr = [], bo_timed_out = False, bo_truncated = False\<rparr>, [KillGroup])"
    by (simp add: run_child_def demo_exec_def drain_both_def drain_def drain_pass_numeral
        captured_default_def capture_def MAX_OUTPUT_BYTES_def)
  then show ?thesis
    by (simp add: exec_run_def demo_exec_transport_def argv exec_result_def line Let_def split_beta
        exec_envelope_fields_def) (simp add: demo_exec_def or_empty_def)
qed

theorem exec_exit_code_decides_witness:
  "\<exists>res ops argv out. exec_run demo_exec demo_exec_transport 50 = Some (Inr res, ops) \<and> pr_healthy res \<and>
     tokenize (p_exec (t_probe demo_exec_transport)) = Inr argv \<and>
     run_child 50 (xe_world demo_exec argv) = Some (Inr out, ops) \<and> es_success (bo_status out)"
proof -
  obtain res ops where r: "exec_run demo_exec demo_exec_transport 50 = Some (Inr res, ops)" "pr_healthy res"
    using demo_exec_run by blast
  have "\<exists>p \<in> set (cw_polls (xe_world demo_exec argv)). 50 \<le> po_elapsed p" for argv
    by (simp add: demo_exec_def)
  from exec_exit_code_decides [OF this, of demo_exec_transport] r show ?thesis by blast
qed

end
