(* ===== verification/TcpProbe.thy ===== *)
theory TcpProbe
  imports Probe NetAddr
begin

text \<open>
  \<open>src/probe/tcp.rs\<close> with \<open>bind_to_device\<close>, over a network given by its answers: what the
  resolver says, and for the attempt at each address the time spent so far and the outcome
  of each system call.  The result is that of the probe with the trace of its system calls.
\<close>

section \<open>Definitions\<close>

datatype net_op =
    NewSocket bool
  | BindDevice rstr
  | ConnectTo ip_addr int int
  | SetTimeouts int
  | SendBytes "8 word list"

text \<open>
  One attempt: the time elapsed when it starts and when its connection stands, the errors
  of \<open>Socket::new\<close>, \<open>SO_BINDTODEVICE\<close> and \<open>connect\<close>, and for HTTP that of the write and the
  outcomes of the reads.
\<close>

record attempt =
  at_elapsed :: int
  at_socket :: "rstr option"
  at_bind :: "rstr option"
  at_connect :: "rstr option"
  at_connected :: int
  at_write :: "rstr option"
  at_reads :: "(rstr + 8 word list) list"

record net_env =
  ne_resolve :: "rstr \<Rightarrow> int \<Rightarrow> rstr + ip_addr list"
  ne_show :: "ip_addr \<Rightarrow> int \<Rightarrow> rstr"
  ne_attempt :: "nat \<Rightarrow> attempt"

definition is_ipv4 :: "ip_addr \<Rightarrow> bool" where
  "is_ipv4 a = (case a of V4 _ \<Rightarrow> True | V6 _ \<Rightarrow> False)"

text \<open>\<open>timeout.checked_sub(started.elapsed())\<close>, where zero also ends the loop.\<close>

definition remaining_time :: "int \<Rightarrow> int \<Rightarrow> int option" where
  "remaining_time timeout elapsed =
     (if elapsed \<le> timeout \<and> timeout - elapsed \<noteq> 0 then Some (timeout - elapsed) else None)"

definition wants_bind :: "transport \<Rightarrow> bool" where
  "wants_bind t \<longleftrightarrow> p_bind_to_interface (t_probe t) \<and> t_interface t \<noteq> []"

definition bind_ops :: "transport \<Rightarrow> net_op list" where
  "bind_ops t = (if wants_bind t then [BindDevice (t_interface t)] else [])"

fun tcp_loop ::
  "net_env \<Rightarrow> transport \<Rightarrow> int \<Rightarrow> int \<Rightarrow> nat \<Rightarrow> ip_addr list \<Rightarrow> rstr \<Rightarrow> probe_result \<times> net_op list" where
  "tcp_loop ne t timeout port i [] err = (unhealthy err, [])"
| "tcp_loop ne t timeout port i (a # as) err =
     (let at = ne_attempt ne i; shown = ne_show ne a port in
      case remaining_time timeout (at_elapsed at) of
        None \<Rightarrow> (unhealthy err, [])
      | Some remaining \<Rightarrow>
        (case at_socket at of
           Some e \<Rightarrow> apsnd ((@) [NewSocket (is_ipv4 a)]) (tcp_loop ne t timeout port (Suc i) as e)
         | None \<Rightarrow>
           (case (if wants_bind t then at_bind at else None) of
              Some e \<Rightarrow> apsnd ((@) (NewSocket (is_ipv4 a) # bind_ops t)) (tcp_loop ne t timeout port (Suc i) as e)
            | None \<Rightarrow>
              (let ops = NewSocket (is_ipv4 a) # bind_ops t @ [ConnectTo a port remaining] in
               case at_connect at of
                 None \<Rightarrow> (healthy (lit ''tcp connect ok ('' @ shown @ lit '')''), ops)
               | Some e \<Rightarrow> apsnd ((@) ops) (tcp_loop ne t timeout port (Suc i) as (shown @ lit '': '' @ e))))))"

definition DEADLINE_IN_RESOLUTION :: rstr where
  "DEADLINE_IN_RESOLUTION = lit ''probe deadline exhausted during name resolution''"

text \<open>\<open>port as u16\<close> keeps the low 16 bits.\<close>

definition tcp_port :: "transport \<Rightarrow> int" where
  "tcp_port t = (if p_port (t_probe t) = 0 then 22 else p_port (t_probe t)) mod 65536"

definition tcp_run :: "net_env \<Rightarrow> transport \<Rightarrow> int \<Rightarrow> (rstr + probe_result) \<times> net_op list" where
  "tcp_run ne t timeout =
     (let target = effective_target t; port = tcp_port t in
      if target = [] then (Inl (lit ''tcp probe: no target/address configured''), [])
      else (case ne_resolve ne target port of
              Inr [] \<Rightarrow> (Inr (unhealthy (lit ''no addresses found'')), [])
            | Inr addresses \<Rightarrow>
                apfst Inr (tcp_loop ne t timeout port 0 addresses DEADLINE_IN_RESOLUTION)
            | Inl e \<Rightarrow> (Inr (unhealthy e), [])))"

section \<open>The attempts\<close>

text \<open>The attempt reaches its address; one that comes too late ends the loop.\<close>

definition in_time :: "int \<Rightarrow> attempt \<Rightarrow> bool" where
  "in_time timeout at \<longleftrightarrow> at_elapsed at < timeout"

definition reaches :: "transport \<Rightarrow> attempt \<Rightarrow> bool" where
  "reaches t at \<longleftrightarrow> at_socket at = None \<and> (wants_bind t \<longrightarrow> at_bind at = None) \<and> at_connect at = None"

lemma remaining_time_iff: "remaining_time timeout e = Some r \<longleftrightarrow> e < timeout \<and> r = timeout - e"
  by (auto simp: remaining_time_def)

lemma remaining_time_None: "remaining_time timeout e = None \<longleftrightarrow> timeout \<le> e"
  by (auto simp: remaining_time_def)

lemma tcp_loop_healthy:
  "pr_healthy (fst (tcp_loop ne t timeout port i as err)) \<longleftrightarrow>
   (\<exists>k < length as. reaches t (ne_attempt ne (i + k)) \<and> (\<forall>j \<le> k. in_time timeout (ne_attempt ne (i + j))))"
proof (induction as arbitrary: i err)
  case (Cons a as)
  show ?case
    unfolding length_Cons
      scan_Suc [where P = "\<lambda>k. reaches t (ne_attempt ne k)" and Q = "\<lambda>k. in_time timeout (ne_attempt ne k)"]
    using Cons.IH
    by (auto simp: Let_def reaches_def in_time_def remaining_time_iff remaining_time_None
        split: option.splits)
qed simp

lemma tcp_loop_address: "pr_address (fst (tcp_loop ne t timeout port i as err)) = []"
  by (induction as arbitrary: i err) (auto simp: Let_def split: option.splits)

text \<open>
  Every connection attempt is made on a fresh socket of the family of its address, bound
  to the interface if the transport asks for it, with a deadline inside that of the probe.
\<close>

definition prepared :: "transport \<Rightarrow> ip_addr \<Rightarrow> net_op list" where
  "prepared t a =
     (if p_bind_to_interface (t_probe t) \<and> t_interface t \<noteq> []
      then [NewSocket (is_ipv4 a), BindDevice (t_interface t)] else [NewSocket (is_ipv4 a)])"

lemma prepared_ops: "prepared t a = NewSocket (is_ipv4 a) # bind_ops t"
  by (simp add: prepared_def bind_ops_def wants_bind_def)

definition connects_bound :: "transport \<Rightarrow> int \<Rightarrow> net_op list \<Rightarrow> bool" where
  "connects_bound t timeout ops \<longleftrightarrow>
     (\<forall>pre a p r post. ops = pre @ ConnectTo a p r # post \<longrightarrow>
        (\<exists>pre'. pre = pre' @ prepared t a) \<and> 0 < r \<and> r \<le> timeout)"

lemma connects_boundD:
  "connects_bound t timeout (pre @ ConnectTo a p r # post) \<Longrightarrow>
   (\<exists>pre'. pre = pre' @ prepared t a) \<and> 0 < r \<and> r \<le> timeout"
  unfolding connects_bound_def by blast

lemma connects_bound_append [wf_intros]:
  assumes "connects_bound t timeout x" and "connects_bound t timeout y"
  shows "connects_bound t timeout (x @ y)"
  unfolding connects_bound_def
proof (intro allI impI)
  fix pre a p r post
  assume "x @ y = pre @ ConnectTo a p r # post"
  then obtain us where "x = pre @ us \<and> us @ y = ConnectTo a p r # post \<or> x @ us = pre \<and> y = us @ ConnectTo a p r # post"
    by (auto simp: append_eq_append_conv2)
  then consider (x) us where "x = pre @ ConnectTo a p r # us" | (y) us where "pre = x @ us" "y = us @ ConnectTo a p r # post"
    by (cases us) auto
  then show "(\<exists>pre'. pre = pre' @ prepared t a) \<and> 0 < r \<and> r \<le> timeout"
  proof cases
    case x
    then show ?thesis using assms(1) connects_boundD [of t timeout pre a p r us] by simp
  next
    case y
    then have "(\<exists>pre'. us = pre' @ prepared t a) \<and> 0 < r \<and> r \<le> timeout"
      using assms(2) connects_boundD [of t timeout us a p r post] by simp
    with y show ?thesis by (metis append_assoc)
  qed
qed

lemma connects_bound_none [wf_intros]:
  "\<forall>op \<in> set ops. \<forall>a p r. op \<noteq> ConnectTo a p r \<Longrightarrow> connects_bound t timeout ops"
  by (auto simp: connects_bound_def)

lemma connects_bound_Nil [wf_intros]: "connects_bound t timeout []"
  by (simp add: connects_bound_def)

lemma connects_bound_prepare [wf_intros]: "connects_bound t timeout (NewSocket b # bind_ops t)"
  by (rule connects_bound_none) (auto simp: bind_ops_def)

lemma connects_bound_connect [wf_intros]:
  assumes "0 < r" and "r \<le> timeout"
  shows "connects_bound t timeout (NewSocket (is_ipv4 a) # bind_ops t @ [ConnectTo a p r])"
  using assms by (auto simp: connects_bound_def prepared_ops bind_ops_def Cons_eq_append_conv append_eq_Cons_conv)

lemma connects_bound_socket [wf_intros]: "connects_bound t timeout [NewSocket b]"
  by (simp add: connects_bound_def Cons_eq_append_conv)

lemma tcp_loop_bound:
  "\<forall>k. 0 \<le> at_elapsed (ne_attempt ne k) \<Longrightarrow>
   connects_bound t timeout (snd (tcp_loop ne t timeout port i as err))"
proof (induction as arbitrary: i err)
  case (Cons a as)
  note IH = Cons.IH [OF Cons.prems]
  have one: "connects_bound t timeout (NewSocket (is_ipv4 a) # bind_ops t @ [ConnectTo a port r])"
    if "remaining_time timeout (at_elapsed (ne_attempt ne i)) = Some r" for r
    using that Cons.prems by (intro connects_bound_connect) (auto simp: remaining_time_iff)
  moreover have "connects_bound t timeout (NewSocket (is_ipv4 a) # bind_ops t @ ConnectTo a port r #
      snd (tcp_loop ne t timeout port (Suc i) as err'))"
    if "remaining_time timeout (at_elapsed (ne_attempt ne i)) = Some r" for r err'
    using connects_bound_append [OF one [OF that] IH [of "Suc i" err']] by simp
  ultimately show ?case
    using connects_bound_append [OF connects_bound_socket IH]
      connects_bound_append [OF connects_bound_prepare IH]
    by (auto simp: Let_def wf_intros split: option.splits)
qed (simp add: wf_intros)

text \<open>
  C33.  The \<open>tcp\<close> probe: it is healthy exactly when an address of its target accepts a
  connection and neither that attempt nor one before it starts after the deadline; with
  \<open>bindToInterface\<close> every connection leaves through the interface of the transport; and no
  connection attempt is given more than the time of the probe.
\<close>

theorem tcp_probe_verdict:
  assumes "tcp_run ne t timeout = (Inr res, ops)" and "\<forall>k. 0 \<le> at_elapsed (ne_attempt ne k)"
  shows "(pr_healthy res \<longleftrightarrow>
      (\<exists>addresses k. ne_resolve ne (effective_target t) (tcp_port t) = Inr addresses \<and>
         k < length addresses \<and> reaches t (ne_attempt ne k) \<and> (\<forall>j \<le> k. in_time timeout (ne_attempt ne j)))) \<and>
    connects_bound t timeout ops \<and> pr_address res = []"
proof -
  show ?thesis
  proof (cases "ne_resolve ne (effective_target t) (tcp_port t)")
    case (Inl e)
    with assms show ?thesis by (auto simp: tcp_run_def Let_def wf_intros split: if_splits)
  next
    case (Inr as)
    show ?thesis
    proof (cases as)
      case Nil
      with assms Inr show ?thesis by (auto simp: tcp_run_def Let_def wf_intros split: if_splits)
    next
      case (Cons a as')
      let ?l = "tcp_loop ne t timeout (tcp_port t) 0 as DEADLINE_IN_RESOLUTION"
      have "res = fst ?l" "ops = snd ?l"
        using assms(1) Inr Cons
        by (auto simp: tcp_run_def Let_def apfst_def map_prod_def split_beta simp del: tcp_loop.simps split: if_splits)
      then show ?thesis
        using tcp_loop_healthy [of ne t timeout "tcp_port t" 0 as] tcp_loop_bound [OF assms(2)]
          tcp_loop_address Inr by simp
    qed
  qed
qed

definition demo_net :: net_env where
  "demo_net =
     \<lparr>ne_resolve = (\<lambda>host port. Inr [V6 [8193, 3512, 0, 0, 0, 0, 0, 1], V4 [192, 0, 2, 10]]),
      ne_show = (\<lambda>a port. []),
      ne_attempt = (\<lambda>i. \<lparr>at_elapsed = int i, at_socket = None, at_bind = None,
         at_connect = (if i = 0 then Some (lit ''refused'') else None), at_connected = 3, at_write = None,
         at_reads = []\<rparr>)\<rparr>"

theorem tcp_probe_verdict_witness:
  "\<exists>res ops. tcp_run demo_net (demo_transport (lit ''wan'') (lit ''host'') 10) 9 = (Inr res, ops) \<and>
     pr_healthy res \<and> connects_bound (demo_transport (lit ''wan'') (lit ''host'') 10) 9 ops"
proof -
  let ?t = "demo_transport (lit ''wan'') (lit ''host'') 10"
  have tgt: "effective_target ?t = lit ''host''"
    by (simp add: effective_target_def demo_transport_def demo_probe_def)
  obtain res ops where r: "tcp_run demo_net ?t 9 = (Inr res, ops)"
    by (cases "tcp_loop demo_net ?t 9 (tcp_port ?t) 0 [V6 [8193, 3512, 0, 0, 0, 0, 0, 1], V4 [192, 0, 2, 10]] DEADLINE_IN_RESOLUTION")
      (auto simp: tcp_run_def tgt demo_net_def simp del: tcp_loop.simps)
  have "pr_healthy res"
    using tcp_probe_verdict [OF r] by (auto simp: demo_net_def reaches_def in_time_def demo_transport_def
        demo_probe_def wants_bind_def intro!: exI [of _ "Suc 0"])
  then show ?thesis using tcp_probe_verdict [OF r] r by (auto simp: demo_net_def)
qed

end
