(* ===== verification/HttpProbe.thy ===== *)
theory HttpProbe
  imports TcpProbe
begin

text \<open>
  \<open>src/probe/http.rs\<close>: the request that a transport's configuration means, the exchange on
  a connected stream and the probe over the network of the theory \<open>TcpProbe\<close>.  \<open>{:?}\<close> of a
  string in a message is left as the string.
\<close>

section \<open>The request\<close>

abbreviation SLASH :: uchar where "SLASH \<equiv> 47"
abbreviation LBRACKET :: uchar where "LBRACKET \<equiv> 91"
abbreviation RBRACKET :: uchar where "RBRACKET \<equiv> 93"

definition split_host_path :: "rstr \<Rightarrow> rstr \<times> rstr" where
  "split_host_path rest =
     (let path = dropWhile (\<lambda>c. c \<noteq> SLASH) rest in
      if path \<noteq> [] then (takeWhile (\<lambda>c. c \<noteq> SLASH) rest, path) else (rest, [SLASH]))"

record http_authority =
  au_host :: rstr
  au_port :: "int option"
  au_ipv6_literal :: bool

record http_request =
  rq_header_host :: rstr
  rq_connect_host :: rstr
  rq_connect_port :: int
  rq_path :: rstr

definition U16_MAX :: int where "U16_MAX = 65535"

definition header_host :: "http_authority \<Rightarrow> rstr" where
  "header_host a =
     (case (au_ipv6_literal a, au_port a) of
        (True, Some p) \<Rightarrow> [LBRACKET] @ au_host a @ [RBRACKET, COLON] @ show_int p
      | (True, None) \<Rightarrow> [LBRACKET] @ au_host a @ [RBRACKET]
      | (False, Some p) \<Rightarrow> au_host a @ [COLON] @ show_int p
      | (False, None) \<Rightarrow> au_host a)"

definition opaque_host :: "rstr \<Rightarrow> http_authority" where
  "opaque_host s = \<lparr>au_host = s, au_port = None, au_ipv6_literal = False\<rparr>"

definition split_authority :: "rstr \<Rightarrow> http_authority" where
  "split_authority authority =
     (case strip_prefix [LBRACKET] authority of
        Some rest \<Rightarrow>
          (case split_once RBRACKET rest of
             Some (literal, after) \<Rightarrow>
               \<lparr>au_host = literal,
                au_port = Option.bind (strip_prefix [COLON] after) (parse_unsigned U16_MAX),
                au_ipv6_literal = True\<rparr>
           | None \<Rightarrow> opaque_host authority)
      | None \<Rightarrow>
          (case rsplit_once COLON authority of
             Some (head, tail) \<Rightarrow>
               if COLON \<in> set head then
                 \<lparr>au_host = authority, au_port = None, au_ipv6_literal = True\<rparr>
               else
                 (case parse_unsigned U16_MAX tail of
                    Some port \<Rightarrow> \<lparr>au_host = head, au_port = Some port, au_ipv6_literal = False\<rparr>
                  | None \<Rightarrow> opaque_host authority)
           | None \<Rightarrow> opaque_host authority))"

text \<open>\<open>u16::try_from(probe_port).ok()\<close>.\<close>

definition u16_try_from :: "int \<Rightarrow> int option" where
  "u16_try_from p = (if 0 \<le> p \<and> p \<le> U16_MAX then Some p else None)"

definition plain_request :: "rstr \<Rightarrow> int \<Rightarrow> rstr \<Rightarrow> http_request" where
  "plain_request target probe_port probe_path =
     (let (auth, path) =
        (case strip_prefix (lit ''http://'') target of
           Some rest \<Rightarrow>
             (case split_host_path rest of (authority, path) \<Rightarrow> (split_authority authority, path))
         | None \<Rightarrow>
             (let auth = split_authority target in
              (if au_port auth = None \<and> probe_port \<noteq> 0 \<and> probe_port \<noteq> 80
               then auth\<lparr>au_port := u16_try_from probe_port\<rparr> else auth,
               if probe_path = [] then [SLASH] else probe_path)))
      in \<lparr>rq_header_host = header_host auth, rq_connect_host = au_host auth,
          rq_connect_port = (case au_port auth of Some p \<Rightarrow> p | None \<Rightarrow> 80), rq_path = path\<rparr>)"

section \<open>The exchange\<close>

text \<open>\<open>buf.windows(2).any(|w| w == b"\r\n")\<close>.\<close>

fun has_crlf :: "8 word list \<Rightarrow> bool" where
  "has_crlf (a # b # bs) \<longleftrightarrow> (a = 13 \<and> b = 10) \<or> has_crlf (b # bs)"
| "has_crlf _ \<longleftrightarrow> False"

text \<open>
  The reading loop; each outcome is an error or a chunk of at most 512 bytes, an empty one
  at the end of the stream; after the last outcome listed the peer has closed.
\<close>

fun read_head :: "(rstr + 8 word list) list \<Rightarrow> 8 word list \<Rightarrow> rstr + 8 word list" where
  "read_head [] buf = Inr buf"
| "read_head (r # rs) buf =
     (if has_crlf buf \<or> length buf \<ge> 4096 then Inr buf
      else (case r of
              Inl e \<Rightarrow> Inl e
            | Inr chunk \<Rightarrow> if chunk = [] then Inr buf else read_head rs (buf @ chunk)))"

definition status_of_line :: "rstr \<Rightarrow> rstr + int" where
  "status_of_line status_line =
     (case nth_opt (split_whitespace status_line) 1 of
        None \<Rightarrow> Inl (lit ''malformed http status line: '' @ status_line)
      | Some code_str \<Rightarrow>
          (case parse_unsigned U16_MAX code_str of
             Some code \<Rightarrow> Inr code
           | None \<Rightarrow> Inl (lit ''malformed http status code: '' @ code_str)))"

definition status_of_response :: "8 word list \<Rightarrow> rstr + int" where
  "status_of_response buf =
     status_of_line (case lines (from_utf8_lossy buf) of [] \<Rightarrow> [] | l # _ \<Rightarrow> l)"

definition CRLF :: rstr where "CRLF = [CR, NL]"

definition request_text :: "rstr \<Rightarrow> rstr \<Rightarrow> rstr" where
  "request_text header path =
     lit ''GET '' @ path @ lit '' HTTP/1.1'' @ CRLF @ lit ''Host: '' @ header @ CRLF @
     lit ''Connection: close'' @ CRLF @ lit ''User-Agent: nixnetd'' @ CRLF @ CRLF"

definition do_get :: "rstr option \<Rightarrow> (rstr + 8 word list) list \<Rightarrow> rstr + int" where
  "do_get write_error reads =
     (case write_error of
        Some e \<Rightarrow> Inl e
      | None \<Rightarrow>
          (case read_head reads [] of Inl e \<Rightarrow> Inl e | Inr buf \<Rightarrow> status_of_response buf))"

section \<open>The probe\<close>

definition http_verdict :: "rstr \<Rightarrow> rstr + int \<Rightarrow> probe_result" where
  "http_verdict shown r =
     (case r of
        Inr code \<Rightarrow>
          \<lparr>pr_healthy = (code < 400), pr_address = [],
           pr_detail = lit ''http status '' @ show_int code @ lit '' ('' @ shown @ lit '')''\<rparr>
      | Inl e \<Rightarrow> unhealthy (shown @ lit '': '' @ e))"

fun http_loop ::
  "net_env \<Rightarrow> transport \<Rightarrow> http_request \<Rightarrow> int \<Rightarrow> nat \<Rightarrow> ip_addr list \<Rightarrow> rstr \<Rightarrow> probe_result \<times> net_op list" where
  "http_loop ne t req timeout i [] err = (unhealthy err, [])"
| "http_loop ne t req timeout i (a # as) err =
     (let at = ne_attempt ne i; port = rq_connect_port req; shown = ne_show ne a port in
      case remaining_time timeout (at_elapsed at) of
        None \<Rightarrow> (unhealthy err, [])
      | Some remaining \<Rightarrow>
        (case at_socket at of
           Some e \<Rightarrow> apsnd ((@) [NewSocket (is_ipv4 a)]) (http_loop ne t req timeout (Suc i) as e)
         | None \<Rightarrow>
           (case (if wants_bind t then at_bind at else None) of
              Some e \<Rightarrow> apsnd ((@) (NewSocket (is_ipv4 a) # bind_ops t)) (http_loop ne t req timeout (Suc i) as e)
            | None \<Rightarrow>
              (let ops = NewSocket (is_ipv4 a) # bind_ops t @ [ConnectTo a port remaining] in
               case at_connect at of
                 Some e \<Rightarrow> apsnd ((@) ops) (http_loop ne t req timeout (Suc i) as (shown @ lit '': '' @ e))
               | None \<Rightarrow>
                 (let remaining' = max 0 (timeout - at_connected at) in
                  if remaining' = 0 then (unhealthy err, ops)
                  else (http_verdict shown (do_get (at_write at) (at_reads at)),
                        ops @ [SetTimeouts remaining',
                               SendBytes (utf8 (request_text (rq_header_host req) (rq_path req)))]))))))"

definition https_refusal :: "rstr \<Rightarrow> rstr" where
  "https_refusal host = lit ''http probe: '' @ host @
     lit '' uses https://, which this build's plain-HTTP prober does not support (no TLS client wired up) -- use method=tcp/icmp for reachability, or method=exec with a script that curls it''"

definition http_run :: "net_env \<Rightarrow> transport \<Rightarrow> int \<Rightarrow> (rstr + probe_result) \<times> net_op list" where
  "http_run ne t timeout =
     (let target = effective_target t in
      if target = [] then (Inl (lit ''http probe: no target/address configured''), [])
      else (case strip_prefix (lit ''https://'') target of
              Some rest \<Rightarrow> (Inr (unhealthy (https_refusal (fst (split_host_path rest)))), [])
            | None \<Rightarrow>
              (let req = plain_request target (p_port (t_probe t)) (p_path (t_probe t)) in
               case ne_resolve ne (rq_connect_host req) (rq_connect_port req) of
                 Inr [] \<Rightarrow> (Inr (unhealthy (lit ''no addresses found'')), [])
               | Inr addresses \<Rightarrow>
                   apfst Inr (http_loop ne t req timeout 0 addresses DEADLINE_IN_RESOLUTION)
               | Inl e \<Rightarrow> (Inr (unhealthy e), []))))"

section \<open>Host and port\<close>

text \<open>An authority that \<open>header_host\<close> can write out and \<open>split_authority\<close> read back.\<close>

definition authority_ok :: "http_authority \<Rightarrow> bool" where
  "authority_ok a \<longleftrightarrow>
     (case au_port a of Some p \<Rightarrow> 0 \<le> p \<and> p \<le> U16_MAX | None \<Rightarrow> True) \<and>
     (if au_ipv6_literal a then RBRACKET \<notin> set (au_host a)
      else COLON \<notin> set (au_host a) \<and> (au_host a = [] \<or> hd (au_host a) \<noteq> LBRACKET))"

lemma split_once_append: "d \<notin> set a \<Longrightarrow> split_once d (a @ d # b) = Some (a, b)"
  by (induction a) auto

lemma split_once_None: "split_once d s = None \<longleftrightarrow> d \<notin> set s"
  by (induction s) auto

lemma rsplit_once_append: "d \<notin> set b \<Longrightarrow> rsplit_once d (a @ d # b) = Some (a, b)"
  by (simp add: rsplit_once_def split_once_append)

lemma rsplit_once_None: "rsplit_once d s = None \<longleftrightarrow> d \<notin> set s"
  by (simp add: rsplit_once_def split_once_None)

lemma strip_bracket [simp]:
  "strip_prefix [c] (c # s) = Some s" "c' \<noteq> c \<Longrightarrow> strip_prefix [c] (c' # s) = None"
  "strip_prefix [c] [] = None"
  by (simp_all add: strip_prefix_def starts_with_def)

lemma parse_port: "0 \<le> p \<Longrightarrow> p \<le> m \<Longrightarrow> parse_unsigned m (show_int p) = Some p"
  using parse_unsigned_show_nat [of "nat p" m] by (simp add: show_int_def)

lemma show_port_no_colon: "0 \<le> p \<Longrightarrow> COLON \<notin> set (show_int p)"
  using show_nat_digits [of "nat p"] by (auto simp: show_int_def)

text \<open>What \<open>header_host\<close> writes for an authority, \<open>split_authority\<close> reads back.\<close>

lemma split_header_host:
  assumes "authority_ok a"
  shows "split_authority (header_host a) = a"
proof (cases "au_ipv6_literal a")
  case True
  then show ?thesis
    using assms
    by (cases a; cases "au_port a")
      (auto simp: header_host_def authority_ok_def split_authority_def split_once_append parse_port)
next
  case False
  let ?h = "au_host a"
  have h: "COLON \<notin> set ?h" "strip_prefix [LBRACKET] ?h = None"
    using assms False by (cases ?h; auto simp: authority_ok_def)+
  show ?thesis
  proof (cases "au_port a")
    case None
    with False h show ?thesis
      by (cases a) (simp add: header_host_def split_authority_def rsplit_once_None [THEN iffD2] opaque_host_def)
  next
    case (Some p)
    then have p: "0 \<le> p" "p \<le> U16_MAX" using assms by (auto simp: authority_ok_def)
    have "strip_prefix [LBRACKET] (?h @ COLON # show_int p) = None"
      using h(2) assms False by (cases ?h) (auto simp: authority_ok_def)
    with False h Some p show ?thesis
      by (cases a) (simp add: header_host_def split_authority_def rsplit_once_append show_port_no_colon parse_port)
  qed
qed

lemma many_colons:
  assumes "target = x @ COLON # y @ COLON # z" and "strip_prefix [LBRACKET] target = None"
  shows "split_authority target = \<lparr>au_host = target, au_port = None, au_ipv6_literal = True\<rparr>"
proof -
  have "COLON \<in> set target" using assms(1) by simp
  then obtain h u where hu: "target = h @ COLON # u" "COLON \<notin> set u"
    using split_list_last by metis
  have "COLON \<in> set h"
  proof (rule ccontr)
    assume "COLON \<notin> set h"
    then have "filter (\<lambda>c. c = COLON) h = []" "filter (\<lambda>c. c = COLON) u = []"
      using hu(2) by (auto simp: filter_empty_conv)
    then have "filter (\<lambda>c. c = COLON) target = [COLON]" using hu(1) by simp
    with assms(1) show False by simp
  qed
  with assms(2) hu show ?thesis by (simp add: split_authority_def rsplit_once_append)
qed



section \<open>Reading the status\<close>

text \<open>How many reads the loop makes.\<close>

fun reads_made :: "(rstr + 8 word list) list \<Rightarrow> 8 word list \<Rightarrow> nat" where
  "reads_made [] buf = (if has_crlf buf \<or> length buf \<ge> 4096 then 0 else 1)"
| "reads_made (r # rs) buf =
     (if has_crlf buf \<or> length buf \<ge> 4096 then 0
      else (case r of
              Inl e \<Rightarrow> 1
            | Inr chunk \<Rightarrow> if chunk = [] then 1 else Suc (reads_made rs (buf @ chunk))))"

lemma reads_made_bound: "reads_made rs buf \<le> 4096 - length buf"
proof (induction rs buf rule: reads_made.induct)
  case (2 r rs buf)
  show ?case
  proof (cases r)
    case (Inr chunk)
    show ?thesis
    proof (cases "has_crlf buf \<or> 4096 \<le> length buf \<or> chunk = []")
      case False
      with Inr have "reads_made rs (buf @ chunk) \<le> 4096 - length (buf @ chunk)" using 2 by blast
      with False Inr show ?thesis by (cases chunk) auto
    qed (auto simp: Inr)
  qed auto
qed auto

lemma reads_made_drip:
  "length buf + n = 4096 \<Longrightarrow> c \<noteq> 10 \<Longrightarrow> (\<forall>b \<in> set buf. b \<noteq> 10) \<Longrightarrow> reads_made (replicate n (Inr [c])) buf = n"
proof (induction n arbitrary: buf)
  case (Suc n)
  have "\<not> has_crlf buf" using Suc.prems(3) by (induction buf rule: has_crlf.induct) auto
  moreover have "reads_made (replicate n (Inr [c])) (buf @ [c]) = n"
    using Suc.prems by (intro Suc.IH) auto
  ultimately show ?case using Suc.prems(1) by simp
qed auto

text \<open>
  The response is read in at most 4096 reads, whatever the server sends and however
  slowly; and a server that sends its bytes one at a time gets all of them.  Each read has
  the time that was left when the first began, so this, and not the deadline of the probe,
  bounds how long an HTTP probe can take.
\<close>

lemma http_reads_bounded:
  "reads_made reads [] \<le> 4096 \<and> reads_made (replicate 4096 (Inr [65])) [] = 4096"
  using reads_made_bound [of reads "[]"] reads_made_drip [of "[]" 4096 65] by simp

lemma has_crlf_iff: "has_crlf buf \<longleftrightarrow> (\<exists>x y. buf = x @ 13 # 10 # y)"
proof
  show "has_crlf buf \<Longrightarrow> \<exists>x y. buf = x @ 13 # 10 # y"
  proof (induction buf rule: has_crlf.induct)
    case (1 a b bs)
    then show ?case
    proof (cases "a = 13 \<and> b = 10")
      case False
      with 1 obtain x y where "b # bs = x @ 13 # 10 # y" by auto
      then have "a # b # bs = (a # x) @ 13 # 10 # y" by simp
      then show ?thesis by blast
    qed auto
  qed auto
  have "has_crlf (x @ 13 # 10 # y)" for x y
  proof (induction x)
    case (Cons a x)
    then show ?case by (cases "x @ 13 # 10 # y") auto
  qed simp
  then show "\<exists>x y. buf = x @ 13 # 10 # y \<Longrightarrow> has_crlf buf" by blast
qed

lemma read_head_chunks:
  "[] \<notin> set cs \<Longrightarrow> \<exists>out tl_bytes. read_head (map Inr cs) buf = Inr out \<and> buf @ concat cs = out @ tl_bytes \<and>
     (has_crlf out \<or> 4096 \<le> length out \<or> tl_bytes = [])"
proof (induction cs arbitrary: buf)
  case (Cons c cs)
  show ?case
  proof (cases "has_crlf buf \<or> 4096 \<le> length buf")
    case False
    with Cons.IH [of "buf @ c"] Cons.prems show ?thesis by auto
  qed auto
qed simp

text \<open>A prefix that is long enough, or has a CRLF of its own, has the whole first line.\<close>

lemma first_line_read:
  assumes "line @ 13 # 10 # post = out @ tl_bytes" and "10 \<notin> set line" and "length line \<le> 4094"
    and "has_crlf out \<or> 4096 \<le> length out \<or> tl_bytes = []"
  shows "\<exists>post'. out = line @ 13 # 10 # post'"
proof -
  have "length line + 2 \<le> length out"
  proof (rule ccontr)
    assume short: "\<not> ?thesis"
    moreover have "length (line @ 13 # 10 # post) = length out + length tl_bytes"
      using assms(1) by (metis length_append)
    ultimately obtain x y where out: "out = x @ 13 # 10 # y"
      using assms(3,4) has_crlf_iff [of out] by auto
    let ?p = "length x + 1"
    have "(line @ 13 # 10 # post) ! ?p = 10"
      unfolding assms(1) out by (simp add: nth_append)
    moreover have "?p \<le> length line" using short out by simp
    then have "(line @ 13 # 10 # post) ! ?p = (if ?p < length line then line ! ?p else 13)"
      by (auto simp: nth_append)
    ultimately have "?p < length line \<and> line ! ?p = 10" by (simp split: if_splits)
    then show False using assms(2) nth_mem by metis
  qed
  then have "take (length line + 2) (out @ tl_bytes) = take (length line + 2) out" by simp
  then have "take (length line + 2) out = line @ [13, 10]" by (simp add: assms(1) [symmetric])
  then show ?thesis by (metis append.assoc append_Cons append_Nil append_take_drop_id)
qed

lemma first_line_status:
  assumes "10 \<notin> set line"
  shows "status_of_response (line @ 13 # 10 # post) = status_of_line (from_utf8_lossy line)"
proof -
  have "b = 10" if "10 = uint b" for b :: "8 word"
  proof -
    have "(of_int 10 :: 8 word) = b" unfolding that by simp
    then show ?thesis by simp
  qed
  then have "10 \<notin> set (map uint line)" using assms by auto
  then have "NL \<notin> set (lossy (map uint line))" using lossy_ascii_only by force
  then have nl: "NL \<notin> set (lossy (map uint line) @ [CR])" by simp
  have "lossy (map uint line @ 13 # 10 # map uint post) = (lossy (map uint line) @ [CR]) @ NL # lossy (map uint post)"
    by (simp add: lossy_ascii lossy_step_def)
  then show ?thesis
    using split_inclusive_line [OF nl]
    by (simp add: status_of_response_def from_utf8_lossy_def lines_def chop_eol_def butlast_append Let_def)
qed

text \<open>
  C32.  How the network cuts the response into pieces does not matter: with a status line
  of at most 4094 bytes, every sequence of non-empty reads that delivers the response gives
  the status in that line, and nothing after it is looked at.
\<close>

theorem http_chunking_irrelevant:
  assumes "concat chunks = line @ 13 # 10 # post" and "[] \<notin> set chunks"
    and "10 \<notin> set line" and "length line \<le> 4094"
  shows "do_get None (map Inr chunks) = status_of_line (from_utf8_lossy line)"
proof -
  obtain out tl_bytes where out: "read_head (map Inr chunks) [] = Inr out" "concat chunks = out @ tl_bytes"
    "has_crlf out \<or> 4096 \<le> length out \<or> tl_bytes = []"
    using read_head_chunks [OF assms(2), of "[]"] by auto
  obtain post' where "out = line @ 13 # 10 # post'"
    using first_line_read [OF _ assms(3,4) out(3), of post] assms(1) out(2) by auto
  with out(1) first_line_status [OF assms(3)] show ?thesis by (simp add: do_get_def)
qed

theorem http_chunking_irrelevant_witness:
  "do_get None (map Inr [[72, 32], [50, 48], [52, 13], [10, 88], [13, 10]]) = status_of_line (from_utf8_lossy [72, 32, 50, 48, 52]) \<and>
   status_of_line (from_utf8_lossy [72, 32, 50, 48, 52]) = Inr 204"
  using http_chunking_irrelevant [of "[[72, 32], [50, 48], [52, 13], [10, 88], [13, 10]]" "[72, 32, 50, 48, 52]" "[88, 13, 10]"]
  by (simp add: from_utf8_lossy_def lossy_step_def status_of_line_def split_whitespace_def is_whitespace_def
      parse_unsigned_def U16_MAX_def to_digit_def)

text \<open>
  A status line that is cut short is read as it stands: when the peer closes after the
  first digit of 503, the status is 5, which counts as healthy.
\<close>

lemma truncated_status_is_healthy:
  "do_get None [Inr (utf8 (lit ''HTTP/1.1 5''))] = Inr 5 \<and> pr_healthy (http_verdict shown (Inr 5))"
  by (simp add: do_get_def utf8_def utf8_char_def str_simps http_verdict_def status_of_response_def
      from_utf8_lossy_def lossy_step_def status_of_line_def lines_def chop_eol_def split_whitespace_def
      is_whitespace_def parse_unsigned_def U16_MAX_def to_digit_def)

section \<open>The verdict\<close>

definition answers_ok :: "attempt \<Rightarrow> bool" where
  "answers_ok at \<longleftrightarrow> (\<exists>code. do_get (at_write at) (at_reads at) = Inr code \<and> code < 400)"

lemma http_verdict_healthy:
  "pr_healthy (http_verdict shown (do_get (at_write at) (at_reads at))) \<longleftrightarrow> answers_ok at"
  "pr_address (http_verdict shown r) = []"
  by (auto simp: http_verdict_def answers_ok_def split: sum.splits)

lemma http_loop_healthy:
  "pr_healthy (fst (http_loop ne t req timeout i as err)) \<longleftrightarrow>
   (\<exists>k < length as. (reaches t (ne_attempt ne (i + k)) \<and> at_connected (ne_attempt ne (i + k)) < timeout \<and>
        answers_ok (ne_attempt ne (i + k))) \<and>
      (\<forall>j \<le> k. in_time timeout (ne_attempt ne (i + j))) \<and> (\<forall>j < k. \<not> reaches t (ne_attempt ne (i + j))))"
proof (induction as arbitrary: i err)
  case (Cons a as)
  show ?case
    unfolding length_Cons
      scan_first_Suc [where P = "\<lambda>k. reaches t (ne_attempt ne k) \<and> at_connected (ne_attempt ne k) < timeout \<and> answers_ok (ne_attempt ne k)"
        and Q = "\<lambda>k. in_time timeout (ne_attempt ne k)" and R = "\<lambda>k. reaches t (ne_attempt ne k)"]
    using Cons.IH
    by (auto simp: Let_def reaches_def in_time_def remaining_time_iff remaining_time_None http_verdict_healthy
        split: option.splits)
qed simp

lemma http_loop_address: "pr_address (fst (http_loop ne t req timeout i as err)) = []"
  by (induction as arbitrary: i err) (auto simp: Let_def http_verdict_healthy split: option.splits)

lemma http_loop_bound:
  "\<forall>k. 0 \<le> at_elapsed (ne_attempt ne k) \<Longrightarrow>
   connects_bound t timeout (snd (http_loop ne t req timeout i as err))"
proof (induction as arbitrary: i err)
  case (Cons a as)
  note IH = Cons.IH [OF Cons.prems]
  let ?c = "\<lambda>r. NewSocket (is_ipv4 a) # bind_ops t @ [ConnectTo a (rq_connect_port req) r]"
  have one: "connects_bound t timeout (?c r)" if "remaining_time timeout (at_elapsed (ne_attempt ne i)) = Some r" for r
    using that Cons.prems by (intro connects_bound_connect) (auto simp: remaining_time_iff)
  have "connects_bound t timeout (?c r @ ops)"
    if "remaining_time timeout (at_elapsed (ne_attempt ne i)) = Some r" "connects_bound t timeout ops" for r ops
    using that by (intro connects_bound_append one)
  note two = this [OF _ IH] this [OF _ connects_bound_none, of _ "[SetTimeouts m, SendBytes b]" for m b]
  show ?case
    using one two connects_bound_append [OF connects_bound_socket IH]
      connects_bound_append [OF connects_bound_prepare IH]
    by (auto simp: Let_def wf_intros split: option.splits)
qed (simp add: wf_intros)

text \<open>
  C31.  The \<open>http\<close> probe of a plain target: the first address that accepts a connection
  decides, and the probe is healthy exactly when it did so before the deadline, as did the
  attempts before it start, and answered with a status below 400; the connections leave
  through the transport's interface as those of the \<open>tcp\<close> probe do.  A target with
  \<open>https://\<close> is never healthy and never touches the network.
\<close>

theorem http_probe_verdict:
  assumes "http_run ne t timeout = (Inr res, ops)" and "\<forall>k. 0 \<le> at_elapsed (ne_attempt ne k)"
    and "req = plain_request (effective_target t) (p_port (t_probe t)) (p_path (t_probe t))"
  shows "(pr_healthy res \<longleftrightarrow> strip_prefix (lit ''https://'') (effective_target t) = None \<and>
      (\<exists>addresses k. ne_resolve ne (rq_connect_host req) (rq_connect_port req) = Inr addresses \<and>
         k < length addresses \<and> reaches t (ne_attempt ne k) \<and> at_connected (ne_attempt ne k) < timeout \<and>
         answers_ok (ne_attempt ne k) \<and> (\<forall>j \<le> k. in_time timeout (ne_attempt ne j)) \<and>
         (\<forall>j < k. \<not> reaches t (ne_attempt ne j)))) \<and>
    connects_bound t timeout ops \<and> pr_address res = [] \<and>
    (strip_prefix (lit ''https://'') (effective_target t) \<noteq> None \<longrightarrow> ops = [])"
proof (cases "strip_prefix (lit ''https://'') (effective_target t)")
  case (Some rest)
  with assms show ?thesis by (auto simp: http_run_def Let_def wf_intros split: if_splits)
next
  case None
  show ?thesis
  proof (cases "ne_resolve ne (rq_connect_host req) (rq_connect_port req)")
    case (Inl e)
    with None assms show ?thesis by (auto simp: http_run_def Let_def wf_intros split: if_splits)
  next
    case (Inr as)
    show ?thesis
    proof (cases as)
      case Nil
      with None assms Inr show ?thesis by (auto simp: http_run_def Let_def wf_intros split: if_splits)
    next
      case (Cons a as')
      let ?l = "http_loop ne t req timeout 0 as DEADLINE_IN_RESOLUTION"
      have "res = fst ?l" "ops = snd ?l"
        using assms(1,3) None Inr Cons
        by (auto simp: http_run_def Let_def apfst_def map_prod_def split_beta simp del: http_loop.simps split: if_splits)
      then show ?thesis
        using http_loop_healthy [of ne t req timeout 0 as] http_loop_bound [OF assms(2)]
          http_loop_address Inr None by simp
    qed
  qed
qed

definition demo_http_net :: net_env where
  "demo_http_net = demo_net\<lparr>ne_attempt := (\<lambda>i. (ne_attempt demo_net i)\<lparr>at_reads := [Inr [72, 32, 50, 48], Inr [52, 13, 10]]\<rparr>)\<rparr>"

lemma demo_get: "do_get None [Inr [72, 32, 50, 48], Inr [52, 13, 10]] = Inr 204"
  by (simp add: do_get_def status_of_response_def from_utf8_lossy_def lossy_step_def status_of_line_def lines_def
      chop_eol_def split_whitespace_def is_whitespace_def parse_unsigned_def U16_MAX_def to_digit_def)

theorem http_probe_verdict_witness:
  "\<exists>res ops. http_run demo_http_net (demo_transport (lit ''wan'') (lit ''host'') 10) 9 = (Inr res, ops) \<and>
     pr_healthy res \<and> connects_bound (demo_transport (lit ''wan'') (lit ''host'') 10) 9 ops"
proof -
  let ?t = "demo_transport (lit ''wan'') (lit ''host'') 10"
  have t: "effective_target ?t = lit ''host''" "strip_prefix (lit ''https://'') (lit ''host'') = None"
    by (simp_all add: effective_target_def demo_transport_def demo_probe_def strip_prefix_def starts_with_def str_simps)
  have resolve: "ne_resolve demo_http_net h p = Inr [V6 [8193, 3512, 0, 0, 0, 0, 0, 1], V4 [192, 0, 2, 10]]" for h p
    by (simp add: demo_http_net_def demo_net_def)
  obtain res ops where r: "http_run demo_http_net ?t 9 = (Inr res, ops)"
    by (cases "http_loop demo_http_net ?t (plain_request (lit ''host'') (p_port (t_probe ?t)) (p_path (t_probe ?t))) 9 0
        [V6 [8193, 3512, 0, 0, 0, 0, 0, 1], V4 [192, 0, 2, 10]] DEADLINE_IN_RESOLUTION")
      (auto simp: http_run_def t resolve simp del: http_loop.simps)
  have at: "reaches ?t (ne_attempt demo_http_net (Suc 0))" "\<not> reaches ?t (ne_attempt demo_http_net 0)"
    "answers_ok (ne_attempt demo_http_net (Suc 0))" "at_connected (ne_attempt demo_http_net (Suc 0)) = 3"
    by (simp_all add: demo_http_net_def demo_net_def reaches_def demo_transport_def demo_probe_def wants_bind_def
        answers_ok_def demo_get)
  have el: "at_elapsed (ne_attempt demo_http_net k) = int k" for k
    by (simp add: demo_http_net_def demo_net_def)
  then have "pr_healthy res"
    using http_probe_verdict [OF r _ refl] at by (auto simp: resolve t in_time_def intro!: exI [of _ "Suc 0"])
  then show ?thesis using http_probe_verdict [OF r _ refl] r el by auto
qed

end
