(* ===== verification/IcmpProbe.thy ===== *)
theory IcmpProbe
  imports TcpProbe
begin

unbundle bit_operations_syntax

text \<open>
  \<open>src/probe/icmp.rs\<close>: the echo request on the wire with its checksum, the recognition of
  the reply, and the probe over a raw socket given by its answers.  Bytes, the 16-bit
  fields and the 32-bit accumulator of the checksum are words of their width.
\<close>

section \<open>On the wire\<close>

definition ICMP_ECHO_REQUEST :: "8 word" where "ICMP_ECHO_REQUEST = 8"
definition ICMP_ECHO_REPLY :: "8 word" where "ICMP_ECHO_REPLY = 0"
definition ICMP_HEADER_LEN :: nat where "ICMP_HEADER_LEN = 8"

text \<open>\<open>u16::to_be_bytes\<close> and \<open>u16::from_be_bytes\<close>.\<close>

definition to_be16 :: "16 word \<Rightarrow> 8 word list" where
  "to_be16 w = [ucast (drop_bit 8 w), ucast w]"

definition from_be16 :: "8 word \<Rightarrow> 8 word \<Rightarrow> 16 word" where
  "from_be16 hi lo = push_bit 8 (ucast hi) OR ucast lo"

fun sum_words :: "32 word \<Rightarrow> 8 word list \<Rightarrow> 32 word" where
  "sum_words s (a # b # bs) = sum_words (s + ucast (from_be16 a b)) bs"
| "sum_words s [a] = s + push_bit 8 (ucast a)"
| "sum_words s [] = s"

function fold_carry :: "32 word \<Rightarrow> 32 word" where
  "fold_carry s = (if drop_bit 16 s \<noteq> 0 then fold_carry ((s AND 0xFFFF) + drop_bit 16 s) else s)"
  by pat_completeness auto

lemma carry_parts:
  fixes s :: "32 word"
  shows "unat ((s AND 0xFFFF) + drop_bit 16 s) = unat s mod 65536 + unat s div 65536"
    and "drop_bit 16 s = 0 \<longleftrightarrow> unat s < 65536"
proof -
  have mask: "s AND 0xFFFF = take_bit 16 s"
    using take_bit_eq_mask [of 16 s] by (simp add: mask_eq_exp_minus_1)
  have b: "unat s < 2 ^ 32" by (rule order_less_le_trans [OF unsigned_less]) simp
  have l: "unat (take_bit 16 s) = unat s mod 65536"
    by (simp add: take_bit_eq_mod unat_mod_distrib)
  have h: "unat (drop_bit 16 s) = unat s div 65536"
    by (simp add: drop_bit_eq_div unat_div_distrib)
  have "unat s mod 65536 + unat s div 65536 < 2 ^ 32" using b by simp
  then show "unat ((s AND 0xFFFF) + drop_bit 16 s) = unat s mod 65536 + unat s div 65536"
    by (simp add: mask unat_add_lem [THEN iffD1] l h unat_word_ariths)
  show "drop_bit 16 s = 0 \<longleftrightarrow> unat s < 65536"
    using h by (metis div_eq_0_iff unat_0 unat_eq_zero zero_neq_numeral)
qed

termination fold_carry
proof (relation "measure unat")
  fix s :: "32 word"
  assume "drop_bit 16 s \<noteq> 0"
  then have "65536 \<le> unat s" by (simp add: carry_parts(2))
  then have "unat s mod 65536 + unat s div 65536 < unat s"
    using div_mult_mod_eq [of "unat s" 65536] by linarith
  then show "((s AND 0xFFFF) + drop_bit 16 s, s) \<in> measure unat"
    by (simp add: carry_parts(1))
qed simp

declare fold_carry.simps [simp del]

definition internet_checksum :: "8 word list \<Rightarrow> 16 word" where
  "internet_checksum bytes = NOT (ucast (fold_carry (sum_words 0 bytes)))"

definition build_echo_request :: "16 word \<Rightarrow> 16 word \<Rightarrow> 8 word list \<Rightarrow> 8 word list" where
  "build_echo_request ident sq payload =
     (let buf = [ICMP_ECHO_REQUEST, 0, 0, 0] @ to_be16 ident @ to_be16 sq @ payload;
          chk = internet_checksum buf
      in buf[2 := ucast (drop_bit 8 chk), 3 := ucast (chk AND 0xFF)])"

text \<open>The ICMP message behind an IPv4 header whose length is in its first byte.\<close>

definition icmp_message :: "8 word list \<Rightarrow> 8 word list option" where
  "icmp_message bytes =
     (case bytes of
        [] \<Rightarrow> None
      | b # _ \<Rightarrow>
          (let ihl = unat (b AND 0x0F) * 4 in
           if ihl > length bytes then None
           else if length (drop ihl bytes) < ICMP_HEADER_LEN then None
           else Some (drop ihl bytes)))"

definition is_our_echo_reply :: "8 word list \<Rightarrow> 16 word \<Rightarrow> 16 word \<Rightarrow> bool" where
  "is_our_echo_reply bytes ident sq =
     (case icmp_message bytes of
        None \<Rightarrow> False
      | Some icmp \<Rightarrow>
          icmp ! 0 = ICMP_ECHO_REPLY \<and> icmp ! 1 = 0 \<and>
          from_be16 (icmp ! 4) (icmp ! 5) = ident \<and> from_be16 (icmp ! 6) (icmp ! 7) = sq)"

text \<open>
  The identity of a probe: \<open>nanos\<close> of the wall clock and the process id, and the process
  wide sequence counter, which wraps.
\<close>

definition next_echo_identity :: "nat \<Rightarrow> nat \<Rightarrow> 16 word \<Rightarrow> (16 word \<times> 16 word) \<times> 16 word" where
  "next_echo_identity nanos pid counter =
     ((word_of_nat (nanos mod 65536) XOR word_of_nat pid, counter), counter + 1)"

section \<open>The probe\<close>

text \<open>\<open>None\<close> when less than a microsecond is left; times are in nanoseconds.\<close>

definition remaining_budget :: "int \<Rightarrow> int \<Rightarrow> int option" where
  "remaining_budget budget elapsed =
     (if elapsed > budget then None
      else if budget - elapsed < 1000 then None else Some (budget - elapsed))"

text \<open>\<open>str::parse::<Ipv4Addr>\<close> gives up on more than 15 bytes.\<close>

definition parse_ipv4 :: "rstr \<Rightarrow> int list option" where
  "parse_ipv4 s =
     (if length (utf8 s) > 15 then None
      else (case read_ipv4_addr s of Some (os, []) \<Rightarrow> Some os | _ \<Rightarrow> None))"

definition resolve_ipv4 :: "(rstr \<Rightarrow> int \<Rightarrow> rstr + ip_addr list) \<Rightarrow> rstr \<Rightarrow> rstr + int list" where
  "resolve_ipv4 resolve target =
     (case parse_ipv4 target of
        Some a \<Rightarrow> Inr a
      | None \<Rightarrow>
          (case resolve target 0 of
             Inl e \<Rightarrow> Inl e
           | Inr addresses \<Rightarrow>
               (case [os. V4 os \<leftarrow> addresses] of
                  os # _ \<Rightarrow> Inr os
                | [] \<Rightarrow> Inl (lit ''no IPv4 address found''))))"

text \<open>
  One round of the receiving loop: the time elapsed at its start, the error of
  \<open>set_read_timeout\<close>, and what \<open>recv_from\<close> gives: an error, or a datagram with the IPv4
  address of its sender.
\<close>

record icmp_round =
  ir_elapsed :: int
  ir_set :: "rstr option"
  ir_recv :: "rstr + 8 word list \<times> int list option"

fun await_reply :: "int \<Rightarrow> int list \<Rightarrow> 16 word \<Rightarrow> 16 word \<Rightarrow> icmp_round list \<Rightarrow> probe_result option" where
  "await_reply timeout dst ident sq [] = None"
| "await_reply timeout dst ident sq (r # rs) =
     (case remaining_budget timeout (ir_elapsed r) of
        None \<Rightarrow> Some (unhealthy (lit ''no reply within '' @ show_int (timeout div 1000000) @ lit ''ms''))
      | Some remaining \<Rightarrow>
        (case ir_set r of
           Some e \<Rightarrow> Some (unhealthy (lit ''set read timeout: '' @ e))
         | None \<Rightarrow>
           (case ir_recv r of
              Inl e \<Rightarrow> Some (unhealthy (lit ''no reply: '' @ e))
            | Inr (bytes, sender) \<Rightarrow>
                if sender \<noteq> Some dst then await_reply timeout dst ident sq rs
                else if is_our_echo_reply bytes ident sq then Some (healthy (lit ''icmp echo reply''))
                else await_reply timeout dst ident sq rs)))"

record icmp_env =
  ie_resolve :: "rstr \<Rightarrow> int \<Rightarrow> rstr + ip_addr list"
  ie_socket :: "rstr option"
  ie_bind :: "rstr option"
  ie_nanos :: nat
  ie_pid :: nat
  ie_send :: "rstr option"
  ie_rounds :: "icmp_round list"

datatype icmp_op = OpenRaw | BindRaw rstr | SendTo "int list" "8 word list"

text \<open>
  The result with the sequence counter after the probe and the trace; \<open>None\<close> when the
  rounds listed are not enough for the loop to end.
\<close>

definition icmp_run ::
  "icmp_env \<Rightarrow> transport \<Rightarrow> int \<Rightarrow> 16 word \<Rightarrow> ((rstr + probe_result) \<times> 16 word \<times> icmp_op list) option" where
  "icmp_run ie t timeout counter =
     (let target = effective_target t in
      if target = [] then Some (Inl (lit ''icmp probe: no target/address configured''), counter, [])
      else (case resolve_ipv4 (ie_resolve ie) target of
              Inl e \<Rightarrow> Some (Inr (unhealthy (lit ''resolve: '' @ e)), counter, [])
            | Inr dst \<Rightarrow>
              (case ie_socket ie of
                 Some e \<Rightarrow> Some (Inr (unhealthy (lit ''listen (need CAP_NET_RAW): '' @ e)), counter, [OpenRaw])
               | None \<Rightarrow>
                 (let ops = OpenRaw # (if wants_bind t then [BindRaw (t_interface t)] else []) in
                  case (if wants_bind t then ie_bind ie else None) of
                    Some e \<Rightarrow>
                      Some (Inr (unhealthy (lit ''bind to '' @ t_interface t @ lit '': '' @ e)), counter, ops)
                  | None \<Rightarrow>
                    (case next_echo_identity (ie_nanos ie) (ie_pid ie) counter of
                       ((ident, sq), counter') \<Rightarrow>
                         (let ops' = ops @ [SendTo dst (build_echo_request ident sq (utf8 (lit ''nixnet'')))] in
                          case ie_send ie of
                            Some e \<Rightarrow> Some (Inr (unhealthy (lit ''write: '' @ e)), counter', ops')
                          | None \<Rightarrow>
                              map_option (\<lambda>res. (Inr res, counter', ops'))
                                (await_reply timeout dst ident sq (ie_rounds ie))))))))"

section \<open>The checksum\<close>

text \<open>The sum of the 16-bit words of a message, without a width.\<close>

fun wsum :: "8 word list \<Rightarrow> nat" where
  "wsum (a # b # bs) = unat a * 256 + unat b + wsum bs"
| "wsum [a] = unat a * 256"
| "wsum [] = 0"

text \<open>One's complement reduction: a positive sum modulo 65535, from 1 to 65535.\<close>

definition reduced :: "nat \<Rightarrow> nat" where
  "reduced n = (if n = 0 then 0 else (n - 1) mod 65535 + 1)"

lemma byte_bound: "unat (b :: 8 word) < 256"
  by (rule order_less_le_trans [OF unsigned_less]) simp

lemma or_shifted:
  fixes m n :: nat
  assumes "n < 256"
  shows "push_bit 8 m OR n = m * 256 + n"
proof -
  have n: "take_bit 8 n = n" using assms by (simp add: take_bit_eq_mod)
  have "push_bit 8 m AND take_bit 8 n = 0"
    by (rule bit_eqI) (simp add: bit_and_iff bit_push_bit_iff bit_take_bit_iff)
  then show ?thesis by (simp add: n disjunctive_add_eq_or [symmetric] push_bit_eq_mult)
qed

lemma unat_from_be16: "unat (from_be16 a b) = unat a * 256 + unat b"
proof -
  have u: "unat (ucast c :: 16 word) = unat c" for c :: "8 word"
    using byte_bound [of c] by (simp add: unsigned_ucast_eq take_bit_eq_mod)
  then have "unat (push_bit 8 (ucast a :: 16 word)) = take_bit 16 (push_bit 8 (unat a))"
    by (simp only: unsigned_push_bit_eq u) simp
  also have "\<dots> = push_bit 8 (unat a)"
    using byte_bound [of a] by (simp add: take_bit_eq_mod push_bit_eq_mult)
  finally have "unat (push_bit 8 (ucast a :: 16 word)) = push_bit 8 (unat a)" .
  moreover note u [of b]
  ultimately show ?thesis by (simp add: from_be16_def unsigned_or_eq or_shifted byte_bound)
qed

lemma unat_sum_words:
  "unat s + wsum bs < 2 ^ 32 \<Longrightarrow> unat (sum_words s bs) = unat s + wsum bs"
proof (induction s bs rule: sum_words.induct)
  case (1 s a b bs)
  have w: "unat (ucast (from_be16 a b) :: 32 word) = unat a * 256 + unat b"
    using byte_bound [of a] byte_bound [of b]
    by (simp add: unsigned_ucast_eq take_bit_eq_mod unat_from_be16)
  then have "unat (s + ucast (from_be16 a b)) = unat s + (unat a * 256 + unat b)"
    using "1.prems" by (subst unat_add_lem [THEN iffD1]) simp_all
  with 1 show ?case by simp
next
  case (2 s a)
  have "unat (push_bit 8 (ucast a :: 32 word)) = take_bit 32 (push_bit 8 (unat (ucast a :: 32 word)))"
    by (simp only: unsigned_push_bit_eq) simp
  also have "\<dots> = unat a * 256"
    using byte_bound [of a] by (simp add: unsigned_ucast_eq take_bit_eq_mod push_bit_eq_mult)
  finally show ?case using "2.prems" by (simp add: unat_add_lem [THEN iffD1])
qed simp

lemma reduced_fold: "65536 \<le> n \<Longrightarrow> reduced (n mod 65536 + n div 65536) = reduced n"
proof -
  assume n: "65536 \<le> n"
  define q r where "q = n div 65536" and "r = n mod 65536"
  have nqr: "n = 65536 * q + r" by (simp add: q_def r_def)
  have q: "0 < q" using n by (simp add: q_def div_greater_zero_iff)
  have "n - 1 = (q + r - 1) + 65535 * q" using nqr q by simp
  then have "(n - 1) mod 65535 = (q + r - 1) mod 65535" by (simp only: mod_mult_self2)
  then show ?thesis using n q by (simp add: reduced_def q_def [symmetric] r_def [symmetric] add.commute)
qed

lemma unat_fold_carry: "unat (fold_carry s) = reduced (unat s)"
proof (induction s rule: fold_carry.induct)
  case (1 s)
  show ?case
  proof (cases "drop_bit 16 s = 0")
    case True
    then show ?thesis by (subst fold_carry.simps) (simp add: carry_parts(2) reduced_def)
  next
    case False
    then have "65536 \<le> unat s" by (simp add: carry_parts(2))
    then show ?thesis
      using 1 [OF False] reduced_fold [of "unat s"] False
      by (subst fold_carry.simps) (simp add: carry_parts(1))
  qed
qed

lemma reduced_bound: "reduced n \<le> 65535"
  using mod_less_divisor [of 65535 "n - 1"] by (auto simp: reduced_def simp del: mod_less_divisor)

lemma unat_not16: "unat (NOT w :: 16 word) = 65535 - unat w"
proof -
  have "w + NOT w = - 1" by (simp add: word_add_not)
  then have "unat (w + NOT w) = 65535"
    by (simp add: unsigned_minus_1_eq_mask mask_eq_exp_minus_1)
  moreover have "unat (w + NOT w) = (unat w + unat (NOT w)) mod 65536"
    by (simp only: unat_word_ariths) simp
  ultimately have "(unat w + unat (NOT w)) mod 65536 = 65535" by simp
  moreover have "unat w < 65536" "unat (NOT w) < 65536"
    by (rule order_less_le_trans [OF unsigned_less], simp)+
  ultimately show ?thesis by (cases "unat w + unat (NOT w) < 65536") (auto simp: mod_if split: if_splits)
qed

lemma unat_checksum: "wsum bs < 2 ^ 32 \<Longrightarrow> unat (internet_checksum bs) = 65535 - reduced (wsum bs)"
proof -
  assume "wsum bs < 2 ^ 32"
  then have "unat (fold_carry (sum_words 0 bs)) = reduced (wsum bs)"
    using unat_sum_words [of 0 bs] by (simp add: unat_fold_carry)
  moreover from this have "unat (ucast (fold_carry (sum_words 0 bs)) :: 16 word) = reduced (wsum bs)"
    using reduced_bound [of "wsum bs"] by (simp add: unsigned_ucast_eq take_bit_eq_mod)
  ultimately show ?thesis by (simp add: internet_checksum_def unat_not16)
qed

lemma wsum_bound: "wsum bs \<le> 65535 * ((length bs + 1) div 2)"
proof (induction bs rule: wsum.induct)
  case (1 a b bs)
  then show ?case using byte_bound [of a] byte_bound [of b] by simp
next
  case (2 a)
  then show ?case using byte_bound [of a] by simp
qed simp

lemma reduced_complement:
  assumes "0 < n"
  shows "reduced (n + (65535 - reduced n)) = 65535"
proof -
  define q m where "q = (n - 1) div 65535" and "m = (n - 1) mod 65535"
  have "n - 1 = 65535 * q + m" "m < 65535" "reduced n = m + 1"
    using assms by (simp_all add: q_def m_def reduced_def)
  then have "n + (65535 - reduced n) = 65535 * q + 65535" using assms by linarith
  moreover have "65535 * k + 65535 - 1 = 65534 + 65535 * k" for k :: nat by simp
  then have "(65535 * k + 65535 - 1) mod 65535 = 65534" for k :: nat by (simp only: mod_mult_self2) simp
  ultimately show ?thesis by (simp add: reduced_def)
qed

section \<open>The packet\<close>

lemma two_digits:
  fixes x y z :: nat
  assumes "y < 256"
  shows "x * 256 + y = z \<longleftrightarrow> x = z div 256 \<and> y = z mod 256"
proof -
  have "(x * 256 + y) div 256 = x" "(x * 256 + y) mod 256 = y" using assms by simp_all
  then show ?thesis using div_mult_mod_eq [of z 256] by metis
qed

lemma be16_round_trip: "from_be16 a b = w \<longleftrightarrow> [a, b] = to_be16 w"
proof -
  have hi: "unat (ucast (drop_bit 8 w) :: 8 word) = unat w div 256"
  proof -
    have "unat (drop_bit 8 w) = unat w div 256" by (simp add: drop_bit_eq_div unat_div_distrib)
    moreover have "unat w < 65536" by (rule order_less_le_trans [OF unsigned_less]) simp
    ultimately show ?thesis by (simp add: unsigned_ucast_eq take_bit_eq_mod)
  qed
  have lo: "unat (ucast w :: 8 word) = unat w mod 256"
    by (simp add: unsigned_ucast_eq take_bit_eq_mod)
  have "from_be16 a b = w \<longleftrightarrow> unat a * 256 + unat b = unat w"
    by (metis unat_from_be16 word_unat_eq_iff)
  also have "\<dots> \<longleftrightarrow> unat a = unat w div 256 \<and> unat b = unat w mod 256"
    by (rule two_digits [OF byte_bound])
  also have "\<dots> \<longleftrightarrow> [a, b] = to_be16 w"
    by (simp add: to_be16_def word_unat_eq_iff hi lo)
  finally show ?thesis .
qed

lemma wsum_be16: "wsum (to_be16 w @ bs) = unat w + wsum bs"
  using be16_round_trip [of "ucast (drop_bit 8 w)" "ucast w" w] unat_from_be16 [of "ucast (drop_bit 8 w)" "ucast w"]
  by (simp add: to_be16_def)

lemma low_byte: "(ucast (chk AND 0xFF) :: 8 word) = ucast (chk :: 16 word)"
proof -
  have "chk AND 0xFF = take_bit 8 chk"
    using take_bit_eq_mask [of 8 chk] by (simp add: mask_eq_exp_minus_1)
  then show ?thesis by (simp only:) (rule bit_word_eqI, simp add: bit_simps)
qed

lemma echo_request_bytes:
  "\<exists>chk. build_echo_request ident sq payload =
     [8, 0] @ to_be16 chk @ to_be16 ident @ to_be16 sq @ payload \<and>
     chk = internet_checksum ([8, 0, 0, 0] @ to_be16 ident @ to_be16 sq @ payload)"
  by (simp add: build_echo_request_def Let_def to_be16_def ICMP_ECHO_REQUEST_def low_byte numeral_2_eq_2 numeral_3_eq_3)

text \<open>
  C28.  The echo request is a well-formed ICMP message: it checks out under the same
  checksum, for every identity and every payload that fits an IPv4 datagram, and carries
  the identity in its identifier and sequence fields.
\<close>

theorem echo_request_checksum:
  assumes "length payload \<le> 65507"
  shows "internet_checksum (build_echo_request ident sq payload) = 0 \<and>
    length (build_echo_request ident sq payload) = 8 + length payload \<and>
    take 2 (build_echo_request ident sq payload) = [ICMP_ECHO_REQUEST, 0] \<and>
    drop 4 (build_echo_request ident sq payload) = to_be16 ident @ to_be16 sq @ payload"
proof -
  let ?rest = "to_be16 ident @ to_be16 sq @ payload"
  obtain chk where p: "build_echo_request ident sq payload = [8, 0] @ to_be16 chk @ ?rest"
    "chk = internet_checksum ([8, 0, 0, 0] @ ?rest)"
    using echo_request_bytes by blast
  have len: "length ?rest = 4 + length payload" by (simp add: to_be16_def)
  let ?n = "wsum ([8, 0, 0, 0] @ ?rest)"
  have n: "?n = 2048 + wsum ?rest" by simp
  have b: "?n \<le> 65535 * ((length ([8, 0, 0, 0] @ ?rest :: 8 word list) + 1) div 2)"
    by (rule wsum_bound)
  have "(length ([8, 0, 0, 0] @ ?rest :: 8 word list) + 1) div 2 \<le> 32758" using assms len by simp
  with b have small: "?n \<le> 65535 * 32758" by linarith
  then have "unat chk = 65535 - reduced ?n" using unat_checksum p(2) by simp
  moreover have "wsum ([8, 0] @ to_be16 chk @ ?rest) = 2048 + (unat chk + wsum ?rest)"
    using wsum_be16 [of chk ?rest] by simp
  ultimately have w: "wsum (build_echo_request ident sq payload) = ?n + (65535 - reduced ?n)"
    unfolding p(1) n by simp
  have "wsum (build_echo_request ident sq payload) < 2 ^ 32" using w small by simp
  from unat_checksum [OF this] have "unat (internet_checksum (build_echo_request ident sq payload)) = 0"
    using w reduced_complement [of ?n] n by simp
  then have "internet_checksum (build_echo_request ident sq payload) = 0" by (simp add: unat_eq_0)
  with p(1) len show ?thesis by (simp add: ICMP_ECHO_REQUEST_def to_be16_def)
qed

theorem echo_request_checksum_witness:
  "internet_checksum (build_echo_request 0x1234 1 (utf8 (lit ''nixnet''))) = 0"
  using echo_request_checksum [of "utf8 (lit ''nixnet'')" "0x1234" 1]
  by (simp add: utf8_def utf8_char_def str_simps)

section \<open>The reply\<close>

text \<open>A datagram as a raw socket delivers it: a header of the length it states, a message.\<close>

definition datagram :: "8 word list \<Rightarrow> 8 word list \<Rightarrow> bool" where
  "datagram header message \<longleftrightarrow>
     header \<noteq> [] \<and> length header = unat (hd header AND 0x0F) * 4 \<and> ICMP_HEADER_LEN \<le> length message"

lemma icmp_message_datagram: "datagram header message \<Longrightarrow> icmp_message (header @ message) = Some message"
proof -
  assume d: "datagram header message"
  then obtain b bs where h: "header = b # bs" by (cases header) (simp_all add: datagram_def)
  then have len: "unat (b AND 0x0F) * 4 = length header" using d by (simp add: datagram_def)
  have "drop (length header) (header @ message) = message" by simp
  moreover have "icmp_message (header @ message) =
      (if length header > length (header @ message) then None
       else if length (drop (length header) (header @ message)) < ICMP_HEADER_LEN then None
       else Some (drop (length header) (header @ message)))"
    using len by (simp add: icmp_message_def h Let_def)
  ultimately show ?thesis using d by (simp add: datagram_def)
qed

lemma eight_bytes:
  "8 \<le> length m \<Longrightarrow> \<exists>a b c d e f g h r. m = [a, b, c, d, e, f, g, h] @ r"
  by (simp add: numeral_eq_Suc Suc_le_length_iff) metis

lemma reply_iff:
  assumes "datagram header message"
  shows "is_our_echo_reply (header @ message) ident sq \<longleftrightarrow>
    (\<exists>c1 c2 payload. message = [ICMP_ECHO_REPLY, 0, c1, c2] @ to_be16 ident @ to_be16 sq @ payload)"
proof -
  obtain a b c d e f g h r where m: "message = [a, b, c, d, e, f, g, h] @ r"
    using eight_bytes [of message] assms by (auto simp: datagram_def ICMP_HEADER_LEN_def)
  have "is_our_echo_reply (header @ message) ident sq \<longleftrightarrow>
      message ! 0 = ICMP_ECHO_REPLY \<and> message ! 1 = 0 \<and>
      from_be16 (message ! 4) (message ! 5) = ident \<and> from_be16 (message ! 6) (message ! 7) = sq"
    by (simp add: is_our_echo_reply_def icmp_message_datagram [OF assms])
  also have "\<dots> \<longleftrightarrow>
      a = ICMP_ECHO_REPLY \<and> b = 0 \<and> [e, f] = to_be16 ident \<and> [g, h] = to_be16 sq"
    by (simp add: be16_round_trip [symmetric] m)
  also have "\<dots> \<longleftrightarrow> (\<exists>c1 c2 payload. message = [ICMP_ECHO_REPLY, 0, c1, c2] @ to_be16 ident @ to_be16 sq @ payload)"
    by (auto simp: m to_be16_def)
  finally show ?thesis .
qed

text \<open>
  What counts as the answer: of the datagrams that a raw socket delivers, exactly the
  echo replies that carry the identifier and the sequence number of the request; another
  type or code, another pinger's identifier and the request itself do not.
\<close>

lemma echo_reply_recognised:
  assumes "datagram header message"
  shows "(is_our_echo_reply (header @ message) ident sq \<longleftrightarrow>
      (\<exists>c1 c2 payload. message = [ICMP_ECHO_REPLY, 0, c1, c2] @ to_be16 ident @ to_be16 sq @ payload)) \<and>
    (message = build_echo_request ident sq payload \<longrightarrow> \<not> is_our_echo_reply (header @ message) ident' sq')"
  using reply_iff [OF assms] echo_request_bytes [of ident sq payload] by (auto simp: ICMP_ECHO_REPLY_def)

theorem echo_reply_recognised_witness:
  "is_our_echo_reply ((0x45 # replicate 19 0) @ [0, 0, 9, 9] @ to_be16 7 @ to_be16 1 @ [1, 2]) 7 1"
proof -
  have "datagram (0x45 # replicate 19 0) ([0, 0, 9, 9] @ to_be16 7 @ to_be16 1 @ [1, 2])"
    by (simp add: datagram_def ICMP_HEADER_LEN_def to_be16_def)
  from echo_reply_recognised [OF this, of 7 1] show ?thesis by (auto simp: ICMP_ECHO_REPLY_def)
qed

text \<open>The counter after a number of probes, whatever the clock and the process id were.\<close>

fun mint :: "(nat \<times> nat) list \<Rightarrow> 16 word \<Rightarrow> (16 word \<times> 16 word) list" where
  "mint [] counter = []"
| "mint ((nanos, pid) # rest) counter =
     (case next_echo_identity nanos pid counter of (p, counter') \<Rightarrow> p # mint rest counter')"

lemma length_mint [simp]: "length (mint ps c) = length ps"
  by (induction ps c rule: mint.induct) (simp_all add: next_echo_identity_def)

lemma mint_sequence: "k < length ps \<Longrightarrow> snd (mint ps c ! k) = c + of_nat k"
proof (induction ps c arbitrary: k rule: mint.induct)
  case (2 nanos pid rest c)
  then show ?case by (cases k) (simp_all add: next_echo_identity_def add.assoc)
qed simp

text \<open>
  C27.  Probes of one process never take each other's replies: of any 65536 consecutive
  probes, on whatever threads and with whatever identifiers, no datagram is the answer to
  two of them.
\<close>

theorem echo_replies_not_shared:
  assumes "i < j" and "j < length ps" and "j - i < 65536"
    and "is_our_echo_reply d (fst (mint ps c ! i)) (snd (mint ps c ! i))"
  shows "\<not> is_our_echo_reply d (fst (mint ps c ! j)) (snd (mint ps c ! j))"
proof
  assume "is_our_echo_reply d (fst (mint ps c ! j)) (snd (mint ps c ! j))"
  then have "snd (mint ps c ! i) = snd (mint ps c ! j)"
    using assms(4) by (auto simp: is_our_echo_reply_def split: option.splits)
  then have "(of_nat i :: 16 word) = of_nat j"
    using assms(1,2) by (simp add: mint_sequence)
  then have "(of_nat j - of_nat i :: 16 word) = 0" by simp
  then have "(of_nat (j - i) :: 16 word) = 0" using assms(1) by (simp add: of_nat_diff)
  then have "65536 dvd j - i" by (simp add: word_of_nat_eq_0_iff)
  then show False using assms(1,3) by (auto dest: dvd_imp_le)
qed

theorem echo_replies_not_shared_witness:
  "\<not> is_our_echo_reply ((0x45 # replicate 19 0) @ [0, 0, 9, 9] @ to_be16 7 @ to_be16 65535)
     (fst (mint [(6, 1), (9, 1)] 65535 ! 1)) (snd (mint [(6, 1), (9, 1)] 65535 ! 1))"
proof -
  have d: "datagram (0x45 # replicate 19 0) ([0, 0, 9, 9] @ to_be16 7 @ to_be16 65535 @ [])"
    by (simp add: datagram_def ICMP_HEADER_LEN_def to_be16_def)
  have "mint [(6, 1), (9, 1)] 65535 ! 0 = (7, 65535)" by (simp add: next_echo_identity_def)
  moreover have "is_our_echo_reply ((0x45 # replicate 19 0) @ [0, 0, 9, 9] @ to_be16 7 @ to_be16 65535 @ []) 7 65535"
    unfolding reply_iff [OF d] by (auto simp: ICMP_ECHO_REPLY_def)
  ultimately have "is_our_echo_reply ((0x45 # replicate 19 0) @ [0, 0, 9, 9] @ to_be16 7 @ to_be16 65535)
      (fst (mint [(6, 1), (9, 1)] 65535 ! 0)) (snd (mint [(6, 1), (9, 1)] 65535 ! 0))" by simp
  from echo_replies_not_shared [OF _ _ _ this, of 1] show ?thesis by simp
qed

section \<open>The verdict\<close>

definition round_open :: "int \<Rightarrow> icmp_round \<Rightarrow> bool" where
  "round_open timeout r \<longleftrightarrow> remaining_budget timeout (ir_elapsed r) \<noteq> None \<and> ir_set r = None"

definition round_answers :: "int list \<Rightarrow> 16 word \<Rightarrow> 16 word \<Rightarrow> icmp_round \<Rightarrow> bool" where
  "round_answers dst ident sq r \<longleftrightarrow>
     (case ir_recv r of Inl _ \<Rightarrow> False
      | Inr (bytes, sender) \<Rightarrow> sender = Some dst \<and> is_our_echo_reply bytes ident sq)"

definition round_fails :: "icmp_round \<Rightarrow> bool" where
  "round_fails r \<longleftrightarrow> (case ir_recv r of Inl _ \<Rightarrow> True | Inr _ \<Rightarrow> False)"

definition answered :: "int \<Rightarrow> int list \<Rightarrow> 16 word \<Rightarrow> 16 word \<Rightarrow> icmp_round list \<Rightarrow> bool" where
  "answered timeout dst ident sq rs \<longleftrightarrow>
     (\<exists>k < length rs. round_answers dst ident sq (rs ! k) \<and> (\<forall>j \<le> k. round_open timeout (rs ! j)) \<and>
        (\<forall>j < k. \<not> (round_answers dst ident sq (rs ! j) \<or> round_fails (rs ! j))))"

lemma answered_Cons:
  "answered timeout dst ident sq (r # rs) \<longleftrightarrow> round_open timeout r \<and>
     (round_answers dst ident sq r \<or>
      \<not> (round_answers dst ident sq r \<or> round_fails r) \<and> answered timeout dst ident sq rs)"
  unfolding answered_def length_Cons
  using scan_first_Suc [of "length rs" "\<lambda>k. round_answers dst ident sq ((r # rs) ! k)" 0
      "\<lambda>k. round_open timeout ((r # rs) ! k)" "\<lambda>k. round_answers dst ident sq ((r # rs) ! k) \<or> round_fails ((r # rs) ! k)"]
  by simp

lemma await_reply_verdict:
  "await_reply timeout dst ident sq rs = Some res \<Longrightarrow>
   (pr_healthy res \<longleftrightarrow> answered timeout dst ident sq rs) \<and> pr_address res = []"
proof (induction rs)
  case (Cons r rs)
  show ?case
    using Cons
    by (auto simp: answered_Cons round_open_def round_answers_def round_fails_def
        split: option.splits sum.splits prod.splits if_splits)
qed simp

lemma await_reply_returns:
  "\<exists>r \<in> set rs. remaining_budget timeout (ir_elapsed r) = None \<Longrightarrow> await_reply timeout dst ident sq rs \<noteq> None"
  by (induction rs) (auto split: option.splits sum.splits)

text \<open>
  C26.  The \<open>icmp\<close> probe: it is healthy exactly when its request was sent, bound to the
  interface if the transport asks for it, and a round of the loop received its own reply
  from the address it was sent to while time was left, no receive having failed before; and
  a flood of other datagrams cannot hold it: the first round that starts with less than a
  microsecond left ends it.
\<close>

theorem icmp_probe_verdict:
  assumes "resolve_ipv4 (ie_resolve ie) (effective_target t) = Inr dst" and "effective_target t \<noteq> []"
    and "next_echo_identity (ie_nanos ie) (ie_pid ie) counter = ((ident, sq), counter')"
  shows "(icmp_run ie t timeout counter = Some (Inr res, c, ops) \<longrightarrow>
      (pr_healthy res \<longleftrightarrow> ie_socket ie = None \<and> (wants_bind t \<longrightarrow> ie_bind ie = None) \<and> ie_send ie = None \<and>
         answered timeout dst ident sq (ie_rounds ie)) \<and> pr_address res = [] \<and>
      (pr_healthy res \<longrightarrow> c = counter + 1 \<and> ops = OpenRaw # (if wants_bind t then [BindRaw (t_interface t)] else []) @
         [SendTo dst (build_echo_request ident sq (utf8 (lit ''nixnet'')))])) \<and>
    ((\<exists>r \<in> set (ie_rounds ie). remaining_budget timeout (ir_elapsed r) = None) \<longrightarrow>
      icmp_run ie t timeout counter \<noteq> None)"
proof -
  have c: "counter' = counter + 1" using assms(3) by (auto simp: next_echo_identity_def)
  show ?thesis
    using assms c await_reply_verdict [of timeout dst ident sq "ie_rounds ie"]
      await_reply_returns [of "ie_rounds ie" timeout dst ident sq]
    by (auto simp: icmp_run_def Let_def split: option.splits if_splits)
qed

definition demo_icmp :: icmp_env where
  "demo_icmp = \<lparr>ie_resolve = (\<lambda>h p. Inr []), ie_socket = None, ie_bind = None, ie_nanos = 6, ie_pid = 1,
     ie_send = None,
     ie_rounds = [\<lparr>ir_elapsed = 0, ir_set = None,
       ir_recv = Inr ((0x45 # replicate 19 0) @ [0, 0, 9, 9] @ to_be16 7 @ to_be16 3, Some [192, 0, 2, 10])\<rparr>]\<rparr>"

theorem icmp_probe_verdict_witness:
  "\<exists>res ops. icmp_run demo_icmp (demo_transport (lit ''wan'') (lit ''192.0.2.10'') 10) 9000 3 = Some (Inr res, 4, ops) \<and>
     pr_healthy res"
proof -
  let ?t = "demo_transport (lit ''wan'') (lit ''192.0.2.10'') 10"
  have t: "effective_target ?t = lit ''192.0.2.10''" "\<not> wants_bind ?t"
    by (simp_all add: effective_target_def demo_transport_def demo_probe_def wants_bind_def)
  have p: "parse_ipv4 (lit ''192.0.2.10'') = Some [192, 0, 2, 10]"
    by (simp add: parse_ipv4_def utf8_def utf8_char_def read_ipv4_addr_def read_separator_def read_number_def
        str_simps to_digit_def Let_def)
  then have r: "resolve_ipv4 (ie_resolve demo_icmp) (effective_target ?t) = Inr [192, 0, 2, 10]"
    by (simp add: resolve_ipv4_def t)
  have i: "next_echo_identity (ie_nanos demo_icmp) (ie_pid demo_icmp) 3 = ((7, 3), 4)"
    by (simp add: next_echo_identity_def demo_icmp_def)
  have d: "datagram (0x45 # replicate 19 0) ([0, 0, 9, 9] @ to_be16 7 @ to_be16 3 @ [])"
    by (simp add: datagram_def ICMP_HEADER_LEN_def to_be16_def)
  have ours: "is_our_echo_reply ((0x45 # replicate 19 0) @ [0, 0, 9, 9] @ to_be16 7 @ to_be16 3 @ []) 7 3"
    unfolding reply_iff [OF d] by (auto simp: ICMP_ECHO_REPLY_def)
  then have a: "answered 9000 [192, 0, 2, 10] 7 3 (ie_rounds demo_icmp)"
    by (simp add: demo_icmp_def answered_Cons round_open_def remaining_budget_def round_answers_def)
  have "await_reply 9000 [192, 0, 2, 10] 7 3 (ie_rounds demo_icmp) = Some (healthy (lit ''icmp echo reply''))"
    using ours by (simp add: demo_icmp_def remaining_budget_def)
  moreover have "ie_socket demo_icmp = None" "ie_bind demo_icmp = None" "ie_send demo_icmp = None"
    by (simp_all add: demo_icmp_def)
  ultimately have "\<exists>res c ops. icmp_run demo_icmp ?t 9000 3 = Some (Inr res, c, ops)"
    using r i unfolding t(1) by (simp add: icmp_run_def t Let_def)
  then obtain res c ops where run: "icmp_run demo_icmp ?t 9000 3 = Some (Inr res, c, ops)" by blast
  have "effective_target ?t \<noteq> []" by (simp add: t)
  from icmp_probe_verdict [OF r this i, of 9000 res c ops] run a t show ?thesis
    by (auto simp: demo_icmp_def)
qed

end
