(* ===== verification/ProbeRun.thy ===== *)
theory ProbeRun
  imports ExecProbe HttpProbe IcmpProbe Engine
begin

text \<open>
  \<open>probe::run\<close> of \<open>src/probe/mod.rs\<close>: the dispatch on the method of a transport, over the
  environments of the four probers.
\<close>

section \<open>Definitions\<close>

record probe_env =
  en_tcp :: net_env
  en_http :: net_env
  en_icmp :: icmp_env
  en_exec :: exec_env

text \<open>\<open>Duration::from_millis(timeout_ms.max(0) as u64)\<close>, in nanoseconds.\<close>

definition probe_timeout :: "transport \<Rightarrow> int" where
  "probe_timeout t = max 0 (p_timeout_ms (t_probe t)) * 1000000"

text \<open>The result with the ICMP sequence counter; \<open>None\<close> when the environment ends too early.\<close>

definition probe_run :: "probe_env \<Rightarrow> transport \<Rightarrow> 16 word \<Rightarrow> ((rstr + probe_result) \<times> 16 word) option" where
  "probe_run env t counter =
     (let timeout = probe_timeout t; m = p_method (t_probe t) in
      if m = lit ''tcp'' then Some (fst (tcp_run (en_tcp env) t timeout), counter)
      else if m = lit ''http'' then Some (fst (http_run (en_http env) t timeout), counter)
      else if m = lit ''icmp'' then
        map_option (\<lambda>(r, c, ops). (r, c)) (icmp_run (en_icmp env) t timeout counter)
      else if m = lit ''exec'' then
        map_option (\<lambda>(r, ops). (r, counter)) (exec_run (en_exec env) t timeout)
      else Some (Inl (lit ''unknown probe method '' @ [DQUOTE] @ m @ [DQUOTE]), counter))"

section \<open>The interface of the methods\<close>

text \<open>
  What the dispatch and the engine rely on: a method refuses a transport exactly when it is
  misconfigured, whatever the outside does; and a method of the network never reports an
  address.
\<close>

locale probe_method =
  fixes run :: "'e \<Rightarrow> transport \<Rightarrow> int \<Rightarrow> 'c \<Rightarrow> (rstr + probe_result) option"
    and misconfigured :: "transport \<Rightarrow> bool"
  assumes refuses: "run e t timeout c = Some r \<Longrightarrow> (\<exists>msg. r = Inl msg) \<longleftrightarrow> misconfigured t"
begin

lemma gives_result: "run e t timeout c = Some r \<Longrightarrow> \<not> misconfigured t \<Longrightarrow> \<exists>res. r = Inr res"
  using refuses [of e t timeout c r] by (cases r) auto

end

locale network_method = probe_method +
  assumes no_address: "run e t timeout c = Some (Inr res) \<Longrightarrow> pr_address res = []"
begin

text \<open>So a tick of such a transport never moves an address that is set.\<close>

lemma keeps_address:
  assumes "run e t timeout c = Some (Inr res)" and "tr_address tr \<noteq> []"
  shows "tr_address (apply_result now res tr) = tr_address tr"
  using no_address [OF assms(1)] assms(2)
  by (simp add: apply_result_def record_address_def check_address_def count_result_def Let_def)

end

definition no_target :: "transport \<Rightarrow> bool" where
  "no_target t \<longleftrightarrow> effective_target t = []"

definition no_command :: "transport \<Rightarrow> bool" where
  "no_command t \<longleftrightarrow> (case tokenize (p_exec (t_probe t)) of Inr (w # ws) \<Rightarrow> False | _ \<Rightarrow> True)"

interpretation tcp: network_method "\<lambda>ne t timeout (c :: 16 word). Some (fst (tcp_run ne t timeout))" no_target
  by unfold_locales (auto simp: tcp_run_def Let_def no_target_def tcp_loop_address simp del: tcp_loop.simps
      split: sum.splits list.splits if_splits)

interpretation http: network_method "\<lambda>ne t timeout (c :: 16 word). Some (fst (http_run ne t timeout))" no_target
  by unfold_locales (auto simp: http_run_def Let_def no_target_def http_loop_address simp del: http_loop.simps
      split: sum.splits list.splits option.splits if_splits)

interpretation icmp: network_method "\<lambda>ie t timeout c. map_option fst (icmp_run ie t timeout c)" no_target
  by unfold_locales (auto simp: icmp_run_def Let_def no_target_def next_echo_identity_def dest: await_reply_verdict
      split: sum.splits option.splits if_splits)

interpretation exec: probe_method "\<lambda>xe t timeout (c :: 16 word). map_option fst (exec_run xe t timeout)" no_command
  by unfold_locales (auto simp: exec_run_def no_command_def split: sum.splits option.splits if_splits list.splits)

section \<open>Properties\<close>

text \<open>
  C29.  What validation leaves to the tick: the probe of a transport with a validated method is
  refused exactly when the method goes to the network and the transport has neither target
  nor address, or when its command line has an open quote or no word in it; and unless the
  method is \<open>exec\<close>, no tick ever moves an address that is set.
\<close>

theorem misconfigured_iff:
  assumes "probe_ok (t_probe t)" and "probe_run env t counter = Some (r, c)"
  shows "((\<exists>e. r = Inl e) \<longleftrightarrow> (if p_method (t_probe t) = lit ''exec'' then no_command t else no_target t)) \<and>
    (\<forall>res tr now. r = Inr res \<and> p_method (t_probe t) \<noteq> lit ''exec'' \<and> tr_address tr \<noteq> [] \<longrightarrow>
      tr_address (apply_result now res tr) = tr_address tr)"
proof -
  let ?timeout = "probe_timeout t"
  from assms(1) consider (tcp) "p_method (t_probe t) = lit ''tcp''" | (icmp) "p_method (t_probe t) = lit ''icmp''"
    | (http) "p_method (t_probe t) = lit ''http''" | (exec) "p_method (t_probe t) = lit ''exec''"
    by (auto simp: probe_ok_def)
  then show ?thesis
  proof cases
    case tcp
    with assms(2) have "Some (fst (tcp_run (en_tcp env) t ?timeout)) = Some r" by (simp add: probe_run_def Let_def)
    with tcp.refuses [OF this] tcp.keeps_address [of "en_tcp env" t ?timeout] show ?thesis by (simp add: tcp)
  next
    case http
    with assms(2) have "Some (fst (http_run (en_http env) t ?timeout)) = Some r" by (simp add: probe_run_def Let_def)
    with http.refuses [OF this] http.keeps_address [of "en_http env" t ?timeout] show ?thesis by (simp add: http)
  next
    case icmp
    with assms(2) have "map_option fst (icmp_run (en_icmp env) t ?timeout counter) = Some r"
      by (auto simp: probe_run_def Let_def)
    with icmp.refuses [OF this] icmp.keeps_address [of "en_icmp env" t ?timeout counter] show ?thesis by (simp add: icmp)
  next
    case exec
    with assms(2) have "map_option fst (exec_run (en_exec env) t ?timeout) = Some r"
      by (auto simp: probe_run_def Let_def)
    with exec.refuses [OF this] show ?thesis by (simp add: exec)
  qed
qed

text \<open>A validated \<open>exec\<close> transport that can never be probed: its command line is one blank.\<close>

definition demo_blank :: transport where
  "demo_blank = (demo_transport [] [] 10)\<lparr>t_probe := demo_probe\<lparr>p_method := lit ''exec'', p_exec := lit '' ''\<rparr>\<rparr>"

theorem misconfigured_iff_witness:
  "probe_ok (t_probe demo_blank) \<and>
   (\<exists>r. probe_run \<lparr>en_tcp = demo_net, en_http = demo_net, en_icmp = demo_icmp, en_exec = demo_exec\<rparr> demo_blank 0 = Some (r, 0) \<and>
      (\<exists>e. r = Inl e))"
proof -
  have ok: "probe_ok (t_probe demo_blank)"
    by (simp add: demo_blank_def demo_transport_def demo_probe_def probe_ok_def)
  have tok: "tokenize (p_exec (t_probe demo_blank)) = Inr []"
    by (simp add: demo_blank_def tokenize_def str_simps)
  obtain r where r: "probe_run \<lparr>en_tcp = demo_net, en_http = demo_net, en_icmp = demo_icmp, en_exec = demo_exec\<rparr> demo_blank 0 = Some (r, 0)"
    by (simp add: probe_run_def demo_blank_def exec_run_def tokenize_def str_simps)
  show ?thesis
    using ok r misconfigured_iff [OF ok r] by (simp add: no_command_def tok) (simp add: demo_blank_def)
qed

end
