(* ===== verification/Store.thy ===== *)
theory Store
  imports Runs Status
begin

text \<open>
  The writing side of \<open>src/engine/state.rs\<close>: the snapshot of the engine state, its
  throttled atomic write, and what a restart finds.  The times are converted to and from
  text here; \<open>serde_json\<close> on the structs with their times as text, and the RFC 3339 format
  and parser of the \<open>time\<close> crate, are parameters.
\<close>

section \<open>Definitions\<close>

record store_env =
  sv_format :: "int \<Rightarrow> rstr + rstr"
  sv_time :: "rstr \<Rightarrow> rstr + int"
  sv_to_vec :: "rstr stored_state \<Rightarrow> rstr + 8 word list"
  sv_from_slice :: "8 word list \<Rightarrow> rstr + rstr stored_state"

text \<open>\<open>mod rfc3339_opt\<close>: an absent and an empty text are both no time.\<close>

definition rfc3339_serialize :: "store_env \<Rightarrow> int option \<Rightarrow> rstr + rstr option" where
  "rfc3339_serialize env v =
     (case v of
        Some t \<Rightarrow> (case sv_format env t of Inl e \<Rightarrow> Inl e | Inr s \<Rightarrow> Inr (Some s))
      | None \<Rightarrow> Inr None)"

definition rfc3339_deserialize :: "store_env \<Rightarrow> rstr option \<Rightarrow> rstr + int option" where
  "rfc3339_deserialize env v =
     (case v of
        Some s \<Rightarrow>
          if s \<noteq> [] then (case sv_time env s of Inl e \<Rightarrow> Inl e | Inr t \<Rightarrow> Inr (Some t)) else Inr None
      | None \<Rightarrow> Inr None)"

text \<open>
  \<open>#[serde(with = "rfc3339_opt")]\<close> on the three times of the structs: the conversion \<open>f\<close> on
  each, and the first error.
\<close>

definition and_then :: "'e + 'a \<Rightarrow> ('a \<Rightarrow> 'e + 'b) \<Rightarrow> 'e + 'b" where
  "and_then r k = (case r of Inl e \<Rightarrow> Inl e | Inr x \<Rightarrow> k x)"

fun map_results :: "('a \<Rightarrow> 'e + 'b) \<Rightarrow> 'a list \<Rightarrow> 'e + 'b list" where
  "map_results f [] = Inr []"
| "map_results f (x # xs) = and_then (f x) (\<lambda>y. and_then (map_results f xs) (\<lambda>ys. Inr (y # ys)))"

definition times_transport ::
  "('s option \<Rightarrow> 'e + 't option) \<Rightarrow> 's stored_transport \<Rightarrow> 'e + 't stored_transport" where
  "times_transport f pt =
     and_then (f (pt_last_success pt)) (\<lambda>t.
       Inr \<lparr>pt_ident = pt_ident pt, pt_state = pt_state pt, pt_succ = pt_succ pt, pt_fail = pt_fail pt,
            pt_address = pt_address pt, pt_last_success = t\<rparr>)"

definition times_group :: "('s option \<Rightarrow> 'e + 't option) \<Rightarrow> 's stored_group \<Rightarrow> 'e + 't stored_group" where
  "times_group f pg =
     and_then (f (pg_winner_since pg)) (\<lambda>ws.
       and_then (f (pg_confirmed pg)) (\<lambda>cf.
         and_then (map_results (times_transport f) (pg_transports pg)) (\<lambda>pts.
           Inr \<lparr>pg_winner_id = pg_winner_id pg, pg_winner_since = ws, pg_confirmed = cf,
                pg_degraded = pg_degraded pg, pg_published = pg_published pg, pg_transports = pts\<rparr>)))"

definition times_groups ::
  "('s option \<Rightarrow> 'e + 't option) \<Rightarrow> 's stored_group hmap \<Rightarrow> 'e + 't stored_group hmap" where
  "times_groups f = map_results (\<lambda>(n, pg). and_then (times_group f pg) (\<lambda>pg'. Inr (n, pg')))"

definition times_state :: "('s option \<Rightarrow> 'e + 't option) \<Rightarrow> 's stored_state \<Rightarrow> 'e + 't stored_state" where
  "times_state f ps =
     and_then (times_groups f (ps_peers ps)) (\<lambda>gs.
       and_then (times_groups f (ps_uplinks ps)) (\<lambda>us. Inr \<lparr>ps_peers = gs, ps_uplinks = us\<rparr>))"

text \<open>\<open>serde_json::to_vec_pretty\<close> and \<open>from_slice\<close> on the structs with their attributes.\<close>

definition sv_serialize :: "store_env \<Rightarrow> persisted_state \<Rightarrow> rstr + 8 word list" where
  "sv_serialize env ps = and_then (times_state (rfc3339_serialize env) ps) (sv_to_vec env)"

definition sv_parse :: "store_env \<Rightarrow> 8 word list \<Rightarrow> rstr + persisted_state" where
  "sv_parse env d = and_then (sv_from_slice env d) (times_state (rfc3339_deserialize env))"

text \<open>The bytes, or the error that is logged; the outer \<open>None\<close> is the panic of \<open>dump\<close>.\<close>

definition serialized_state :: "store_env \<Rightarrow> engine_state \<Rightarrow> (rstr + 8 word list) option" where
  "serialized_state env st =
     do {
       ps \<leftarrow> dump st;
       Some (case sv_serialize env ps of
               Inr d \<Rightarrow> Inr (d @ [of_int NL])
             | Inl e \<Rightarrow> Inl (lit ''state: marshal failed: '' @ e))
     }"

definition write_state_data ::
  "faults \<Rightarrow> 8 word list \<Rightarrow> 8 word list disk_file option \<Rightarrow>
   bool \<times> 8 word list disk_file option \<times> rstr option" where
  "write_state_data flt bytes target =
     (case write_no_chmod flt bytes target of
        (Some e, f) \<Rightarrow> (False, f, Some (lit ''state: '' @ e))
      | (None, f) \<Rightarrow> (True, f, None))"

text \<open>
  \<open>save_state\<close>: the state that persists between calls is the instant of the last
  successful write, on the monotonic clock \<open>clk\<close>, and the file.
\<close>

definition SAVE_PERIOD :: int where "SAVE_PERIOD = 15 * 1000000000"

definition save_state ::
  "store_env \<Rightarrow> faults \<Rightarrow> bool \<Rightarrow> int \<Rightarrow> engine_state \<Rightarrow> int option \<times> 8 word list disk_file option \<Rightarrow>
   ((int option \<times> 8 word list disk_file option) \<times> rstr option) option" where
  "save_state env flt force clk st s =
     (if throttled SAVE_PERIOD force (fst s) clk then Some (s, None)
      else
        do {
          r \<leftarrow> serialized_state env st;
          Some (case r of
                  Inl e \<Rightarrow> (s, Some e)
                | Inr bytes \<Rightarrow>
                    (case write_state_data flt bytes (snd s) of
                       (well, f, lg) \<Rightarrow> ((if well then Some clk else fst s, f), lg)))
        })"

section \<open>The times of the file\<close>

lemma and_then_Inr [simp]: "and_then r k = Inr y \<longleftrightarrow> (\<exists>x. r = Inr x \<and> k x = Inr y)"
  by (cases r) (auto simp: and_then_def)

lemma and_then_Inl: "and_then r k = Inl e \<longleftrightarrow> r = Inl e \<or> (\<exists>x. r = Inr x \<and> k x = Inl e)"
  by (cases r) (auto simp: and_then_def)

lemma and_then_of_Inr [simp]: "and_then (Inr x) k = k x" "and_then (Inl e) k = Inl e"
  by (simp_all add: and_then_def)

text \<open>One conversion undoes another on a whole file if it does on each time.\<close>

lemma map_results_inverse:
  "(\<And>x y. x \<in> set xs \<Longrightarrow> f x = Inr y \<Longrightarrow> g y = Inr x) \<Longrightarrow> map_results f xs = Inr ys \<Longrightarrow> map_results g ys = Inr xs"
  by (induction xs arbitrary: ys) auto

lemma times_inverse:
  assumes inv: "\<And>x y. f x = Inr y \<Longrightarrow> g y = Inr x"
  shows "times_transport f pt = Inr pt' \<Longrightarrow> times_transport g pt' = Inr pt"
    and "times_group f pg = Inr pg' \<Longrightarrow> times_group g pg' = Inr pg"
    and "times_groups f m = Inr m' \<Longrightarrow> times_groups g m' = Inr m"
    and "times_state f ps = Inr ps' \<Longrightarrow> times_state g ps' = Inr ps"
proof -
  show t: "times_transport f pt = Inr pt' \<Longrightarrow> times_transport g pt' = Inr pt" for pt pt'
    by (auto simp: times_transport_def dest!: inv)
  have ts: "map_results (times_transport f) pts = Inr pts' \<Longrightarrow> map_results (times_transport g) pts' = Inr pts" for pts pts'
    by (erule map_results_inverse [rotated]) (auto dest: t)
  show gr: "times_group f pg = Inr pg' \<Longrightarrow> times_group g pg' = Inr pg" for pg pg'
    by (auto simp: times_group_def dest!: inv ts)
  show gs: "times_groups f m = Inr m' \<Longrightarrow> times_groups g m' = Inr m" for m m'
    unfolding times_groups_def by (erule map_results_inverse [rotated]) (auto dest: gr)
  show "times_state f ps = Inr ps' \<Longrightarrow> times_state g ps' = Inr ps"
    by (auto simp: times_state_def dest!: gs)
qed

text \<open>
  What the \<open>time\<close> crate and \<open>serde_json\<close> promise of each other's output; the file ends with
  a newline, which is JSON whitespace.
\<close>

definition store_laws :: "store_env \<Rightarrow> bool" where
  "store_laws env \<longleftrightarrow>
     (\<forall>t s. sv_format env t = Inr s \<longrightarrow> s \<noteq> [] \<and> sv_time env s = Inr t) \<and>
     (\<forall>j d. sv_to_vec env j = Inr d \<longrightarrow> sv_from_slice env (d @ [of_int NL]) = Inr j)"

lemma rfc3339_inverse:
  "store_laws env \<Longrightarrow> rfc3339_serialize env v = Inr o' \<Longrightarrow> rfc3339_deserialize env o' = Inr v"
  by (auto simp: store_laws_def rfc3339_serialize_def rfc3339_deserialize_def split: option.splits sum.splits)

lemma stored_parses:
  assumes "store_laws env" and "sv_serialize env ps = Inr d"
  shows "sv_parse env (d @ [of_int NL]) = Inr ps"
proof -
  from assms(2) obtain j where j: "times_state (rfc3339_serialize env) ps = Inr j" "sv_to_vec env j = Inr d"
    by (auto simp: sv_serialize_def)
  then have "sv_from_slice env (d @ [of_int NL]) = Inr j" using assms(1) by (auto simp: store_laws_def)
  with times_inverse(4) [OF rfc3339_inverse [OF assms(1)] j(1)] show ?thesis by (simp add: sv_parse_def)
qed

text \<open>A conversion that has no errors converts every file.\<close>

lemma map_results_total: "(\<And>x. x \<in> set xs \<Longrightarrow> \<exists>y. f x = Inr y) \<Longrightarrow> \<exists>ys. map_results f xs = Inr ys"
  by (induction xs) auto

lemma times_total:
  assumes "\<And>x. \<exists>y. f x = Inr y"
  shows "\<exists>j. times_state f ps = Inr j"
proof -
  from assms obtain h where f: "f = (\<lambda>x. Inr (h x))" by metis
  have "\<exists>pt'. times_transport f pt = Inr pt'" for pt by (auto simp: times_transport_def f)
  then have "\<exists>pts. map_results (times_transport f) (pg_transports pg) = Inr pts" for pg by (rule map_results_total)
  then have "\<exists>pg'. times_group f pg = Inr pg'" for pg by (auto simp: times_group_def f)
  then have "\<exists>m'. times_groups f m = Inr m'" for m unfolding times_groups_def by (intro map_results_total) auto
  then obtain gs us where "times_groups f (ps_peers ps) = Inr gs" "times_groups f (ps_uplinks ps) = Inr us" by meson
  then show ?thesis by (simp add: times_state_def)
qed

text \<open>One time that does not parse, anywhere in the file, and every group starts cold.\<close>

lemma map_results_error: "x \<in> set xs \<Longrightarrow> f x = Inl e \<Longrightarrow> \<exists>e'. map_results f xs = Inl e'"
proof (induction xs)
  case (Cons y ys)
  then show ?case by (cases "f y"; cases "map_results f ys") auto
qed simp

lemma bad_time_cold_start:
  assumes j: "sv_from_slice env d = Inr j" "(n, pg) \<in> set (ps_peers j) \<union> set (ps_uplinks j)"
    and t: "Some s \<in> insert (pg_winner_since pg) (insert (pg_confirmed pg) (pt_last_success ` set (pg_transports pg)))"
      "s \<noteq> []" "sv_time env s = Inl e"
  shows "fst (engine_new (sv_parse env) now now' (StateData d) c) = new_state c"
proof -
  let ?f = "rfc3339_deserialize env"
  have bad: "?f (Some s) = Inl e" using t by (simp add: rfc3339_deserialize_def)
  have pt: "\<exists>e'. map_results (times_transport ?f) (pg_transports pg) = Inl e'" if "pt \<in> set (pg_transports pg)" "Some s = pt_last_success pt" for pt
    by (rule map_results_error [OF that(1)]) (simp add: times_transport_def that(2) [symmetric] bad)
  have "\<nexists>pg'. times_group ?f pg = Inr pg'"
    using t(1) bad by (auto simp: times_group_def dest!: pt)
  then obtain e1 where "times_group ?f pg = Inl e1" by (cases "times_group ?f pg") auto
  then have gs: "(n, pg) \<in> set m \<Longrightarrow> \<exists>e'. times_groups ?f m = Inl e'" for m
    unfolding times_groups_def by (intro map_results_error [where x = "(n, pg)"]) auto
  then have "\<nexists>ps. times_state ?f j = Inr ps" using j(2) by (auto simp: times_state_def dest!: gs)
  then obtain e2 where "sv_parse env d = Inl e2" using j(1) by (cases "times_state ?f j") (auto simp: sv_parse_def)
  then show ?thesis by (simp add: engine_new_def load_state_def)
qed

section \<open>Lemmas\<close>

lemma hm_get_map: "hm_get (map (\<lambda>(n, x). (n, f n x)) m) n = map_option (f n) (hm_get m n)"
  by (induction m) auto

lemma dump_groups_get:
  "dump_groups gs = Some pgs \<Longrightarrow> hm_get gs n = Some g \<Longrightarrow> \<exists>pg. dump_group g = Some pg \<and> hm_get pgs n = Some pg"
  by (induction gs arbitrary: pgs) (auto simp: bind_eq_Some_conv split: if_splits)

lemma restored_group:
  assumes "dump st = Some ps" and "cold_state st = new_state c" and "get_group st k n = Some g"
  shows "get_group ((new_state c)\<lparr>en_peers := fst (restore_groups now (ps_peers ps) (en_peers (new_state c))),
      en_uplinks := fst (restore_groups now (ps_uplinks ps) (en_uplinks (new_state c)))\<rparr>) k n = Some (restart n now g)"
proof -
  have cold: "get_group (new_state c) k n = Some (cold_group g)" by (rule cold_state_group [OF assms(2,3)])
  have *: "hm_get (fst (restore_groups now saved gs)) n = Some (fst (restore_group n now pg g0))"
    if "hm_get gs n = Some g0" "hm_get saved n = Some pg" for saved gs g0 pg
    using that by (simp add: restore_groups_alt hm_get_map)
  from assms(1) obtain ps1 ps2 where d: "dump_groups (en_peers st) = Some ps1" "dump_groups (en_uplinks st) = Some ps2"
    "ps = \<lparr>ps_peers = ps1, ps_uplinks = ps2\<rparr>" by (auto simp: dump_def bind_eq_Some_conv)
  show ?thesis
  proof (cases k)
    case Peer
    with assms(3) obtain pg where "dump_group g = Some pg" "hm_get (ps_peers ps) n = Some pg"
      using dump_groups_get [OF d(1)] d(3) by (auto simp: get_group_def groups_of_def)
    with Peer cold * show ?thesis by (simp add: restart_def get_group_def groups_of_def)
  next
    case Uplink
    with assms(3) obtain pg where "dump_group g = Some pg" "hm_get (ps_uplinks ps) n = Some pg"
      using dump_groups_get [OF d(2)] d(3) by (auto simp: get_group_def groups_of_def)
    with Uplink cold * show ?thesis by (simp add: restart_def get_group_def groups_of_def)
  qed
qed

text \<open>A write that reports no error leaves the serialized state in the file.\<close>

lemma save_state_file:
  assumes "save_state env flt True clk st s = Some ((l, f), None)"
  shows "\<exists>ps d. dump st = Some ps \<and> sv_serialize env ps = Inr d \<and> l = Some clk \<and>
    f = Some \<lparr>f_data = d @ [of_int NL], f_mode = TEMPFILE_MODE\<rparr>"
proof -
  from assms obtain ps where ps: "dump st = Some ps"
    by (auto simp: save_state_def throttled_def serialized_state_def bind_eq_Some_conv)
  with assms obtain d where d: "sv_serialize env ps = Inr d"
    by (auto simp: save_state_def throttled_def serialized_state_def split: sum.splits)
  from assms ps d have w: "fst (write_no_chmod flt (d @ [of_int NL]) (snd s)) = None" "l = Some clk"
      "f = snd (write_no_chmod flt (d @ [of_int NL]) (snd s))"
    by (auto simp: save_state_def throttled_def serialized_state_def write_state_data_def split: prod.splits option.splits)
  with ps d show ?thesis
    using private_file.ok_written [of flt "d @ [of_int NL]" "snd s"] by simp
qed

lemma keys_ok_config:
  assumes "config_ok c" and "cold_state st = new_state c" and "get_group st k n = Some g"
  shows "keys_ok g"
proof -
  have g: "get_group (new_state c) k n = Some (cold_group g)" by (rule cold_state_group [OF assms(2,3)])
  have keys: "map tr_key (new_runtimes k n ts) = map t_ident ts" for k n ts
    by (rule nth_equalityI) (simp_all add: new_runtimes_nth new_runtime_def)
  have ok: "ids_ok ts \<Longrightarrow> distinct (map t_ident ts) \<and> [] \<notin> set (map t_ident ts)" for ts
    by (auto simp: ids_ok_def trim_def trim_start_def trim_end_def)
  have "\<exists>ts. ids_ok ts \<and> map tr_key (g_transports (cold_group g)) = map t_ident ts"
  proof (cases k)
    case Peer
    with g obtain p where "hm_get (c_peers c) n = Some p" "new_peer_group n p = cold_group g"
      by (auto simp: new_state_get)
    moreover from this(1) assms(1) have "ids_ok (pe_transports p)"
      by (force simp: config_ok_def peer_ok_def dest: map_of_SomeD)
    ultimately show ?thesis by (metis keys new_peer_group_def group.select_convs(9))
  next
    case Uplink
    with g obtain u where "hm_get (c_uplinks c) n = Some u" "new_uplink_group n u = cold_group g"
      by (auto simp: new_state_get)
    moreover from this(1) assms(1) have "ids_ok (u_transports u)"
      by (force simp: config_ok_def uplink_ok_def dest: map_of_SomeD)
    ultimately show ?thesis by (metis keys new_uplink_group_def group.select_convs(9))
  qed
  then show ?thesis using ok by (metis cold_keys keys_ok_def)
qed

section \<open>Properties\<close>

text \<open>
  C16.  What survives a restart: after any run of a daemon with a validated configuration, a
  forced save that reports no error, and a start from the file it wrote, every group is
  what saving and restoring it alone gives; for a group whose transports are at their
  declared addresses this is the group as it was, but for what is volatile, unless it is a
  peer whose retained address is too old by then, which is withdrawn.  Every time in the
  file goes through \<open>rfc3339_opt\<close>; \<open>store_laws\<close> says that a formatted time is not empty and
  parses back, and that what \<open>serde_json\<close> wrote it reads back.
\<close>

theorem save_then_restart:
  assumes "config_ok c" and "hm_ok (c_peers c)" and "hm_ok (c_uplinks c)"
    and "st = run_events (fst (engine_new parse now0 now1 f0 c)) es"
    and "save_state env flt True clk st s = Some ((l, Some file), None)"
    and "store_laws env"
    and "get_group st k n = Some g"
  shows "get_group (fst (engine_new (sv_parse env) now now (StateData (f_data file)) c)) k n = Some (restart n now g) \<and>
    (address_settled g \<longrightarrow> restart n now g =
      (if g_kind g = Peer \<and> retained g \<and> too_old g now
       then (volatile_reset g)\<lparr>g_winner := None, g_published := []\<rparr> else volatile_reset g))"
proof -
  note inv = engine_new_inv [OF assms(2,3), of parse now0 now1 f0]
  have st: "state_inv st" "cold_state st = new_state c"
    using run_events_inv [OF conjunct1 [OF inv], of es] inv by (simp_all add: assms(4))
  obtain ps d where ps: "dump st = Some ps" "sv_serialize env ps = Inr d" "f_data file = d @ [of_int NL]"
    using save_state_file [OF assms(5)] by auto
  have parse: "sv_parse env (f_data file) = Inr ps" using stored_parses [OF assms(6) ps(2)] ps(3) by simp
  have new: "fst (engine_new (sv_parse env) now now (StateData (f_data file)) c) =
      (new_state c)\<lparr>en_peers := fst (restore_groups now (ps_peers ps) (en_peers (new_state c))),
        en_uplinks := fst (restore_groups now (ps_uplinks ps) (en_uplinks (new_state c)))\<rparr>"
    by (simp add: engine_new_def load_state_def restore_def split_beta parse)
  have g: "group_inv g" using state_sat_get [OF st(1) assms(7)] by simp
  have "address_settled g \<Longrightarrow> restart n now g =
      (if g_kind g = Peer \<and> retained g \<and> too_old g now
       then (volatile_reset g)\<lparr>g_winner := None, g_published := []\<rparr> else volatile_reset g)"
    by (rule restart_alt [OF keys_ok_config [OF assms(1) st(2) assms(7)]])
      (use g in \<open>auto simp: group_inv_def\<close>)
  then show ?thesis using restored_group [OF ps(1) st(2) assms(7)] by (simp add: new)
qed

text \<open>An environment that can serialize one state.\<close>

definition demo_store :: "engine_state \<Rightarrow> store_env" where
  "demo_store st =
     (let tick = (\<lambda>v. case v of Some t \<Rightarrow> Inr (Some [t]) | None \<Rightarrow> Inr None);
          j = (case dump st of Some ps \<Rightarrow> times_state tick ps | None \<Rightarrow> Inl [])
      in \<lparr>sv_format = (\<lambda>t. Inr [t]), sv_time = (\<lambda>s. Inr (hd s)),
          sv_to_vec = (\<lambda>j'. if j = Inr j' then Inr [] else Inl []), sv_from_slice = (\<lambda>_. j)\<rparr>)"

theorem save_then_restart_witness:
  "\<exists>st g. \<exists>file :: 8 word list disk_file. get_group st Peer (lit ''h'') = Some g \<and> g_published g = lit ''192.0.2.10'' \<and>
     get_group (fst (engine_new (sv_parse (demo_store st)) 9 9 (StateData (f_data file)) demo_config)) Peer (lit ''h'') =
       Some (restart (lit ''h'') 9 g)"
proof -
  let ?st = "run_events (fst (engine_new (\<lambda>_. Inl [] :: rstr + persisted_state) 0 0 (StateData ()) demo_config)) demo_run"
  have new: "fst (engine_new (\<lambda>_. Inl [] :: rstr + persisted_state) 0 0 (StateData ()) demo_config) = new_state demo_config"
    by (simp add: engine_new_def load_state_def)
  obtain g where g: "get_group ?st Peer (lit ''h'') = Some g" "g_published g = lit ''192.0.2.10''"
    using demo_run_group unfolding new by blast
  have inv: "state_inv ?st"
    using run_events_inv(1) [OF conjunct1 [OF engine_new_inv [OF demo_config_maps]]] .
  then obtain ps where ps: "dump ?st = Some ps" using dump_some by blast
  have laws: "store_laws (demo_store ?st)" by (auto simp: demo_store_def store_laws_def Let_def split: if_splits)
  have tick: "rfc3339_serialize (demo_store ?st) = (\<lambda>v. case v of Some t \<Rightarrow> Inr (Some [t]) | None \<Rightarrow> Inr None)"
    by (rule ext) (simp add: rfc3339_serialize_def demo_store_def Let_def split: option.splits)
  have "\<exists>y. rfc3339_serialize (demo_store ?st) x = Inr y" for x by (simp add: tick split: option.split)
  then obtain j where j: "times_state (rfc3339_serialize (demo_store ?st)) ps = Inr j" using times_total by blast
  then have ser: "sv_serialize (demo_store ?st) ps = Inr []"
    unfolding sv_serialize_def j and_then_of_Inr
    using j unfolding tick by (simp add: demo_store_def ps)
  have saved: "save_state (demo_store ?st) no_faults True 5 ?st (None, None) =
      Some ((Some 5, Some \<lparr>f_data = [of_int NL], f_mode = TEMPFILE_MODE\<rparr>), None)"
    by (simp add: save_state_def throttled_def serialized_state_def ps ser write_state_data_def write_no_chmod_def
        write_impl_no_faults new_file_def)
  note r = save_then_restart [OF demo_config_ok demo_config_maps refl saved laws g(1), of 9]
  have "get_group (fst (engine_new (sv_parse (demo_store ?st)) 9 9
      (StateData (f_data \<lparr>f_data = [of_int NL], f_mode = TEMPFILE_MODE\<rparr>)) demo_config)) Peer (lit ''h'') =
    Some (restart (lit ''h'') 9 g)"
    by (rule conjunct1 [OF r])
  with g show ?thesis by blast
qed

end
