(* ===== verification/Workers.thy ===== *)
theory Workers
  imports Store Ticks
begin

text \<open>
  The worker threads of \<open>src/engine/mod.rs\<close>, one per transport, as an interleaving: the body
  of \<open>run_transport\<close> with \<open>probe_once\<close>, \<open>reconcile\<close>, \<open>save_state\<close> and \<open>write_status\<close>, cut at
  the sections of the four mutexes.  A section under the engine-state mutex is one step;
  \<open>io_lock\<close>, \<open>last_state_write\<close> and \<open>last_status_write\<close> are held over several steps and have
  an owner.  Probe results, clocks, faults of the file systems and the scheduling are
  arbitrary.  The history of the engine states, the last of which is the engine's state,
  is auxiliary: it lets a snapshot be named by the time at which it was taken.
\<close>

section \<open>Definitions\<close>

type_synonym worker = "group_kind \<times> rstr \<times> nat"

datatype lock = IoLock | SaveLock | StatusLock

text \<open>
  The program points of a worker, with its local variables: the two flags of the
  observation, then whether \<open>save_state\<close> and \<open>write_status\<close> are forced; a snapshot comes
  with the index of the engine state it is of.
\<close>

datatype pc =
    Gone
  | Waiting
  | Probing
  | WantIo bool bool
  | Deciding bool bool
  | Publishing bool bool decision
  | Recording bool bool decision outcome
  | WantSave bool bool
  | InSave bool bool
  | SaveWriting bool nat "rstr + 8 word list"
  | WantStatus bool
  | InStatus bool
  | StatusWriting nat snapshot
  | Idling

fun holding :: "pc \<Rightarrow> lock option" where
  "holding (Deciding _ _) = Some IoLock"
| "holding (Publishing _ _ _) = Some IoLock"
| "holding (Recording _ _ _ _) = Some IoLock"
| "holding (InSave _ _) = Some SaveLock"
| "holding (SaveWriting _ _ _) = Some SaveLock"
| "holding (InStatus _) = Some StatusLock"
| "holding (StatusWriting _ _) = Some StatusLock"
| "holding _ = None"

text \<open>The lock a point waits for, and the point once it has it.\<close>

fun wants :: "pc \<Rightarrow> (lock \<times> pc) option" where
  "wants (WantIo sc ac) = Some (IoLock, Deciding sc ac)"
| "wants (WantSave fs ft) = Some (SaveLock, InSave fs ft)"
| "wants (WantStatus ft) = Some (StatusLock, InStatus ft)"
| "wants _ = None"

record 'w sys =
  sy_history :: "engine_state list"
  sy_io :: "'w io"
  sy_store :: "int option \<times> 8 word list disk_file option"
  sy_saved :: nat
  sy_status :: "int option \<times> 8 word list disk_file option"
  sy_shown :: nat
  sy_lock :: "lock \<Rightarrow> worker option"
  sy_pc :: "worker \<Rightarrow> pc"

record 'w env =
  ev_publishers :: "'w publishers"
  ev_store :: store_env
  ev_status :: status_env
  ev_ttl :: int

definition engine_of :: "'w sys \<Rightarrow> engine_state" where
  "engine_of s = last (sy_history s)"

abbreviation version :: "'w sys \<Rightarrow> nat" where
  "version s \<equiv> length (sy_history s) - 1"

definition goto :: "worker \<Rightarrow> pc \<Rightarrow> 'w sys \<Rightarrow> 'w sys" where
  "goto w p s = s\<lparr>sy_pc := (sy_pc s)(w := p)\<rparr>"

definition advance :: "engine_state \<Rightarrow> 'w sys \<Rightarrow> 'w sys" where
  "advance e s = s\<lparr>sy_history := sy_history s @ [e]\<rparr>"

definition release :: "lock \<Rightarrow> 'w sys \<Rightarrow> 'w sys" where
  "release l s = s\<lparr>sy_lock := (sy_lock s)(l := None)\<rparr>"

definition STATUS_PERIOD :: int where "STATUS_PERIOD = 1000000000"

inductive worker_step :: "'w env \<Rightarrow> worker \<Rightarrow> 'w sys \<Rightarrow> 'w sys \<Rightarrow> bool" for env where
  start:
    "sy_pc s (k, n, i) = Waiting \<Longrightarrow> mark_started k n i t (engine_of s) = Some e \<Longrightarrow>
     worker_step env (k, n, i) s (goto (k, n, i) Probing (advance e s))"
| observe:
    "sy_pc s (k, n, i) = Probing \<Longrightarrow> probe_step k n i t res (engine_of s) = Some (e, sc, ac, lg) \<Longrightarrow>
     worker_step env (k, n, i) s (goto (k, n, i) (WantIo sc ac) (advance e s))"
| acquire:
    "wants (sy_pc s w) = Some (l, p) \<Longrightarrow> sy_lock s l = None \<Longrightarrow>
     worker_step env w s (goto w p (s\<lparr>sy_lock := (sy_lock s)(l := Some w)\<rparr>))"
| decide:
    "sy_pc s (k, n, i) = Deciding sc ac \<Longrightarrow>
     reconcile_decide (pu_fmt (ev_publishers env)) t k n (engine_of s) = Some (e, d, lg) \<Longrightarrow>
     worker_step env (k, n, i) s (goto (k, n, i) (Publishing sc ac d) (advance e s))"
| publish:
    "sy_pc s (k, n, i) = Publishing sc ac d \<Longrightarrow>
     reconcile_publish (ev_publishers env) t k n d (sy_io s) = (out, io', lg) \<Longrightarrow>
     worker_step env (k, n, i) s (goto (k, n, i) (Recording sc ac d out) (s\<lparr>sy_io := io'\<rparr>))"
| recorded:
    "sy_pc s (k, n, i) = Recording sc ac d out \<Longrightarrow>
     reconcile_record k n d out (engine_of s) = Some (e, changed, lg) \<Longrightarrow>
     worker_step env (k, n, i) s
       (goto (k, n, i) (WantSave (sc \<or> ac \<or> changed) (sc \<or> changed)) (release IoLock (advance e s)))"
| skip_save:
    "sy_pc s w = InSave fs ft \<Longrightarrow> throttled SAVE_PERIOD fs (fst (sy_store s)) clk \<Longrightarrow>
     worker_step env w s (goto w (WantStatus ft) (release SaveLock s))"
| snapshot_save:
    "sy_pc s w = InSave fs ft \<Longrightarrow> \<not> throttled SAVE_PERIOD fs (fst (sy_store s)) clk \<Longrightarrow>
     serialized_state (ev_store env) (engine_of s) = Some r \<Longrightarrow>
     worker_step env w s (goto w (SaveWriting ft (version s) r) s)"
| fail_save:
    "sy_pc s w = SaveWriting ft v (Inl err) \<Longrightarrow>
     worker_step env w s (goto w (WantStatus ft) (release SaveLock s))"
| write_save:
    "sy_pc s w = SaveWriting ft v (Inr bytes) \<Longrightarrow>
     write_state_data flt bytes (snd (sy_store s)) = (well, f, lg) \<Longrightarrow>
     worker_step env w s (goto w (WantStatus ft) (release SaveLock
       (s\<lparr>sy_store := (if well then Some clk else fst (sy_store s), f),
          sy_saved := (if f = snd (sy_store s) then sy_saved s else v)\<rparr>)))"
| skip_status:
    "sy_pc s w = InStatus ft \<Longrightarrow> throttled STATUS_PERIOD ft (fst (sy_status s)) clk \<Longrightarrow>
     worker_step env w s (goto w Idling (release StatusLock s))"
| snapshot_status:
    "sy_pc s w = InStatus ft \<Longrightarrow> \<not> throttled STATUS_PERIOD ft (fst (sy_status s)) clk \<Longrightarrow>
     worker_step env w s
       (goto w (StatusWriting (version s) (snapshot_of (se_fmt (ev_status env)) (engine_of s))) s)"
| write_status:
    "sy_pc s w = StatusWriting v snap \<Longrightarrow>
     status_write (ev_status env) flt t snap (ev_ttl env) (snd (sy_status s)) = Some (err, f) \<Longrightarrow>
     worker_step env w s (goto w Idling (release StatusLock
       (s\<lparr>sy_status := (if err = None then Some clk else fst (sy_status s), f),
          sy_shown := (if f = snd (sy_status s) then sy_shown s else v)\<rparr>)))"
| idle:
    "sy_pc s (k, n, i) = Idling \<Longrightarrow> mark_idle k n i due (engine_of s) = Some e \<Longrightarrow>
     worker_step env (k, n, i) s (goto (k, n, i) Waiting (advance e s))"

inductive reachable :: "'w env \<Rightarrow> 'w sys \<Rightarrow> 'w sys \<Rightarrow> bool" for env s0 where
  here: "reachable env s0 s0"
| step: "reachable env s0 s \<Longrightarrow> worker_step env w s s' \<Longrightarrow> reachable env s0 s'"

text \<open>The system when the workers have been spawned.\<close>

definition spawned :: "'w sys \<Rightarrow> bool" where
  "spawned s \<longleftrightarrow> (\<exists>st. sy_history s = [st] \<and> state_inv st \<and>
     sy_pc s = (\<lambda>w. if w \<in> set (transport_keys st) then Waiting else Gone)) \<and>
     sy_lock s = (\<lambda>_. None) \<and> sy_saved s = 0 \<and> sy_shown s = 0"

section \<open>The sections in sequence\<close>

text \<open>\<open>save_state\<close> and \<open>write_status\<close> are their sections with nobody in between.\<close>

lemma save_state_sections:
  "save_state env flt fs clk st s =
     (if throttled SAVE_PERIOD fs (fst s) clk then Some (s, None)
      else map_option (\<lambda>r. case r of Inl e \<Rightarrow> (s, Some e)
        | Inr bytes \<Rightarrow> (case write_state_data flt bytes (snd s) of
            (well, f, lg) \<Rightarrow> ((if well then Some clk else fst s, f), lg))) (serialized_state env st))"
  by (cases "serialized_state env st") (auto simp: save_state_def split: sum.split)

lemma goto_simps [simp]:
  "sy_history (goto w p s) = sy_history s" "sy_lock (goto w p s) = sy_lock s"
  "sy_saved (goto w p s) = sy_saved s" "sy_shown (goto w p s) = sy_shown s"
  "sy_store (goto w p s) = sy_store s" "sy_status (goto w p s) = sy_status s"
  "sy_pc (goto w p s) = (sy_pc s)(w := p)" "sy_io (goto w p s) = sy_io s"
  by (simp_all add: goto_def)

lemma advance_simps [simp]:
  "sy_history (advance e s) = sy_history s @ [e]" "sy_lock (advance e s) = sy_lock s"
  "sy_saved (advance e s) = sy_saved s" "sy_shown (advance e s) = sy_shown s"
  "sy_store (advance e s) = sy_store s" "sy_status (advance e s) = sy_status s"
  "sy_pc (advance e s) = sy_pc s" "sy_io (advance e s) = sy_io s"
  by (simp_all add: advance_def)

lemma release_simps [simp]:
  "sy_history (release l s) = sy_history s" "sy_lock (release l s) = (sy_lock s)(l := None)"
  "sy_saved (release l s) = sy_saved s" "sy_shown (release l s) = sy_shown s"
  "sy_store (release l s) = sy_store s" "sy_status (release l s) = sy_status s"
  "sy_pc (release l s) = sy_pc s" "sy_io (release l s) = sy_io s"
  by (simp_all add: release_def)

section \<open>Mutual exclusion\<close>

definition locks_ok :: "'w sys \<Rightarrow> bool" where
  "locks_ok s \<longleftrightarrow> (\<forall>l w. sy_lock s l = Some w \<longleftrightarrow> holding (sy_pc s w) = Some l)"

lemma wants_holding: "wants p = Some (l, p') \<Longrightarrow> holding p = None \<and> holding p' = Some l"
  by (cases p) auto

lemma locks_ok_fields [simp]:
  "locks_ok (advance e s) = locks_ok s" "locks_ok (s\<lparr>sy_io := io\<rparr>) = locks_ok s"
  "locks_ok (s\<lparr>sy_store := st, sy_saved := v\<rparr>) = locks_ok s"
  "locks_ok (s\<lparr>sy_status := ss, sy_shown := v\<rparr>) = locks_ok s"
  "locks_ok (s\<lparr>sy_store := st\<rparr>) = locks_ok s" "locks_ok (s\<lparr>sy_status := ss\<rparr>) = locks_ok s"
  by (simp_all add: locks_ok_def)

lemma locks_goto: "locks_ok s \<Longrightarrow> holding p = holding (sy_pc s w) \<Longrightarrow> locks_ok (goto w p s)"
  unfolding locks_ok_def by simp

lemma locks_release:
  assumes "locks_ok s" and "holding (sy_pc s w) = Some l" and "holding p = None"
  shows "locks_ok (goto w p (release l s))"
proof -
  have L: "sy_lock s l' = Some w' \<longleftrightarrow> holding (sy_pc s w') = Some l'" for l' w'
    using assms(1) unfolding locks_ok_def by blast
  have "sy_lock s l = Some w" using L [of l w] assms(2) by simp
  then have one: "w' = w" if "holding (sy_pc s w') = Some l" for w' using L [of l w'] that by simp
  show ?thesis
    unfolding locks_ok_def
  proof (intro allI)
    fix l' w'
    show "sy_lock (goto w p (release l s)) l' = Some w' \<longleftrightarrow>
        holding (sy_pc (goto w p (release l s)) w') = Some l'"
    proof (cases "w' = w")
      case True
      have "l' \<noteq> l \<Longrightarrow> sy_lock s l' \<noteq> Some w" using L [of l' w] assms(2) by auto
      then show ?thesis by (simp add: True assms(3))
    next
      case False
      then have "holding (sy_pc s w') \<noteq> Some l" using one by blast
      then show ?thesis using L [of l' w'] False by (cases "l' = l") simp_all
    qed
  qed
qed

lemma locks_acquire:
  assumes "locks_ok s" and "wants (sy_pc s w) = Some (l, p)" and "sy_lock s l = None"
  shows "locks_ok (goto w p (s\<lparr>sy_lock := (sy_lock s)(l := Some w)\<rparr>))"
proof -
  have "holding (sy_pc s w') \<noteq> Some l" for w'
    using assms(1,3) unfolding locks_ok_def by (metis option.distinct(1))
  then show ?thesis
    using assms(1) wants_holding [OF assms(2)] unfolding locks_ok_def by auto
qed

lemma step_locks:
  assumes "worker_step env w s s'" and "locks_ok s"
  shows "locks_ok s'"
  using assms(1)
proof (cases rule: worker_step.cases)
  case acquire
  then show ?thesis using locks_acquire [OF assms(2)] by simp
next
  case recorded
  then show ?thesis using assms(2) by (auto intro!: locks_release)
next
  case skip_save
  then show ?thesis using assms(2) by (auto intro!: locks_release)
next
  case fail_save
  then show ?thesis using assms(2) by (auto intro!: locks_release)
next
  case write_save
  then show ?thesis using assms(2) by (auto intro!: locks_release)
next
  case skip_status
  then show ?thesis using assms(2) by (auto intro!: locks_release)
next
  case write_status
  then show ?thesis using assms(2) by (auto intro!: locks_release)
qed (use assms(2) in \<open>auto intro!: locks_goto\<close>)

section \<open>The engine state of the interleaving\<close>

lemma engine_of_simps [simp]:
  "engine_of (goto w p s) = engine_of s" "engine_of (release l s) = engine_of s"
  "engine_of (advance e s) = e" "engine_of (s\<lparr>sy_lock := f\<rparr>) = engine_of s"
  "engine_of (s\<lparr>sy_io := io\<rparr>) = engine_of s"
  "engine_of (s\<lparr>sy_store := st\<rparr>) = engine_of s" "engine_of (s\<lparr>sy_status := ss\<rparr>) = engine_of s"
  "engine_of (s\<lparr>sy_store := st, sy_saved := v\<rparr>) = engine_of s"
  "engine_of (s\<lparr>sy_status := ss, sy_shown := v\<rparr>) = engine_of s"
  by (simp_all add: engine_of_def)

lemma decide_event:
  "reconcile_decide fmt t k n st = Some (e, d, lg) \<Longrightarrow> engine_event st (Decided k n t) = Some e"
  by (auto simp: reconcile_decide_def bind_eq_Some_conv)

lemma record_event:
  "reconcile_record k n d out st = Some (e, changed, lg) \<Longrightarrow> e = st \<or> (\<exists>ev. engine_event st ev = Some e)"
proof (cases out)
  case NotPublished
  then show "reconcile_record k n d out st = Some (e, changed, lg) \<Longrightarrow> e = st \<or> (\<exists>ev. engine_event st ev = Some e)"
    by (simp add: reconcile_record_def)
next
  case (HostsPublished r)
  assume "reconcile_record k n d out st = Some (e, changed, lg)"
  with HostsPublished have "engine_event st (HostsRecorded d r) = Some e"
    by (auto simp: reconcile_record_def split: prod.splits)
  then show ?thesis by blast
next
  case (RoutesPublished p)
  assume "reconcile_record k n d out st = Some (e, changed, lg)"
  with RoutesPublished have "engine_event st (RoutesRecorded k n d p) = Some e" by simp
  then show ?thesis by blast
qed

text \<open>Every step leaves the engine state alone or is one of the sections of the theory \<open>Reconcile\<close>.\<close>

lemma step_event:
  assumes "worker_step env w s s'"
  shows "engine_of s' = engine_of s \<or> (\<exists>e. engine_event (engine_of s) e = Some (engine_of s'))"
  using assms
proof (cases rule: worker_step.cases)
  case (start k n i t e)
  then have "engine_event (engine_of s) (Started k n i t) = Some (engine_of s')" by simp
  then show ?thesis by blast
next
  case (observe k n i t res e sc ac lg)
  then have "engine_event (engine_of s) (Observed k n i t res) = Some (engine_of s')" by simp
  then show ?thesis by blast
next
  case (decide k n i sc ac t e d lg)
  then have "engine_event (engine_of s) (Decided k n t) = Some (engine_of s')"
    using decide_event [OF decide(4)] by simp
  then show ?thesis by blast
next
  case (recorded k n i sc ac d out e changed lg)
  then show ?thesis using record_event [OF recorded(4)] by auto
next
  case (idle k n i due e)
  then have "engine_event (engine_of s) (Idled k n i due) = Some (engine_of s')" by simp
  then show ?thesis by blast
qed simp_all

lemma reachable_events:
  "reachable env s0 s \<Longrightarrow> \<exists>es. engine_of s = run_events (engine_of s0) es"
proof (induction rule: reachable.induct)
  case here
  have "engine_of s0 = run_events (engine_of s0) []" by (simp add: run_events_def)
  then show ?case by blast
next
  case (step s w s')
  then obtain es where es: "engine_of s = run_events (engine_of s0) es" by blast
  from step_event [OF step(2)] show ?case
  proof
    assume "\<exists>e. engine_event (engine_of s) e = Some (engine_of s')"
    then obtain e where "engine_event (engine_of s) e = Some (engine_of s')" by blast
    then have "engine_of s' = run_events (engine_of s0) (es @ [e])"
      by (simp add: run_events_snoc engine_step_def flip: es)
    then show ?thesis by blast
  qed (use es in auto)
qed

lemma reachable_locks: "reachable env s0 s \<Longrightarrow> spawned s0 \<Longrightarrow> locks_ok s"
proof (induction rule: reachable.induct)
  case here
  then obtain st where "sy_pc s0 = (\<lambda>w. if w \<in> set (transport_keys st) then Waiting else Gone)"
    "sy_lock s0 = (\<lambda>_. None)" by (auto simp: spawned_def)
  then show ?case by (simp add: locks_ok_def)
qed (rule step_locks)

lemma reachable_inv:
  assumes "reachable env s0 s" and "spawned s0"
  shows "state_inv (engine_of s)" and "cold_state (engine_of s) = cold_state (engine_of s0)"
proof -
  have "state_inv (engine_of s0)" using assms(2) by (auto simp: spawned_def engine_of_def)
  with reachable_events [OF assms(1)] show "state_inv (engine_of s)"
    "cold_state (engine_of s) = cold_state (engine_of s0)"
    using run_events_inv by auto
qed

section \<open>Publications are current\<close>

text \<open>What a peer publication takes from the groups; only a decision changes it.\<close>

definition peer_views :: "engine_state \<Rightarrow> (rstr \<times> rstr list \<times> int option) list" where
  "peer_views st = map (\<lambda>g. (g_published g, g_hostnames g, g_confirmed g)) (hm_values (en_peers st))"

lemma peer_entries_views:
  "peer_entries fmt st = concat (map (\<lambda>(a, hs, t). if a = [] then [] else
     [\<lparr>e_address = a, e_hostnames = hs, e_confirmed_at = Option.bind t fmt\<rparr>]) (peer_views st))"
proof -
  have "map (entry_of_group fmt) (filter (\<lambda>g. g_published g \<noteq> []) gs) =
      concat (map (\<lambda>(a, hs, t). if a = [] then [] else
        [\<lparr>e_address = a, e_hostnames = hs, e_confirmed_at = Option.bind t fmt\<rparr>])
        (map (\<lambda>g. (g_published g, g_hostnames g, g_confirmed g)) gs))" for gs
    by (induction gs) (auto simp: entry_of_group_def)
  then show ?thesis by (simp only: peer_entries_def peer_views_def)
qed

lemma nothing_to_publish_views: "nothing_to_publish st \<longleftrightarrow> (\<forall>(a, hs, t) \<in> set (peer_views st). a = [])"
  by (auto simp: nothing_to_publish_def peer_views_def)

lemma peer_views_put:
  assumes "get_group st k n = Some g" and "g_published g' = g_published g" and "g_hostnames g' = g_hostnames g"
    and "g_confirmed g' = g_confirmed g"
  shows "peer_views (put_group st k n g') = peer_views st"
proof (cases k)
  case Peer
  have "hm_get gs n = Some g \<Longrightarrow>
      map (\<lambda>g. (g_published g, g_hostnames g, g_confirmed g)) (hm_values (hm_put gs n g')) =
      map (\<lambda>g. (g_published g, g_hostnames g, g_confirmed g)) (hm_values gs)" for gs
    using assms(2-4) by (induction gs) auto
  with assms(1) Peer show ?thesis by (simp add: peer_views_def put_group_def get_group_def groups_of_def)
qed (simp add: peer_views_def put_group_def)

lemma peer_views_error [simp]: "peer_views (st\<lparr>en_hosts_error := e\<rparr>) = peer_views st"
  by (simp add: peer_views_def)

lemma mark_views:
  assumes "mark_started k n i t st = Some st' \<or> mark_idle k n i t st = Some st'"
  shows "peer_views st' = peer_views st"
  using assms by (auto simp: mark_started_def mark_idle_def bind_eq_Some_conv intro!: peer_views_put)

lemma observe_views: "probe_step k n i t r st = Some (st', x) \<Longrightarrow> peer_views st' = peer_views st"
  by (auto simp: probe_step_def bind_eq_Some_conv Let_def intro!: peer_views_put)

lemma record_views: "reconcile_record k n d out st = Some (st', x) \<Longrightarrow> peer_views st' = peer_views st"
  using record_state [of k n d out st st' x] by (auto intro: peer_views_put)

text \<open>The decision a worker is publishing is of the current state.\<close>

definition decision_current :: "'w env \<Rightarrow> 'w sys \<Rightarrow> bool" where
  "decision_current env s \<longleftrightarrow> (\<forall>w sc ac d p. sy_pc s w = Publishing sc ac d \<and> dc_action d = PublishPeers p \<longrightarrow>
     dc_entries d = peer_entries (pu_fmt (ev_publishers env)) (engine_of s) \<and>
     dc_empty d = nothing_to_publish (engine_of s))"

lemma current_views:
  assumes "decision_current env s" and "peer_views (engine_of s') = peer_views (engine_of s)"
    and "sy_pc s' = (sy_pc s)(w := p)" and "\<And>sc ac d. p \<noteq> Publishing sc ac d"
  shows "decision_current env s'"
  using assms unfolding decision_current_def
  by (simp add: peer_entries_views nothing_to_publish_views) blast

lemma current_decide:
  assumes "locks_ok s" and "sy_pc s (k, n, i) = Deciding sc ac"
    and "reconcile_decide (pu_fmt (ev_publishers env)) t k n (engine_of s) = Some (e, d, lg)"
  shows "decision_current env (goto (k, n, i) (Publishing sc ac d) (advance e s))"
proof -
  have "w = (k, n, i)" if "sy_pc s w = Publishing sc' ac' d'" for w sc' ac' d'
  proof -
    have "holding (sy_pc s w) = Some IoLock" "holding (sy_pc s (k, n, i)) = Some IoLock"
      using assms(2) that by simp_all
    then have "sy_lock s IoLock = Some w" "sy_lock s IoLock = Some (k, n, i)"
      using assms(1) unfolding locks_ok_def by blast+
    then show ?thesis by simp
  qed
  moreover have "dc_entries d = peer_entries (pu_fmt (ev_publishers env)) e \<and> dc_empty d = nothing_to_publish e"
    if "dc_action d = PublishPeers p" for p
    using assms(3) that by (auto simp: reconcile_decide_def bind_eq_Some_conv)
  ultimately show ?thesis unfolding decision_current_def by auto
qed

lemma step_current:
  assumes "worker_step env w s s'" and "locks_ok s" and "decision_current env s"
  shows "decision_current env s'"
  using assms(1)
proof (cases rule: worker_step.cases)
  case (start k n i t e)
  then show ?thesis using mark_views [of k n i t "engine_of s" e] by (auto intro!: current_views [OF assms(3)])
next
  case (observe k n i t res e sc ac lg)
  then show ?thesis using observe_views by (auto intro!: current_views [OF assms(3)])
next
  case (acquire l p)
  then have "p \<noteq> Publishing sc ac d" for sc ac d by (cases "sy_pc s w") auto
  with acquire show ?thesis by (auto intro!: current_views [OF assms(3)])
next
  case (decide k n i sc ac t e d lg)
  then show ?thesis using current_decide [OF assms(2)] by simp
next
  case (recorded k n i sc ac d out e changed lg)
  then show ?thesis using record_views by (auto intro!: current_views [OF assms(3)])
next
  case (idle k n i due e)
  then show ?thesis using mark_views [of k n i due "engine_of s" e] by (auto intro!: current_views [OF assms(3)])
qed (auto intro!: current_views [OF assms(3)])

lemma reachable_current: "reachable env s0 s \<Longrightarrow> spawned s0 \<Longrightarrow> decision_current env s"
proof (induction rule: reachable.induct)
  case here
  then obtain st where "sy_pc s0 = (\<lambda>w. if w \<in> set (transport_keys st) then Waiting else Gone)"
    by (auto simp: spawned_def)
  then show ?case by (simp add: decision_current_def)
next
  case (step s w s')
  then show ?case using step_current reachable_locks by blast
qed

text \<open>
  C7.  Publication under concurrency: however the workers interleave, at most one is
  between taking \<open>io_lock\<close> and releasing it; and the entries that it is about to write to the
  hosts file are those of the engine state at that very moment, whatever the other workers
  have recorded since it decided.  So the last writer always leaves the current entries.
\<close>

theorem publication_is_current:
  assumes "reachable env s0 s" and "spawned s0"
    and "sy_pc s w = Publishing sc ac d" and "dc_action d = PublishPeers passive"
  shows "dc_entries d = peer_entries (pu_fmt (ev_publishers env)) (engine_of s) \<and>
    dc_empty d = nothing_to_publish (engine_of s) \<and>
    (\<forall>w'. holding (sy_pc s w') = Some IoLock \<longleftrightarrow> w' = w)"
proof -
  have "holding (sy_pc s w) = Some IoLock" using assms(3) by simp
  moreover have "locks_ok s" by (rule reachable_locks [OF assms(1,2)])
  ultimately have "\<forall>w'. holding (sy_pc s w') = Some IoLock \<longleftrightarrow> w' = w"
    unfolding locks_ok_def by (metis option.inject)
  then show ?thesis
    using reachable_current [OF assms(1,2)] assms(3,4) unfolding decision_current_def by blast
qed

section \<open>Snapshots\<close>

text \<open>
  What is being written is the engine state at some point of the history, no older than
  what the file has; and the state file has what the history had at that point.
\<close>

definition snapshots_ok :: "'w env \<Rightarrow> 8 word list disk_file option \<Rightarrow> 'w sys \<Rightarrow> bool" where
  "snapshots_ok env f0 s \<longleftrightarrow> sy_history s \<noteq> [] \<and> sy_saved s \<le> version s \<and> sy_shown s \<le> version s \<and>
     (\<forall>w ft v r. sy_pc s w = SaveWriting ft v r \<longrightarrow> sy_saved s \<le> v \<and> v \<le> version s \<and>
        serialized_state (ev_store env) (sy_history s ! v) = Some r) \<and>
     (\<forall>w v snap. sy_pc s w = StatusWriting v snap \<longrightarrow> sy_shown s \<le> v \<and> v \<le> version s \<and>
        snap = snapshot_of (se_fmt (ev_status env)) (sy_history s ! v)) \<and>
     (snd (sy_store s) = f0 \<or>
      (\<exists>file. snd (sy_store s) = Some file \<and>
         serialized_state (ev_store env) (sy_history s ! sy_saved s) = Some (Inr (f_data file))))"

lemma snapshots_advance:
  assumes "snapshots_ok env f0 s"
  shows "snapshots_ok env f0 (advance e s)"
proof -
  have "sy_history s \<noteq> []" using assms by (simp add: snapshots_ok_def)
  then have "v < length (sy_history s)" if "v \<le> version s" for v
    using that by (cases "sy_history s") auto
  then have "(sy_history s @ [e]) ! v = sy_history s ! v" if "v \<le> version s" for v
    using that by (simp add: nth_append)
  moreover have "v \<le> length (sy_history s)" if "v \<le> length (sy_history s) - Suc 0" for v
    using that by simp
  ultimately show ?thesis using assms unfolding snapshots_ok_def advance_simps by auto
qed

lemma snapshots_goto:
  "snapshots_ok env f0 s \<Longrightarrow> (\<And>ft v r. p \<noteq> SaveWriting ft v r) \<Longrightarrow> (\<And>v snap. p \<noteq> StatusWriting v snap) \<Longrightarrow>
   snapshots_ok env f0 (goto w p s)"
  unfolding snapshots_ok_def by simp

lemma snapshots_fields [simp]:
  "snapshots_ok env f0 (release l s) = snapshots_ok env f0 s"
  "snapshots_ok env f0 (s\<lparr>sy_io := io\<rparr>) = snapshots_ok env f0 s"
  "snapshots_ok env f0 (s\<lparr>sy_lock := lk\<rparr>) = snapshots_ok env f0 s"
  by (simp_all add: snapshots_ok_def)

lemma write_state_data_file:
  "write_state_data flt bytes target = (well, f, lg) \<Longrightarrow> f = target \<or> f = Some (new_file None bytes)"
  using private_file.all_or_nothing [of flt bytes target]
  by (auto simp: write_state_data_def new_file_def split: prod.splits option.splits)

lemma alone:
  "locks_ok s \<Longrightarrow> holding (sy_pc s w) = Some l \<Longrightarrow> holding (sy_pc s w') = Some l \<Longrightarrow> w' = w"
  unfolding locks_ok_def by (metis option.inject)

lemma step_snapshots:
  assumes "worker_step env w s s'" and "locks_ok s" and "snapshots_ok env f0 s"
  shows "snapshots_ok env f0 s' \<and> sy_saved s \<le> sy_saved s' \<and> sy_shown s \<le> sy_shown s' \<and>
    (\<exists>es. sy_history s' = sy_history s @ es)"
  using assms(1)
proof (cases rule: worker_step.cases)
  case (acquire l p)
  with assms(3) show ?thesis by (cases "sy_pc s w") (auto intro!: snapshots_goto)
next
  case (snapshot_save fs ft clk r)
  have "sy_history s \<noteq> []" using assms(3) by (simp add: snapshots_ok_def)
  then have "sy_history s ! version s = engine_of s" by (simp add: engine_of_def last_conv_nth)
  with snapshot_save assms(3) show ?thesis by (auto simp: snapshots_ok_def)
next
  case (snapshot_status ft clk)
  have "sy_history s \<noteq> []" using assms(3) by (simp add: snapshots_ok_def)
  then have "sy_history s ! version s = engine_of s" by (simp add: engine_of_def last_conv_nth)
  with snapshot_status assms(3) show ?thesis by (auto simp: snapshots_ok_def)
next
  case (write_save ft v bytes flt well f lg clk)
  have v: "sy_saved s \<le> v" "v \<le> version s" "serialized_state (ev_store env) (sy_history s ! v) = Some (Inr bytes)"
    using assms(3) write_save(2) unfolding snapshots_ok_def by blast+
  have others: "\<And>ft' v' r. sy_pc s w' \<noteq> SaveWriting ft' v' r" if "w' \<noteq> w" for w'
    using alone [OF assms(2), of w SaveLock w'] that write_save(2) by auto
  have f: "f = snd (sy_store s) \<or> f = Some (new_file None bytes)" by (rule write_state_data_file [OF write_save(3)])
  show ?thesis
    using assms(3) v others f write_save(1) by (auto simp: snapshots_ok_def new_file_def)
next
  case (write_status v snap flt t err f clk)
  have v: "sy_shown s \<le> v" "v \<le> version s"
    using assms(3) write_status(2) unfolding snapshots_ok_def by blast+
  have others: "\<And>v' r. sy_pc s w' \<noteq> StatusWriting v' r" if "w' \<noteq> w" for w'
    using alone [OF assms(2), of w StatusLock w'] that write_status(2) by auto
  show ?thesis using assms(3) v others write_status(1) by (auto simp: snapshots_ok_def)
qed (use assms(3) in \<open>auto intro!: snapshots_goto snapshots_advance\<close>)

lemma reachable_snapshots:
  "reachable env s0 s \<Longrightarrow> spawned s0 \<Longrightarrow> snapshots_ok env (snd (sy_store s0)) s"
proof (induction rule: reachable.induct)
  case here
  then obtain st where "sy_pc s0 = (\<lambda>w. if w \<in> set (transport_keys st) then Waiting else Gone)"
    "sy_history s0 = [st]" "sy_saved s0 = 0" "sy_shown s0 = 0" by (auto simp: spawned_def)
  then show ?case by (simp add: snapshots_ok_def)
next
  case (step s w s')
  then show ?case using step_snapshots reachable_locks by blast
qed


section \<open>Progress\<close>

fun rank :: "pc \<Rightarrow> nat" where
  "rank Gone = 0"
| "rank Waiting = 0"
| "rank Idling = 1"
| "rank (StatusWriting _ _) = 2"
| "rank (InStatus _) = 3"
| "rank (WantStatus _) = 4"
| "rank (SaveWriting _ _ _) = 5"
| "rank (InSave _ _) = 6"
| "rank (WantSave _ _) = 7"
| "rank (Recording _ _ _ _) = 8"
| "rank (Publishing _ _ _) = 9"
| "rank (Deciding _ _) = 10"
| "rank (WantIo _ _) = 11"
| "rank Probing = 12"

lemma wants_rank: "wants p = Some (l, p') \<Longrightarrow> rank p' < rank p"
  by (cases p) auto

lemma step_rank:
  assumes "worker_step env w s s'"
  shows "\<exists>p. sy_pc s' = (sy_pc s)(w := p) \<and> sy_pc s w \<noteq> Gone \<and> p \<noteq> Gone \<and>
    (if sy_pc s w = Waiting then p = Probing else rank p < rank (sy_pc s w))"
  using assms
proof (cases rule: worker_step.cases)
  case (acquire l p)
  then show ?thesis using wants_rank [OF acquire(2)] by (cases "sy_pc s w") auto
qed auto

text \<open>The workers of a system are those of its transports.\<close>

lemma reachable_keys:
  assumes "reachable env s0 s" and "spawned s0"
  shows "sy_pc s (k, n, i) \<noteq> Gone \<Longrightarrow> has_transport (engine_of s) k n i"
proof -
  obtain st where st: "sy_history s0 = [st]" "state_inv st"
    "sy_pc s0 = (\<lambda>w. if w \<in> set (transport_keys st) then Waiting else Gone)"
    using assms(2) by (auto simp: spawned_def)
  have "sy_pc s w \<noteq> Gone \<longleftrightarrow> w \<in> set (transport_keys st)" for w
    using assms(1)
  proof (induction rule: reachable.induct)
    case here
    then show ?case by (simp add: st(3))
  next
    case (step s v s')
    then show ?case using step_rank [OF step(2)] by (auto split: if_splits)
  qed
  moreover have "has_transport (engine_of s) k n i \<longleftrightarrow> has_transport st k n i"
    using reachable_inv(2) [OF assms] event_ok_cold [of "engine_of s" "Started k n i 0"]
      event_ok_cold [of st "Started k n i 0"] by (simp add: engine_of_def st(1))
  ultimately show "sy_pc s (k, n, i) \<noteq> Gone \<Longrightarrow> has_transport (engine_of s) k n i"
    using transport_keys_iff [OF st(2)] by simp
qed

definition can_step :: "'w env \<Rightarrow> worker \<Rightarrow> 'w sys \<Rightarrow> bool" where
  "can_step env w s \<longleftrightarrow> (\<exists>s'. worker_step env w s s')"

text \<open>An event of a transport that exists is defined, so the sections of a worker are.\<close>

lemma sections_defined:
  assumes "state_inv st" and "has_transport st k n i"
  shows "mark_started k n i t st \<noteq> None" "mark_idle k n i t st \<noteq> None" "probe_step k n i t r st \<noteq> None"
    "reconcile_decide fmt t k n st \<noteq> None" "reconcile_record k n d out st \<noteq> None"
proof -
  obtain g where g: "get_group st k n = Some g" using assms(2) by (auto simp: has_transport_def split: option.splits)
  have e: "engine_event st e \<noteq> None" if "event_ok st e" for e by (rule event_defined [OF assms(1) that])
  show "mark_started k n i t st \<noteq> None" using e [of "Started k n i t"] assms(2) by simp
  show "mark_idle k n i t st \<noteq> None" using e [of "Idled k n i t"] assms(2) by simp
  show "probe_step k n i t r st \<noteq> None" using e [of "Observed k n i t r"] assms(2) by simp
  have "decide_action t k n st \<noteq> None" using e [of "Decided k n t"] g by simp
  then obtain st' a lg where "decide_action t k n st = Some (st', a, lg)" by auto
  moreover from this have "get_group st' k n \<noteq> None"
    by (auto simp: decide_action_def bind_eq_Some_conv get_group_put)
  ultimately show "reconcile_decide fmt t k n st \<noteq> None" using g by (auto simp: reconcile_decide_def)
  show "reconcile_record k n d out st \<noteq> None"
  proof (cases out)
    case (RoutesPublished p)
    then show ?thesis using e [of "RoutesRecorded k n d p"] g by simp
  qed (auto simp: reconcile_record_def split: prod.splits)
qed

lemma free_step:
  assumes "reachable env s0 s" and "spawned s0" and "sy_pc s w \<noteq> Gone" and "wants (sy_pc s w) = None"
    and "\<And>t. se_representable (ev_status env) t"
  shows "can_step env w s"
proof -
  obtain k n i where w: "w = (k, n, i)" by (cases w)
  have inv: "state_inv (engine_of s)" by (rule reachable_inv(1) [OF assms(1,2)])
  have tr: "has_transport (engine_of s) k n i"
    by (rule reachable_keys [OF assms(1,2)]) (use assms(3) w in simp)
  note defined = sections_defined [OF inv tr]
  show ?thesis
  proof (cases "sy_pc s w")
    case Waiting
    then show ?thesis using defined(1) [of 0] w by (auto simp: can_step_def intro: worker_step.start)
  next
    case Probing
    then show ?thesis using defined(3) [of 0 "unhealthy []"] w by (auto simp: can_step_def intro: worker_step.observe)
  next
    case (Deciding sc ac)
    then show ?thesis using defined(4) [of "pu_fmt (ev_publishers env)" 0] w
      by (auto simp: can_step_def intro: worker_step.decide)
  next
    case (Publishing sc ac d)
    obtain out io' lg where "reconcile_publish (ev_publishers env) 0 k n d (sy_io s) = (out, io', lg)"
      by (cases "reconcile_publish (ev_publishers env) 0 k n d (sy_io s)")
    with Publishing show ?thesis unfolding w can_step_def by (blast intro: worker_step.publish)
  next
    case (Recording sc ac d out)
    then show ?thesis using defined(5) [of d out] w by (auto simp: can_step_def intro: worker_step.recorded)
  next
    case (InSave fs ft)
    obtain ps where "dump (engine_of s) = Some ps" using dump_some [OF inv] by blast
    then obtain r where "serialized_state (ev_store env) (engine_of s) = Some r" by (simp add: serialized_state_def)
    with InSave show ?thesis unfolding can_step_def
      by (cases "throttled SAVE_PERIOD fs (fst (sy_store s)) 0") (blast intro: worker_step.intros)+
  next
    case (SaveWriting ft v r)
    show ?thesis
    proof (cases r)
      case (Inl e)
      with SaveWriting show ?thesis unfolding can_step_def by (blast intro: worker_step.fail_save)
    next
      case (Inr bytes)
      obtain well f lg where "write_state_data no_faults bytes (snd (sy_store s)) = (well, f, lg)"
        by (cases "write_state_data no_faults bytes (snd (sy_store s))")
      with SaveWriting Inr show ?thesis unfolding can_step_def by (blast intro: worker_step.write_save)
    qed
  next
    case (InStatus ft)
    then show ?thesis unfolding can_step_def
      by (cases "throttled STATUS_PERIOD ft (fst (sy_status s)) 0") (blast intro: worker_step.intros)+
  next
    case (StatusWriting v snap)
    have "\<exists>r. status_write (ev_status env) no_faults 0 snap (ev_ttl env) (snd (sy_status s)) = Some r"
      by (simp add: status_write_def stamp_def assms(5) Let_def)
    then obtain err f where "status_write (ev_status env) no_faults 0 snap (ev_ttl env) (snd (sy_status s)) = Some (err, f)"
      by auto
    with StatusWriting show ?thesis unfolding can_step_def by (blast intro: worker_step.write_status)
  next
    case Idling
    then show ?thesis using defined(2) [of 0] w by (auto simp: can_step_def intro: worker_step.idle)
  qed (use assms(3,4) in auto)
qed


section \<open>A concrete run\<close>

lemma decide_peer_action:
  assumes "decide_group now Peer n g = Some (g', a, lg)" and "g_kind g = Peer" and "winner_in_range g"
  shows "\<exists>p. a = PublishPeers p"
proof (cases "up_idxs g = []")
  case True
  with assms(1) show ?thesis by (auto simp: decide_group_down decide_all_down_def Let_def split: if_splits)
next
  case False
  with decide_group_up [OF False assms(3), of now n] assms(1,2) show ?thesis by (auto simp: elected_action_def)
qed

definition demo_env :: "kroute list env" where
  "demo_env = \<lparr>ev_publishers = demo_pu, ev_store = demo_store (new_state demo_config), ev_status = demo_se, ev_ttl = 15000\<rparr>"

definition demo_sys :: "kroute list sys" where
  "demo_sys = \<lparr>sy_history = [new_state demo_config], sy_io = demo_io [], sy_store = (None, None), sy_saved = 0,
     sy_status = (None, None), sy_shown = 0, sy_lock = (\<lambda>_. None),
     sy_pc = (\<lambda>w. if w \<in> set (transport_keys (new_state demo_config)) then Waiting else Gone)\<rparr>"

lemma demo_spawned: "spawned demo_sys"
  by (simp add: spawned_def demo_sys_def new_state_inv)

abbreviation demo_worker :: worker where "demo_worker \<equiv> (Peer, lit ''h'', 0)"

lemma demo_waiting: "sy_pc demo_sys demo_worker = Waiting"
proof -
  have "has_transport (new_state demo_config) Peer (lit ''h'') 0"
    by (simp add: has_transport_def demo_new_group) (simp add: new_peer_group_def new_runtimes_def demo_config_def)
  then show ?thesis by (simp add: demo_sys_def transport_keys_iff new_state_inv)
qed

text \<open>The first worker on its own, up to the publication of its first tick.\<close>

lemma demo_wants_io: "\<exists>s sc ac. reachable demo_env demo_sys s \<and> sy_pc s demo_worker = WantIo sc ac \<and> sy_lock s = (\<lambda>_. None)"
proof -
  note r0 = reachable.here [of demo_env demo_sys]
  have tr: "has_transport (engine_of s) Peer (lit ''h'') 0"
    if "reachable demo_env demo_sys s" "sy_pc s demo_worker \<noteq> Gone" for s
    using reachable_keys [OF that(1) demo_spawned] that(2) by blast
  note inv = reachable_inv(1) [OF _ demo_spawned]
  have "mark_started Peer (lit ''h'') 0 0 (engine_of demo_sys) \<noteq> None"
    using sections_defined(1) [OF inv [OF r0] tr [OF r0]] demo_waiting by simp
  then obtain e1 where e1: "mark_started Peer (lit ''h'') 0 0 (engine_of demo_sys) = Some e1" by blast
  define s1 where "s1 = goto demo_worker Probing (advance e1 demo_sys)"
  have r1: "reachable demo_env demo_sys s1"
    unfolding s1_def by (rule reachable.step [OF r0 worker_step.start [OF demo_waiting e1]])
  have p1: "sy_pc s1 demo_worker = Probing" "sy_lock s1 = (\<lambda>_. None)" by (simp_all add: s1_def demo_sys_def)
  have "probe_step Peer (lit ''h'') 0 1 ok_result (engine_of s1) \<noteq> None"
    using sections_defined(3) [OF inv [OF r1] tr [OF r1]] p1 by simp
  then obtain e2 sc ac lg where e2: "probe_step Peer (lit ''h'') 0 1 ok_result (engine_of s1) = Some (e2, sc, ac, lg)" by auto
  have "reachable demo_env demo_sys (goto demo_worker (WantIo sc ac) (advance e2 s1))"
    by (rule reachable.step [OF r1 worker_step.observe [OF p1(1) e2]])
  then show ?thesis using p1 by (intro exI [of _ "goto demo_worker (WantIo sc ac) (advance e2 s1)"]) auto
qed

lemma demo_publishing:
  "\<exists>s sc ac d p. reachable demo_env demo_sys s \<and> sy_pc s demo_worker = Publishing sc ac d \<and> dc_action d = PublishPeers p"
proof -
  obtain s sc ac where s: "reachable demo_env demo_sys s" "sy_pc s demo_worker = WantIo sc ac" "sy_lock s = (\<lambda>_. None)"
    using demo_wants_io by blast
  define s1 where "s1 = goto demo_worker (Deciding sc ac) (s\<lparr>sy_lock := (sy_lock s)(IoLock := Some demo_worker)\<rparr>)"
  have r1: "reachable demo_env demo_sys s1"
    unfolding s1_def by (rule reachable.step [OF s(1) worker_step.acquire]) (use s in simp_all)
  have p1: "sy_pc s1 demo_worker = Deciding sc ac" by (simp add: s1_def)
  have inv: "state_inv (engine_of s1)" by (rule reachable_inv(1) [OF r1 demo_spawned])
  have "has_transport (engine_of s1) Peer (lit ''h'') 0" by (rule reachable_keys [OF r1 demo_spawned]) (simp add: p1)
  from sections_defined(4) [OF inv this] obtain e d lg where
    d: "reconcile_decide (pu_fmt (ev_publishers demo_env)) 2 Peer (lit ''h'') (engine_of s1) = Some (e, d, lg)" by fastforce
  then obtain g g' a where g: "get_group (engine_of s1) Peer (lit ''h'') = Some g"
    "decide_group 2 Peer (lit ''h'') g = Some (g', a, lg)" "dc_action d = a"
    by (auto simp: reconcile_decide_def decide_action_def bind_eq_Some_conv)
  have "g_kind g = Peer \<and> winner_in_range g" using state_sat_get [OF inv g(1)] by (simp add: group_inv_def)
  then obtain p where "dc_action d = PublishPeers p" using decide_peer_action [OF g(2)] g(3) by blast
  moreover have "reachable demo_env demo_sys (goto demo_worker (Publishing sc ac d) (advance e s1))"
    by (rule reachable.step [OF r1 worker_step.decide [OF p1 d]])
  ultimately show ?thesis by (intro exI [of _ "goto demo_worker (Publishing sc ac d) (advance e s1)"]) auto
qed

theorem publication_is_current_witness:
  "\<exists>s sc ac d. reachable demo_env demo_sys s \<and> sy_pc s demo_worker = Publishing sc ac d \<and>
     dc_entries d = peer_entries demo_fmt (engine_of s) \<and> holding (sy_pc s demo_worker) = Some IoLock"
proof -
  obtain s sc ac d p where s: "reachable demo_env demo_sys s" "sy_pc s demo_worker = Publishing sc ac d"
    "dc_action d = PublishPeers p" using demo_publishing by blast
  from publication_is_current [OF s(1) demo_spawned s(2,3)] s show ?thesis
    by (auto simp: demo_env_def demo_pu_def)
qed



end
