(* ===== verification/Shutdown.thy ===== *)
theory Shutdown
  imports Prelude
begin

text \<open>
  \<open>src/shutdown.rs\<close>: the shutdown signal, a flag under a mutex with a condition variable,
  shared by all threads.  \<open>shutdown_wait\<close> is one call of \<open>wait\<close> over what it sees;
  \<open>shutdown_step\<close> is the object under any number of threads, one rule per section of the
  mutex, with the condition variable's parking, its wakeups (by a notification, by the timeout or
  for no reason) and the clock.  What a call saw is kept beside the state.
\<close>

section \<open>Definitions\<close>

text \<open>
  \<open>Shutdown::wait\<close>: each round is a look at the flag, the first before sleeping and the
  others after a wakeup, spurious or not, with the time elapsed.
\<close>

fun shutdown_wait :: "int \<Rightarrow> (int \<times> bool) list \<Rightarrow> bool option" where
  "shutdown_wait dur [] = None"
| "shutdown_wait dur ((elapsed, flag) # rounds) =
     (if flag then Some True
      else if elapsed > dur then Some False
      else shutdown_wait dur rounds)"

text \<open>
  The program points of a thread.  \<open>Looking\<close> holds the guard at the head of the loop of
  \<open>wait_timeout_while\<close>; \<open>Asleep\<close> is parked in the condition variable; \<open>Woken\<close> has left it and
  wants the mutex back.  \<open>Setting\<close> and \<open>Notifying\<close> are inside \<open>trigger\<close>.
\<close>

datatype sd_pc =
    Outside
  | WantWait int
  | Looking int
  | Asleep int
  | Woken int
  | Answer int bool
  | WantLook
  | Told bool
  | WantTrigger
  | Setting
  | Notifying

type_synonym thread = nat

record shutdown =
  sd_flag :: bool
  sd_owner :: "thread option"
  sd_pc :: "thread \<Rightarrow> sd_pc"
  sd_now :: int
  sd_started :: "thread \<Rightarrow> int"
  sd_seen :: "thread \<Rightarrow> (int \<times> bool) list"

text \<open>\<open>Shutdown::new\<close>, with all threads outside.\<close>

definition shutdown_new :: "int \<Rightarrow> shutdown" where
  "shutdown_new now =
     \<lparr>sd_flag = False, sd_owner = None, sd_pc = (\<lambda>_. Outside), sd_now = now, sd_started = (\<lambda>_. now),
      sd_seen = (\<lambda>_. [])\<rparr>"

definition move :: "thread \<Rightarrow> sd_pc \<Rightarrow> shutdown \<Rightarrow> shutdown" where
  "move t p s = s\<lparr>sd_pc := (sd_pc s)(t := p)\<rparr>"

definition unlock :: "shutdown \<Rightarrow> shutdown" where
  "unlock s = s\<lparr>sd_owner := None\<rparr>"

definition take_lock :: "thread \<Rightarrow> shutdown \<Rightarrow> shutdown" where
  "take_lock t s = s\<lparr>sd_owner := Some t\<rparr>"

definition elapsed_of :: "thread \<Rightarrow> shutdown \<Rightarrow> int" where
  "elapsed_of t s = sd_now s - sd_started s t"

text \<open>A look at the head of the loop, as it is recorded.\<close>

definition see :: "thread \<Rightarrow> shutdown \<Rightarrow> shutdown" where
  "see t s = s\<lparr>sd_seen := (sd_seen s)(t := sd_seen s t @ [(elapsed_of t s, sd_flag s)])\<rparr>"

text \<open>\<open>notify_all\<close>: every thread that is parked leaves the condition variable.\<close>

definition notified :: "sd_pc \<Rightarrow> sd_pc" where
  "notified p = (case p of Asleep dur \<Rightarrow> Woken dur | _ \<Rightarrow> p)"

definition notify_all :: "shutdown \<Rightarrow> shutdown" where
  "notify_all s = s\<lparr>sd_pc := (\<lambda>t. notified (sd_pc s t))\<rparr>"

definition start_wait :: "thread \<Rightarrow> shutdown \<Rightarrow> shutdown" where
  "start_wait t s = s\<lparr>sd_started := (sd_started s)(t := sd_now s), sd_seen := (sd_seen s)(t := [])\<rparr>"

inductive shutdown_step :: "thread \<Rightarrow> shutdown \<Rightarrow> shutdown \<Rightarrow> bool" where
  wait_call:
    "sd_pc s t = Outside \<Longrightarrow> shutdown_step t s (move t (WantWait dur) s)"
| wait_lock:
    "sd_pc s t = WantWait dur \<Longrightarrow> sd_owner s = None \<Longrightarrow>
     shutdown_step t s (move t (Looking dur) (start_wait t (take_lock t s)))"
| wait_done:
    "sd_pc s t = Looking dur \<Longrightarrow> sd_flag s \<Longrightarrow>
     shutdown_step t s (move t (Answer dur True) (unlock (see t s)))"
| wait_over:
    "sd_pc s t = Looking dur \<Longrightarrow> \<not> sd_flag s \<Longrightarrow> dur < elapsed_of t s \<Longrightarrow>
     shutdown_step t s (move t (Answer dur False) (unlock (see t s)))"
| wait_sleep:
    "sd_pc s t = Looking dur \<Longrightarrow> \<not> sd_flag s \<Longrightarrow> \<not> dur < elapsed_of t s \<Longrightarrow>
     shutdown_step t s (move t (Asleep dur) (unlock (see t s)))"
| wait_wake:
    "sd_pc s t = Asleep dur \<Longrightarrow> shutdown_step t s (move t (Woken dur) s)"
| wait_relock:
    "sd_pc s t = Woken dur \<Longrightarrow> sd_owner s = None \<Longrightarrow>
     shutdown_step t s (move t (Looking dur) (take_lock t s))"
| wait_return:
    "sd_pc s t = Answer dur b \<Longrightarrow> shutdown_step t s (move t Outside s)"
| look_call:
    "sd_pc s t = Outside \<Longrightarrow> shutdown_step t s (move t WantLook s)"
| look:
    "sd_pc s t = WantLook \<Longrightarrow> sd_owner s = None \<Longrightarrow> shutdown_step t s (move t (Told (sd_flag s)) s)"
| look_return:
    "sd_pc s t = Told b \<Longrightarrow> shutdown_step t s (move t Outside s)"
| trigger_call:
    "sd_pc s t = Outside \<Longrightarrow> shutdown_step t s (move t WantTrigger s)"
| trigger_lock:
    "sd_pc s t = WantTrigger \<Longrightarrow> sd_owner s = None \<Longrightarrow>
     shutdown_step t s (move t Setting (take_lock t s))"
| trigger_set:
    "sd_pc s t = Setting \<Longrightarrow> shutdown_step t s (move t Notifying (s\<lparr>sd_flag := True\<rparr>))"
| trigger_notify:
    "sd_pc s t = Notifying \<Longrightarrow> shutdown_step t s (move t Outside (unlock (notify_all s)))"

text \<open>The threads and the clock, in any order.\<close>

inductive sd_reachable :: "shutdown \<Rightarrow> bool" where
  new: "sd_reachable (shutdown_new now)"
| step: "sd_reachable s \<Longrightarrow> shutdown_step t s s' \<Longrightarrow> sd_reachable s'"
| pass: "sd_reachable s \<Longrightarrow> 0 < d \<Longrightarrow> sd_reachable (s\<lparr>sd_now := sd_now s + d\<rparr>)"

section \<open>One call\<close>

text \<open>
  The flag decides, never the wakeup: a wait says shutdown only if a look found the
  flag set, and says no shutdown only after its time is up with the flag not set at any
  look; so a spurious wakeup can neither stop a worker nor shorten its sleep.
\<close>

lemma shutdown_flag_decides:
  assumes "shutdown_wait dur rounds = Some b"
  shows "\<exists>k < length rounds. snd (rounds ! k) = b \<and> (\<forall>j < k. \<not> snd (rounds ! j) \<and> fst (rounds ! j) \<le> dur) \<and>
    (\<not> b \<longrightarrow> dur < fst (rounds ! k))"
  using assms
proof (induction dur rounds rule: shutdown_wait.induct)
  case (2 dur elapsed flag rounds)
  show ?case
  proof (cases "flag \<or> dur < elapsed")
    case True
    with "2.prems" show ?thesis by (intro exI [of _ 0]) (auto split: if_splits)
  next
    case False
    with 2 obtain k where k: "k < length rounds" "snd (rounds ! k) = b"
      "\<forall>j < k. \<not> snd (rounds ! j) \<and> fst (rounds ! j) \<le> dur" "\<not> b \<longrightarrow> dur < fst (rounds ! k)" by auto
    with False show ?thesis by (intro exI [of _ "Suc k"]) (auto simp: nth_Cons split: nat.splits)
  qed
qed simp


lemma shutdown_wait_append:
  "shutdown_wait dur (xs @ ys) =
     (case shutdown_wait dur xs of Some b \<Rightarrow> Some b | None \<Rightarrow> shutdown_wait dur ys)"
  by (induction dur xs rule: shutdown_wait.induct) auto

section \<open>Invariants\<close>

named_theorems sd_defs \<open>the updates of the shutdown object\<close>

lemmas sd_update_defs [sd_defs] = move_def unlock_def take_lock_def see_def notify_all_def start_wait_def elapsed_of_def

definition in_section :: "sd_pc \<Rightarrow> bool" where
  "in_section p \<longleftrightarrow> (\<exists>dur. p = Looking dur) \<or> p = Setting \<or> p = Notifying"

lemma in_section_simps [simp]:
  "in_section (Looking dur)" "in_section Setting" "in_section Notifying"
  "\<not> in_section Outside" "\<not> in_section (WantWait dur)" "\<not> in_section (Asleep dur)" "\<not> in_section (Woken dur)"
  "\<not> in_section (Answer dur b)" "\<not> in_section WantLook" "\<not> in_section (Told b)" "\<not> in_section WantTrigger"
  by (simp_all add: in_section_def)

lemma notified_simps [simp]:
  "in_section (notified p) = in_section p" "notified p \<noteq> Asleep dur"
  "notified p = Notifying \<longleftrightarrow> p = Notifying" "notified p = Answer dur b \<longleftrightarrow> p = Answer dur b"
  by (cases p; simp add: notified_def)+

text \<open>The mutex excludes, and every thread that is parked will be notified once the flag is set.\<close>

definition sd_exclusive :: "shutdown \<Rightarrow> bool" where
  "sd_exclusive s \<longleftrightarrow> (\<forall>t. in_section (sd_pc s t) \<longleftrightarrow> sd_owner s = Some t)"

definition no_lost_wakeup :: "shutdown \<Rightarrow> bool" where
  "no_lost_wakeup s \<longleftrightarrow> sd_flag s \<and> (\<exists>t dur. sd_pc s t = Asleep dur) \<longrightarrow> (\<exists>t. sd_pc s t = Notifying)"

text \<open>What a thread has seen in its call, as the function over its looks.\<close>

definition call_state :: "sd_pc \<Rightarrow> (int \<times> bool) list \<Rightarrow> bool" where
  "call_state p looks \<longleftrightarrow>
     (case p of
        Looking dur \<Rightarrow> shutdown_wait dur looks = None
      | Asleep dur \<Rightarrow> shutdown_wait dur looks = None
      | Woken dur \<Rightarrow> shutdown_wait dur looks = None
      | Answer dur b \<Rightarrow> shutdown_wait dur looks = Some b
      | _ \<Rightarrow> True)"

definition calls_ok :: "shutdown \<Rightarrow> bool" where
  "calls_ok s \<longleftrightarrow> (\<forall>t. call_state (sd_pc s t) (sd_seen s t) \<and> (\<forall>dur. sd_pc s t = Answer dur True \<longrightarrow> sd_flag s))"

lemma step_exclusive: "shutdown_step t s s' \<Longrightarrow> sd_exclusive s \<Longrightarrow> sd_exclusive s'"
  by (induction rule: shutdown_step.induct) (force simp: sd_exclusive_def sd_defs)+

lemma exclusiveD: "sd_exclusive s \<Longrightarrow> in_section (sd_pc s t) \<Longrightarrow> in_section (sd_pc s u) \<Longrightarrow> t = u"
  by (auto simp: sd_exclusive_def)

lemma wakeup_move:
  assumes "no_lost_wakeup s" and "sd_flag s' = sd_flag s" and "\<And>u. u \<noteq> t \<Longrightarrow> sd_pc s' u = sd_pc s u"
    and "sd_pc s t \<noteq> Notifying" and "\<And>dur. sd_pc s' t = Asleep dur \<Longrightarrow> \<not> sd_flag s"
  shows "no_lost_wakeup s'"
  using assms unfolding no_lost_wakeup_def by metis

lemma step_wakeup:
  assumes "shutdown_step t s s'" and "no_lost_wakeup s"
  shows "no_lost_wakeup s'"
  using assms(1)
proof (cases rule: shutdown_step.cases)
  case trigger_notify
  then show ?thesis by (auto simp: no_lost_wakeup_def sd_defs split: if_splits)
next
  case trigger_set
  then show ?thesis by (auto simp: no_lost_wakeup_def sd_defs)
qed (rule wakeup_move [OF assms(2), where t = t]; simp add: sd_defs)+

lemma notified_call: "call_state (notified p) looks = call_state p looks"
  by (cases p) (simp_all add: notified_def call_state_def)

lemma calls_move:
  assumes "calls_ok s" and "\<And>u. u \<noteq> t \<Longrightarrow> sd_pc s' u = sd_pc s u \<and> sd_seen s' u = sd_seen s u"
    and "sd_flag s \<Longrightarrow> sd_flag s'" and "call_state (sd_pc s t) (sd_seen s t) \<Longrightarrow> call_state (sd_pc s' t) (sd_seen s' t)"
    and "\<And>dur. sd_pc s' t = Answer dur True \<Longrightarrow> sd_flag s'"
  shows "calls_ok s'"
  using assms unfolding calls_ok_def by metis

lemma step_calls:
  assumes "shutdown_step t s s'" and "calls_ok s"
  shows "calls_ok s'"
  using assms(1)
proof (cases rule: shutdown_step.cases)
  case trigger_notify
  with assms(2) show ?thesis by (auto simp: calls_ok_def sd_defs notified_call call_state_def [where p = Outside])
qed (rule calls_move [OF assms(2), where t = t]; simp add: sd_defs call_state_def shutdown_wait_append)+

text \<open>The invariants hold in every reachable state, and the flag is never reset.\<close>

definition sd_inv :: "shutdown \<Rightarrow> bool" where
  "sd_inv s \<longleftrightarrow> sd_exclusive s \<and> no_lost_wakeup s \<and> calls_ok s"

lemma reachable_sd_inv: "sd_reachable s \<Longrightarrow> sd_inv s"
proof (induction rule: sd_reachable.induct)
  case (new now)
  show ?case
    by (simp add: sd_inv_def sd_exclusive_def no_lost_wakeup_def calls_ok_def call_state_def shutdown_new_def)
next
  case (step s t s')
  then show ?case by (auto simp: sd_inv_def intro: step_exclusive step_wakeup step_calls)
next
  case (pass s d)
  then show ?case by (simp add: sd_inv_def sd_exclusive_def no_lost_wakeup_def calls_ok_def)
qed

lemma flag_stays: "shutdown_step t s s' \<Longrightarrow> sd_flag s \<Longrightarrow> sd_flag s'"
  by (induction rule: shutdown_step.induct) (simp_all add: sd_defs)

section \<open>After the trigger\<close>

text \<open>How many own steps a call still needs once the flag is set.\<close>

definition wait_rank :: "sd_pc \<Rightarrow> nat" where
  "wait_rank p = (case p of WantWait _ \<Rightarrow> 2 | Woken _ \<Rightarrow> 2 | Looking _ \<Rightarrow> 1 | _ \<Rightarrow> 0)"

definition waiting :: "sd_pc \<Rightarrow> int \<Rightarrow> bool" where
  "waiting p dur \<longleftrightarrow> p \<in> {WantWait dur, Looking dur, Asleep dur, Woken dur}"

definition sd_can_step :: "thread \<Rightarrow> shutdown \<Rightarrow> bool" where
  "sd_can_step t s \<longleftrightarrow> (\<exists>s'. shutdown_step t s s')"

lemma section_can_step: "in_section (sd_pc s t) \<Longrightarrow> sd_can_step t s"
  unfolding in_section_def sd_can_step_def by (blast intro: shutdown_step.intros)

lemma waiting_step:
  assumes "shutdown_step t s s'" and "waiting (sd_pc s t) dur" and "sd_flag s"
    and "\<nexists>d. sd_pc s t = Asleep d"
  shows "sd_pc s' t = Answer dur True \<or> waiting (sd_pc s' t) dur \<and> wait_rank (sd_pc s' t) < wait_rank (sd_pc s t)"
  using assms
  by (induction rule: shutdown_step.induct) (auto simp: waiting_def wait_rank_def sd_defs)

text \<open>
  C39.  The shutdown signal reaches every thread.  In every reachable state of any number of
  threads: a call of \<open>wait\<close> that has answered, answered what \<open>shutdown_wait\<close> gives on what it
  saw, and true only if the flag is set, so a spurious wakeup neither stops a thread nor
  shortens its sleep.  And no wakeup is lost: once \<open>trigger\<close> has set the flag and left its
  section, no thread is parked; every thread in a \<open>wait\<close> can step, or waits for the owner of
  the mutex, who can; and each of its own steps brings it closer to answering true, which
  it does after at most two.
\<close>

theorem shutdown_reaches_waiters:
  assumes "sd_reachable s"
  shows "(sd_pc s t = Answer dur b \<longrightarrow> shutdown_wait dur (sd_seen s t) = Some b \<and> (b \<longrightarrow> sd_flag s)) \<and>
    (sd_flag s \<and> (\<forall>u. sd_pc s u \<noteq> Notifying) \<and> waiting (sd_pc s t) dur \<longrightarrow>
      sd_pc s t \<noteq> Asleep dur \<and>
      (\<exists>u. sd_can_step u s \<and> (u = t \<or> sd_owner s = Some u)) \<and> wait_rank (sd_pc s t) \<le> 2 \<and>
      (\<forall>s'. shutdown_step t s s' \<longrightarrow> sd_flag s' \<and>
        (sd_pc s' t = Answer dur True \<or>
         waiting (sd_pc s' t) dur \<and> wait_rank (sd_pc s' t) < wait_rank (sd_pc s t))))"
proof -
  from reachable_sd_inv [OF assms] have inv: "sd_exclusive s" "no_lost_wakeup s" "calls_ok s"
    by (simp_all add: sd_inv_def)
  have answers: "shutdown_wait dur (sd_seen s t) = Some b \<and> (b \<longrightarrow> sd_flag s)" if "sd_pc s t = Answer dur b"
  proof -
    have "call_state (sd_pc s t) (sd_seen s t)" using inv(3) by (simp add: calls_ok_def)
    with that inv(3) show ?thesis by (cases b) (auto simp: calls_ok_def call_state_def)
  qed
  have awake: "\<nexists>d. sd_pc s t = Asleep d" if "sd_flag s" "\<forall>u. sd_pc s u \<noteq> Notifying"
    using inv(2) that by (auto simp: no_lost_wakeup_def)
  have progress: "\<exists>u. sd_can_step u s \<and> (u = t \<or> sd_owner s = Some u)"
    if w: "waiting (sd_pc s t) dur" "\<nexists>d. sd_pc s t = Asleep d"
  proof (cases "sd_owner s")
    case None
    with w show ?thesis unfolding waiting_def sd_can_step_def
      by (auto intro: shutdown_step.intros) (metis shutdown_step.intros)+
  next
    case (Some u)
    then have "in_section (sd_pc s u)" using inv(1) by (simp add: sd_exclusive_def)
    with Some show ?thesis using section_can_step by blast
  qed
  show ?thesis
    using answers awake progress waiting_step [of t s _ dur] flag_stays [of t s]
    by (auto simp: wait_rank_def split: sd_pc.split)
qed

text \<open>Thread 0 is parked for five time units when thread 1 triggers.\<close>

definition demo_parked :: shutdown where
  "demo_parked = move 0 (Asleep 5) (unlock (see 0 (move 0 (Looking 5) (start_wait 0 (take_lock 0
     (move 0 (WantWait 5) (shutdown_new 0)))))))"

definition demo_triggered :: shutdown where
  "demo_triggered = move 1 Outside (unlock (notify_all (move 1 Notifying
     ((move 1 Setting (take_lock 1 (move 1 WantTrigger demo_parked)))\<lparr>sd_flag := True\<rparr>))))"

lemma demo_triggered_reachable: "sd_reachable demo_triggered"
proof -
  have "sd_reachable (move 0 (WantWait 5) (shutdown_new 0))"
    by (rule sd_reachable.step [OF sd_reachable.new shutdown_step.wait_call]) (simp add: shutdown_new_def)
  then have "sd_reachable (move 0 (Looking 5) (start_wait 0 (take_lock 0 (move 0 (WantWait 5) (shutdown_new 0)))))"
    by (rule sd_reachable.step [OF _ shutdown_step.wait_lock]) (simp_all add: sd_defs shutdown_new_def)
  then have "sd_reachable demo_parked" unfolding demo_parked_def
    by (rule sd_reachable.step [OF _ shutdown_step.wait_sleep]) (simp_all add: sd_defs shutdown_new_def)
  then have "sd_reachable (move 1 WantTrigger demo_parked)"
    by (rule sd_reachable.step [OF _ shutdown_step.trigger_call]) (simp_all add: demo_parked_def sd_defs shutdown_new_def)
  then have "sd_reachable (move 1 Setting (take_lock 1 (move 1 WantTrigger demo_parked)))"
    by (rule sd_reachable.step [OF _ shutdown_step.trigger_lock]) (simp_all add: demo_parked_def sd_defs shutdown_new_def)
  then have "sd_reachable (move 1 Notifying
     ((move 1 Setting (take_lock 1 (move 1 WantTrigger demo_parked)))\<lparr>sd_flag := True\<rparr>))"
    by (rule sd_reachable.step [OF _ shutdown_step.trigger_set]) (simp_all add: sd_defs)
  then show ?thesis unfolding demo_triggered_def
    by (rule sd_reachable.step [OF _ shutdown_step.trigger_notify]) (simp_all add: sd_defs)
qed

lemma demo_triggered_pcs:
  "sd_flag demo_triggered" "sd_pc demo_triggered 0 = Woken 5" "sd_pc demo_triggered u \<noteq> Notifying"
  by (simp_all add: demo_triggered_def demo_parked_def sd_defs shutdown_new_def notified_def)

lemma demo_relocks: "shutdown_step 0 demo_triggered (move 0 (Looking 5) (take_lock 0 demo_triggered))"
  by (rule shutdown_step.wait_relock) (simp_all add: demo_triggered_pcs, simp add: demo_triggered_def sd_defs)

theorem shutdown_reaches_waiters_witness:
  "sd_reachable demo_triggered \<and> sd_pc demo_triggered 0 = Woken 5 \<and>
   (\<exists>u. sd_can_step u demo_triggered) \<and>
   (\<exists>s'. shutdown_step 0 demo_triggered s' \<and> sd_flag s' \<and> waiting (sd_pc s' 0) 5 \<and> wait_rank (sd_pc s' 0) < 2)"
proof -
  note now = shutdown_reaches_waiters [OF demo_triggered_reachable, where t = 0 and dur = 5]
  have "sd_pc (move 0 (Looking 5) (take_lock 0 demo_triggered)) 0 = Looking 5" by (simp add: sd_defs)
  then show ?thesis
    using now demo_triggered_reachable demo_triggered_pcs demo_relocks by (auto simp: waiting_def wait_rank_def)
qed

end
