(* ===== verification/Runtime.thy ===== *)
theory Runtime
  imports Workers Shutdown
begin

text \<open>
  The runtime around the workers: the loop of one worker (\<open>run_transport\<close>) and the watchdog
  of \<open>src/engine/mod.rs\<close>, the protocol of \<open>src/sdnotify.rs\<close> and the heartbeat of
  \<open>src/bin/nixnetd.rs\<close>; the shutdown signal is that of the theory \<open>Shutdown\<close>.  Loops run over what the clock and the other threads give them,
  round by round.  Instants and durations are in nanoseconds; \<open>rep\<close> says which instants
  \<open>checked_add\<close> can represent.
\<close>

section \<open>Definitions\<close>

subsection \<open>The loop of a worker\<close>

definition probe_interval :: "int \<Rightarrow> int" where
  "probe_interval interval_ms = (if interval_ms \<le> 0 then 3 * 1000000000 else interval_ms * 1000000)"

text \<open>
  One round: the clock at the top of the loop and what \<open>shutdown.wait\<close> says if it is
  called; the clock when the probe starts; and the clock after it, twice.
\<close>

record tick =
  tk_top :: int
  tk_shutdown :: bool
  tk_started :: int
  tk_fallback :: int
  tk_ended :: int

datatype worker_op = MarkStarted int | ProbeOnce | MarkIdle int

definition next_due :: "(int \<Rightarrow> bool) \<Rightarrow> int \<Rightarrow> int \<Rightarrow> tick \<Rightarrow> int" where
  "next_due rep interval due tk =
     (let d = (if rep (due + interval) then due + interval else tk_fallback tk)
      in if d < tk_ended tk then tk_ended tk else d)"

fun worker_loop :: "(int \<Rightarrow> bool) \<Rightarrow> int \<Rightarrow> int \<Rightarrow> tick list \<Rightarrow> worker_op list" where
  "worker_loop rep interval due [] = []"
| "worker_loop rep interval due (tk # tks) =
     (if tk_top tk < due \<and> tk_shutdown tk then []
      else
        (let due' = next_due rep interval due tk in
         MarkStarted (tk_started tk) # ProbeOnce # MarkIdle due' # worker_loop rep interval due' tks))"

subsection \<open>The watchdog\<close>

definition transport_live :: "(int \<Rightarrow> bool) \<Rightarrow> int \<Rightarrow> int \<Rightarrow> transport_runtime \<Rightarrow> bool" where
  "transport_live rep stall_limit now tr =
     (case tr_probe_started tr of
        Some started \<Rightarrow> max 0 (now - started) \<le> stall_limit
      | None \<Rightarrow>
          (case tr_next_due tr of
             None \<Rightarrow> False
           | Some due \<Rightarrow> rep (due + stall_limit) \<and> now \<le> due + stall_limit))"

definition watchdog_healthy ::
  "(int \<Rightarrow> bool) \<Rightarrow> bool \<Rightarrow> bool \<Rightarrow> int \<Rightarrow> int \<Rightarrow> engine_state \<Rightarrow> bool" where
  "watchdog_healthy rep initialized lock_taken stall_limit now st =
     (initialized \<and> \<not> lock_taken \<and>
      list_all (transport_live rep stall_limit now)
        (concat (map g_transports (hm_values (en_peers st) @ hm_values (en_uplinks st)))))"

subsection \<open>\<open>sd_notify\<close> and the heartbeat\<close>

datatype notify_target = NoSocket | AbstractName "8 word list" | SocketPath rstr

definition notify_target_of :: "rstr option \<Rightarrow> notify_target" where
  "notify_target_of socket_path =
     (case socket_path of
        None \<Rightarrow> NoSocket
      | Some v \<Rightarrow>
          if v = [] then NoSocket
          else (case strip_prefix (lit ''@'') v of
                  Some rest \<Rightarrow> AbstractName (utf8 rest)
                | None \<Rightarrow> SocketPath v))"

text \<open>\<open>notify_to\<close>: the errors of creating the socket, of the abstract name and of sending.\<close>

definition notify_to ::
  "rstr option \<Rightarrow> rstr option \<Rightarrow> rstr option \<Rightarrow> rstr option \<Rightarrow> rstr \<Rightarrow> rstr option \<times> (notify_target \<times> 8 word list) option" where
  "notify_to unbound name_error send_error socket_path state =
     (case notify_target_of socket_path of
        NoSocket \<Rightarrow> (None, None)
      | target \<Rightarrow>
          (case unbound of
             Some e \<Rightarrow> (Some e, None)
           | None \<Rightarrow>
               (case (case target of AbstractName _ \<Rightarrow> name_error | _ \<Rightarrow> None) of
                  Some e \<Rightarrow> (Some e, None)
                | None \<Rightarrow>
                    (case send_error of
                       Some e \<Rightarrow> (Some e, None)
                     | None \<Rightarrow> (None, Some (target, utf8 state))))))"

text \<open>\<open>str::parse::<i64>\<close>.\<close>

definition parse_i64 :: "rstr \<Rightarrow> int option" where
  "parse_i64 s =
     (case s of
        c # r \<Rightarrow>
          if c = 45 then
            (if r = [] then None
             else case digits_val 0 r of Some v \<Rightarrow> if - v \<ge> i64_min then Some (- v) else None | None \<Rightarrow> None)
          else parse_unsigned i64_max s
      | [] \<Rightarrow> None)"

definition parse_watchdog_usec :: "rstr option \<Rightarrow> int option" where
  "parse_watchdog_usec usec_str =
     do {
       s \<leftarrow> usec_str;
       if s = [] then None
       else do {
         usec \<leftarrow> parse_i64 s;
         if usec \<le> 0 then None else Some ((usec * 1000) div 2)
       }
     }"

text \<open>
  The heartbeat: each round is what \<open>shutdown.wait\<close> says, the verdict of the watchdog and
  the error of the notification.
\<close>

datatype beat = Withheld | Sent | SendFailed rstr

fun heartbeat :: "(bool \<times> (int \<Rightarrow> bool) \<times> rstr option) list \<Rightarrow> int \<Rightarrow> beat list" where
  "heartbeat [] stall_limit = []"
| "heartbeat ((woken, verdict, err) # rounds) stall_limit =
     (if woken then []
      else
        (if \<not> verdict stall_limit then Withheld
         else case err of None \<Rightarrow> Sent | Some e \<Rightarrow> SendFailed e) # heartbeat rounds stall_limit)"

text \<open>\<open>interval.checked_mul(2).unwrap_or(interval)\<close>; \<open>rep\<close> is the range of \<open>Duration\<close>.\<close>

definition stall_limit_of :: "(int \<Rightarrow> bool) \<Rightarrow> int \<Rightarrow> int" where
  "stall_limit_of rep interval = (if rep (interval * 2) then interval * 2 else interval)"

section \<open>The cadence\<close>

text \<open>The due times of the successive ticks.\<close>

fun due_times :: "(int \<Rightarrow> bool) \<Rightarrow> int \<Rightarrow> int \<Rightarrow> tick list \<Rightarrow> int list" where
  "due_times rep interval due [] = [due]"
| "due_times rep interval due (tk # tks) = due # due_times rep interval (next_due rep interval due tk) tks"

lemma due_times_nth:
  "k < length tks \<Longrightarrow> due_times rep interval due tks ! Suc k =
     next_due rep interval (due_times rep interval due tks ! k) (tks ! k)"
proof (induction tks arbitrary: due k)
  case (Cons tk tks)
  show ?case
  proof (cases k)
    case 0
    then show ?thesis by (cases tks) simp_all
  next
    case (Suc j)
    with Cons show ?thesis by simp
  qed
qed simp

lemma length_due_times [simp]: "length (due_times rep interval due tks) = Suc (length tks)"
  by (induction tks arbitrary: due) auto

lemma due_times_0 [simp]: "due_times rep interval due tks ! 0 = due"
  by (cases tks) simp_all



text \<open>The clock is monotone and every probe takes at least an interval.\<close>

fun overrunning :: "int \<Rightarrow> int \<Rightarrow> tick list \<Rightarrow> bool" where
  "overrunning interval clk [] = True"
| "overrunning interval clk (tk # tks) =
     (clk \<le> tk_top tk \<and> tk_top tk + interval \<le> tk_ended tk \<and> overrunning interval (tk_ended tk) tks)"

text \<open>
  A limit of the loop in the code: the shutdown is only looked at while the worker
  waits, and a worker whose probes take at least its interval never waits.  Such a worker
  runs on through any number of rounds with the shutdown requested in all of them, so
  \<open>run_with_ready\<close>, which joins it, does not return.
\<close>

lemma late_worker_misses_shutdown:
  assumes "\<And>x. rep x" and "overrunning interval start tks"
  shows "length (filter (\<lambda>x. x = ProbeOnce) (worker_loop rep interval start tks)) = length tks"
  using assms(2)
proof (induction tks arbitrary: start)
  case (Cons tk tks)
  then have "start \<le> tk_top tk" and "next_due rep interval start tk = tk_ended tk"
    and "overrunning interval (tk_ended tk) tks"
    by (auto simp: next_due_def assms(1) Let_def)
  with Cons.IH show ?case by (simp add: Let_def)
qed simp

theorem late_worker_misses_shutdown_witness:
  "length (filter (\<lambda>x. x = ProbeOnce) (worker_loop (\<lambda>_. True) 10 0
     [\<lparr>tk_top = 0, tk_shutdown = True, tk_started = 1, tk_fallback = 12, tk_ended = 12\<rparr>,
      \<lparr>tk_top = 12, tk_shutdown = True, tk_started = 13, tk_fallback = 24, tk_ended = 24\<rparr>])) = 2"
  using late_worker_misses_shutdown [of "\<lambda>_. True" 10 0
     "[\<lparr>tk_top = 0, tk_shutdown = True, tk_started = 1, tk_fallback = 12, tk_ended = 12\<rparr>,
      \<lparr>tk_top = 12, tk_shutdown = True, tk_started = 13, tk_fallback = 24, tk_ended = 24\<rparr>]"]
  by simp

text \<open>Whether the round that is due at \<open>due\<close> ends the loop.\<close>

definition stops_at :: "int \<Rightarrow> tick \<Rightarrow> bool" where
  "stops_at due tk \<longleftrightarrow> tk_top tk < due \<and> tk_shutdown tk"

text \<open>
  A worker that waits stops: it runs the rounds before the first one that begins ahead
  of its due time with the shutdown requested, each of them complete, and nothing after it.
\<close>

lemma worker_stops:
  assumes "k < length tks" and "stops_at (due_times rep interval due tks ! k) (tks ! k)"
    and "\<And>j. j < k \<Longrightarrow> \<not> stops_at (due_times rep interval due tks ! j) (tks ! j)"
  shows "worker_loop rep interval due tks =
    concat (map (\<lambda>j. [MarkStarted (tk_started (tks ! j)), ProbeOnce,
      MarkIdle (due_times rep interval due tks ! Suc j)]) [0 ..< k])"
  using assms
proof (induction tks arbitrary: due k)
  case (Cons tk tks)
  show ?case
  proof (cases k)
    case 0
    with Cons.prems(2) show ?thesis by (simp add: stops_at_def)
  next
    case (Suc m)
    let ?due = "next_due rep interval due tk"
    have go: "\<not> (tk_top tk < due \<and> tk_shutdown tk)" using Cons.prems(3) [of 0] Suc by (simp add: stops_at_def)
    have "worker_loop rep interval ?due tks =
      concat (map (\<lambda>j. [MarkStarted (tk_started (tks ! j)), ProbeOnce,
        MarkIdle (due_times rep interval ?due tks ! Suc j)]) [0 ..< m])"
    proof (rule Cons.IH)
      show "\<not> stops_at (due_times rep interval ?due tks ! j) (tks ! j)" if "j < m" for j
        using Cons.prems(3) [of "Suc j"] that Suc by simp
    qed (use Cons.prems(1,2) Suc in simp_all)
    moreover have "[0 ..< k] = 0 # map Suc [0 ..< m]" by (simp add: Suc map_Suc_upt upt_conv_Cons)
    ultimately show ?thesis using go by (simp add: Let_def comp_def)
  qed
qed simp

theorem worker_stops_witness:
  "worker_loop (\<lambda>_. True) 10 0
     [\<lparr>tk_top = 0, tk_shutdown = True, tk_started = 1, tk_fallback = 4, tk_ended = 4\<rparr>,
      \<lparr>tk_top = 4, tk_shutdown = True, tk_started = 5, tk_fallback = 6, tk_ended = 6\<rparr>] =
   [MarkStarted 1, ProbeOnce, MarkIdle 10]"
  using worker_stops [of 1 "[\<lparr>tk_top = 0, tk_shutdown = True, tk_started = 1, tk_fallback = 4, tk_ended = 4\<rparr>,
      \<lparr>tk_top = 4, tk_shutdown = True, tk_started = 5, tk_fallback = 6, tk_ended = 6\<rparr>]" "\<lambda>_. True" 10 0]
  by (simp add: stops_at_def next_due_def)

section \<open>The watchdog\<close>

text \<open>The clock marks of a transport; only the worker's own marks change them.\<close>

definition marks_of :: "engine_state \<Rightarrow> group_kind \<Rightarrow> rstr \<Rightarrow> nat \<Rightarrow> (int option \<times> int option) option" where
  "marks_of st k n i =
     do { g \<leftarrow> get_group st k n; tr \<leftarrow> nth_opt (g_transports g) i; Some (tr_probe_started tr, tr_next_due tr) }"

fun marks_other :: "group_kind \<Rightarrow> rstr \<Rightarrow> nat \<Rightarrow> event \<Rightarrow> bool" where
  "marks_other k n i (Started k' n' i' t) = ((k', n', i') \<noteq> (k, n, i))"
| "marks_other k n i (Idled k' n' i' t) = ((k', n', i') \<noteq> (k, n, i))"
| "marks_other k n i _ = True"

lemma marks_put:
  assumes "get_group st k' n' = Some g" and "length (g_transports g') = length (g_transports g)"
    and "\<And>j. j < length (g_transports g) \<Longrightarrow> (k', n', j) = (k, n, i) \<Longrightarrow>
      tr_probe_started (g_transports g' ! j) = tr_probe_started (g_transports g ! j) \<and>
      tr_next_due (g_transports g' ! j) = tr_next_due (g_transports g ! j)"
  shows "marks_of (put_group st k' n' g') k n i = marks_of st k n i"
  using assms by (auto simp: marks_of_def get_group_put nth_opt_def)

lemma marks_defined: "marks_of st k n i \<noteq> None \<longleftrightarrow> has_transport st k n i"
  by (auto simp: marks_of_def has_transport_def bind_eq_Some_conv nth_opt_def split: option.split)

lemma marks_error [simp]: "marks_of (st\<lparr>en_hosts_error := e\<rparr>) k n i = marks_of st k n i"
  by (simp add: marks_of_def)

lemma event_marks:
  assumes "engine_event st e = Some st'" and "state_inv st" and "marks_other k n i e"
  shows "marks_of st' k n i = marks_of st k n i"
proof (cases e)
  case (Decided k1 n1 t)
  with assms(1) obtain g1 g2 a lg where g1: "get_group st k1 n1 = Some g1"
    "decide_group t k1 n1 g1 = Some (g2, a, lg)" "st' = put_group st k1 n1 g2"
    by (auto simp: decide_action_def bind_eq_Some_conv)
  have "g_kind g1 = k1 \<and> winner_in_range g1"
    using state_sat_get [OF assms(2) g1(1)] by (simp add: group_inv_def)
  then have "g_transports g2 = g_transports g1" using decide_group_cases [OF g1(2)] by blast
  with g1 show ?thesis by (auto intro: marks_put)
next
  case (RoutesRecorded k1 n1 d p)
  with assms(1) obtain x where "reconcile_record k1 n1 d (RoutesPublished p) st = Some (st', x)" by auto
  from record_state [OF this] show ?thesis
  proof (elim disjE exE conjE)
    fix g1 err assume "get_group st k1 n1 = Some g1" "st' = put_group st k1 n1 (g1\<lparr>g_publish_error := err\<rparr>)"
    then show ?thesis by (auto intro: marks_put)
  qed simp_all
next
  case (HostsRecorded d r)
  with assms(1) show ?thesis by (auto simp: reconcile_record_def split: prod.splits)
next
  case (Observed k1 n1 j t r)
  with assms(1) obtain x where "probe_step k1 n1 j t r st = Some (st', x)" by auto
  then show ?thesis
    by (auto simp: probe_step_def Let_def bind_eq_Some_conv nth_opt_eq_Some nth_list_update intro!: marks_put)
qed (use assms(1,3) in \<open>auto simp: mark_started_def mark_idle_def bind_eq_Some_conv nth_opt_eq_Some
  nth_list_update intro!: marks_put\<close>)

lemma run_marks:
  assumes "state_inv st" and "list_all (marks_other k n i) es"
  shows "marks_of (run_events st es) k n i = marks_of st k n i"
  using assms
proof (induction es arbitrary: st)
  case (Cons e es)
  have "marks_of (engine_step st e) k n i = marks_of st k n i"
    using event_marks [of st e _ k n i] Cons.prems by (auto simp: engine_step_def split: option.split)
  moreover have "marks_of (run_events (engine_step st e) es) k n i = marks_of (engine_step st e) k n i"
    by (rule Cons.IH) (use Cons.prems in \<open>simp_all add: engine.step_inv\<close>)
  ultimately show ?case by (simp add: run_events_def)
qed (simp add: run_events_def)

lemma marks_started:
  "mark_started k n i t st = Some st' \<Longrightarrow> marks_of st' k n i = Some (Some t, None)"
  "mark_idle k n i t st = Some st' \<Longrightarrow> marks_of st' k n i = Some (None, Some t)"
  by (auto simp: mark_started_def mark_idle_def bind_eq_Some_conv nth_opt_eq_Some marks_of_def get_group_put)

lemma watchdog_live:
  assumes "watchdog_healthy rep init taken stall now st" and "marks_of st k n i = Some (started, due)"
  shows "case started of Some t \<Rightarrow> max 0 (now - t) \<le> stall
    | None \<Rightarrow> (case due of None \<Rightarrow> False | Some d \<Rightarrow> now \<le> d + stall)"
proof -
  obtain g tr where g: "get_group st k n = Some g" "nth_opt (g_transports g) i = Some tr"
    and tr: "tr_probe_started tr = started" "tr_next_due tr = due"
    using assms(2) by (auto simp: marks_of_def bind_eq_Some_conv)
  have "g \<in> set (hm_values (groups_of k st))"
    using g(1) by (force simp: get_group_def dest: map_of_SomeD)
  then have "g \<in> set (hm_values (en_peers st) @ hm_values (en_uplinks st))"
    by (cases k) (auto simp: groups_of_def)
  moreover have "tr \<in> set (g_transports g)" using g(2) by (auto simp: nth_opt_eq_Some)
  ultimately have "transport_live rep stall now tr"
    using assms(1) unfolding watchdog_healthy_def list_all_iff by auto
  then show ?thesis by (auto simp: transport_live_def tr split: option.splits)
qed

text \<open>
  If a worker began a probe at \<open>t\<close>, or went to wait until \<open>t\<close>, and has not marked anything
  since, whatever else the others did, the watchdog is healthy only up to the limit after \<open>t\<close>.
\<close>

lemma stalled_watchdog:
  assumes "state_inv st0" and "has_transport st0 k n i" and "e = Started k n i t \<or> e = Idled k n i t"
    and "list_all (marks_other k n i) es2"
    and "watchdog_healthy rep init taken stall now (run_events st0 (es1 @ e # es2))"
  shows "now \<le> t + stall"
proof -
  let ?st = "run_events st0 es1"
  have inv: "state_inv ?st" "cold_state ?st = cold_state st0" using run_events_inv [OF assms(1)] by simp_all
  have ok: "event_ok ?st e"
    using assms(2,3) event_ok_cold [of ?st e] event_ok_cold [of st0 e] inv(2) by auto
  with event_defined [OF inv(1)] obtain st' where st': "engine_event ?st e = Some st'" by blast
  have "run_events st0 (es1 @ e # es2) = run_events st' es2"
    using st' by (simp add: run_events_def engine_step_def)
  moreover have "marks_of (run_events st' es2) k n i = marks_of st' k n i"
    by (rule run_marks [OF engine_event_keeps(1) [OF st' inv(1)] assms(4)])
  moreover have "marks_of st' k n i = Some (if e = Started k n i t then (Some t, None) else (None, Some t))"
    using st' assms(3) marks_started by auto
  ultimately show ?thesis
    using watchdog_live [OF assms(5), of k n i] by (auto split: if_splits)
qed

section \<open>The protocol of the notifications\<close>

lemma parse_i64_show_nat: "parse_i64 (show_nat n) = (if int n \<le> i64_max then Some (int n) else None)"
proof (rule show_nat_Cons [of n])
  fix c cs
  assume c: "show_nat n = c # cs" "48 \<le> c" "c \<le> 57"
  then show ?thesis using digits_val_show_nat [of n] by (auto simp: parse_i64_def parse_unsigned_def)
qed

lemma watchdog_interval:
  "parse_watchdog_usec (Some (show_nat n)) =
     (if 0 < n \<and> int n \<le> i64_max then Some (int n * 1000 div 2) else None)"
  using show_nat_nonempty [of n] by (simp add: parse_watchdog_usec_def parse_i64_show_nat)

lemma stall_limit_bound: "0 \<le> interval \<Longrightarrow> stall_limit_of rep interval \<le> 2 * interval"
  by (simp add: stall_limit_of_def)

text \<open>One look of the heartbeat: woken, when, the state lock taken, the events, the error of sending.\<close>

type_synonym look = "bool \<times> int \<times> bool \<times> event list \<times> rstr option"

abbreviation watch :: "(int \<Rightarrow> bool) \<Rightarrow> engine_state \<Rightarrow> look list \<Rightarrow> (bool \<times> (int \<Rightarrow> bool) \<times> rstr option) list" where
  "watch rep st0 \<equiv> map (\<lambda>(woken, now, taken, es, err).
     (woken, \<lambda>limit. watchdog_healthy rep True taken limit now (run_events st0 es), err))"

lemma heartbeat_withheld:
  "(\<And>woken verdict err. (woken, verdict, err) \<in> set rounds \<Longrightarrow> \<not> verdict limit) \<Longrightarrow>
   set (heartbeat rounds limit) \<subseteq> {Withheld}"
  by (induction rounds limit rule: heartbeat.induct) auto

text \<open>
  C17.  A hung worker stops the heartbeat: with \<open>WATCHDOG_USEC\<close> set to \<open>n\<close>, if a worker began
  a probe at \<open>t\<close>, or went to wait until \<open>t\<close>, and marks nothing after it, then from \<open>n\<close>
  microseconds after \<open>t\<close> on no look of the heartbeat notifies systemd, whatever the other
  workers do; so systemd restarts the daemon.
\<close>

theorem hung_worker_stops_heartbeat:
  assumes "state_inv st0" and "has_transport st0 k n i" and "e = Started k n i t \<or> e = Idled k n i t"
    and "parse_watchdog_usec (Some (show_nat usec)) = Some interval"
    and "\<And>woken now taken es err. (woken, now, taken, es, err) \<in> set looks \<Longrightarrow>
      t + int usec * 1000 < now \<and> (\<exists>es1 es2. es = es1 @ e # es2 \<and> list_all (marks_other k n i) es2)"
  shows "set (heartbeat (watch rep st0 looks) (stall_limit_of rep interval)) \<subseteq> {Withheld}"
proof (rule heartbeat_withheld)
  fix woken verdict err
  assume "(woken, verdict, err) \<in> set (watch rep st0 looks)"
  then obtain now taken es where l: "(woken, now, taken, es, err) \<in> set looks"
    and v: "verdict = (\<lambda>limit. watchdog_healthy rep True taken limit now (run_events st0 es))" by auto
  from assms(5) [OF l] obtain es1 es2 where es: "es = es1 @ e # es2" "list_all (marks_other k n i) es2"
    and late: "t + int usec * 1000 < now" by blast
  have "0 < usec \<and> interval = int usec * 1000 div 2"
    using assms(4) by (auto simp: watchdog_interval split: if_splits)
  then have "stall_limit_of rep interval \<le> int usec * 1000"
    using stall_limit_bound [of interval rep] by linarith
  then show "\<not> verdict (stall_limit_of rep interval)"
    using stalled_watchdog [OF assms(1-3) es(2), of rep True taken "stall_limit_of rep interval" now es1] late
    unfolding v es(1) by force
qed

definition demo_alone :: group where
  "demo_alone = demo_group\<lparr>g_transports := [demo_runtime (lit ''lan'') (lit ''10.0.0.1'') 10 Up 5],
     g_winner := None, g_published := []\<rparr>"

lemma demo_alone_fields: "g_kind demo_alone = Peer" "group_inv demo_alone"
  "g_transports demo_alone = [demo_runtime (lit ''lan'') (lit ''10.0.0.1'') 10 Up 5]"
  by (simp_all add: demo_alone_def demo_group_fields group_inv_def winner_in_range_def)

theorem hung_worker_stops_heartbeat_witness:
  "set (heartbeat (watch (\<lambda>_. True) (state_with demo_alone) [(False, 20006, False, [Started Peer (lit ''h'') 0 5], None)])
     (stall_limit_of (\<lambda>_. True) 10000)) \<subseteq> {Withheld} \<and>
   heartbeat (watch (\<lambda>_. True) (state_with demo_alone) [(False, 20005, False, [Started Peer (lit ''h'') 0 5], None)])
     (stall_limit_of (\<lambda>_. True) 10000) = [Sent]"
proof
  show "set (heartbeat (watch (\<lambda>_. True) (state_with demo_alone) [(False, 20006, False, [Started Peer (lit ''h'') 0 5], None)])
     (stall_limit_of (\<lambda>_. True) 10000)) \<subseteq> {Withheld}"
  proof (rule hung_worker_stops_heartbeat [of _ Peer "lit ''h''" 0 "Started Peer (lit ''h'') 0 5" 5 20])
    show "parse_watchdog_usec (Some (show_nat 20)) = Some 10000"
      by (simp add: watchdog_interval i64_max_def)
    show "5 + int 20 * 1000 < now \<and> (\<exists>es1 es2. es = es1 @ Started Peer (lit ''h'') 0 5 # es2 \<and>
        list_all (marks_other Peer (lit ''h'') 0) es2)"
      if "(woken, now, taken, es, err) \<in> set [(False, 20006 :: int, False, [Started Peer (lit ''h'') 0 5], None :: rstr option)]"
      for woken now taken es err
      using that by (auto intro: exI [of _ "[]"])
  qed (simp_all add: demo_alone_fields has_transport_def)
  have "engine_step (state_with demo_alone) (Started Peer (lit ''h'') 0 5) = state_with (demo_alone\<lparr>g_transports :=
      [(demo_runtime (lit ''lan'') (lit ''10.0.0.1'') 10 Up 5)\<lparr>tr_probe_started := Some 5, tr_next_due := None\<rparr>]\<rparr>)"
    by (simp add: engine_step_def mark_started_def demo_alone_fields)
  then show "heartbeat (watch (\<lambda>_. True) (state_with demo_alone) [(False, 20005, False, [Started Peer (lit ''h'') 0 5], None)])
     (stall_limit_of (\<lambda>_. True) 10000) = [Sent]"
    by (simp add: run_events_def stall_limit_of_def watchdog_healthy_def state_with_def demo_alone_fields transport_live_def)
qed

end
