(* ===== verification/Startup.thy ===== *)
theory Startup
  imports Runtime
begin

text \<open>
  \<open>run_with_ready\<close> of \<open>src/engine/mod.rs\<close> around the workers: what it does before it spawns
  them and reports \<open>READY=1\<close>, and how it supervises them.
\<close>

section \<open>Definitions\<close>

definition mark_due :: "group_kind \<Rightarrow> rstr \<Rightarrow> nat \<Rightarrow> int \<Rightarrow> engine_state \<Rightarrow> engine_state option" where
  "mark_due k name i now st =
     do {
       g \<leftarrow> get_group st k name;
       tr \<leftarrow> nth_opt (g_transports g) i;
       Some (put_group st k name (g\<lparr>g_transports := (g_transports g)[i := tr\<lparr>tr_next_due := Some now\<rparr>]\<rparr>))
     }"

fun mark_all_due :: "int \<Rightarrow> worker list \<Rightarrow> engine_state \<Rightarrow> engine_state option" where
  "mark_all_due now [] st = Some st"
| "mark_all_due now ((k, n, i) # keys) st = do { st' \<leftarrow> mark_due k n i now st; mark_all_due now keys st' }"

text \<open>What \<open>run_with_ready\<close> does before it spawns the workers and calls \<open>ready\<close>.\<close>

definition startup ::
  "'w env \<Rightarrow> faults \<Rightarrow> int \<Rightarrow> int \<Rightarrow> engine_state \<times> 'w io \<Rightarrow> int option \<times> 8 word list disk_file option \<Rightarrow>
   ((engine_state \<times> 'w io) \<times> (int option \<times> 8 word list disk_file option) \<times> log_event list \<times> rstr option) option" where
  "startup env flt clk now s status =
     do {
       st1 \<leftarrow> mark_all_due clk (transport_keys (fst s)) (fst s);
       let (s2, lg1) = publish_restored_peers (ev_publishers env) now (st1, snd s);
       (s3, lg2) \<leftarrow> publish_restored_uplinks (ev_publishers env) s2;
       (status', err) \<leftarrow> write_status (ev_status env) flt True clk now (ev_ttl env) (fst s3) status;
       Some (s3, status', lg1 @ lg2, err)
     }"

text \<open>
  Supervision: each round is \<open>shutdown.is_set()\<close>, whether a worker has finished, and what
  the wait of 250 ms says.  The result says whether the loop itself triggered the shutdown
  because of a worker that is gone.
\<close>

fun supervise :: "(bool \<times> bool \<times> bool) list \<Rightarrow> bool option" where
  "supervise [] = None"
| "supervise ((is_set, finished, woken) # rounds) =
     (if is_set then Some False
      else if finished then Some True
      else if woken then Some False
      else supervise rounds)"

text \<open>Without any transport: waiting in periods of an hour.\<close>

fun idle_wait :: "bool list \<Rightarrow> bool option" where
  "idle_wait [] = None"
| "idle_wait (woken # rounds) = (if woken then Some False else idle_wait rounds)"

section \<open>What startup keeps\<close>

text \<open>What the publications leave of a state: the invariants, what is fixed, and the marks.\<close>

definition keeps_marks :: "engine_state \<Rightarrow> engine_state \<Rightarrow> bool" where
  "keeps_marks st st' \<longleftrightarrow> state_inv st' \<and> cold_state st' = cold_state st \<and> marks_of st' = marks_of st \<and>
     peer_views st' = peer_views st \<and> (state_clean st \<longrightarrow> state_clean st')"

lemma keeps_marks_trans: "keeps_marks a b \<Longrightarrow> keeps_marks b c \<Longrightarrow> keeps_marks a c"
  by (simp add: keeps_marks_def)

lemma keeps_marks_here: "state_inv st \<Longrightarrow> keeps_marks st st"
  by (simp add: keeps_marks_def)

lemma keeps_marks_error:
  "state_inv st \<Longrightarrow> keeps_marks st (st\<lparr>en_hosts_error := e\<rparr>)"
  "state_inv st \<Longrightarrow> get_group st k n = Some g \<Longrightarrow> keeps_marks st (put_group st k n (g\<lparr>g_publish_error := e\<rparr>))"
  by (auto simp: keeps_marks_def fun_eq_iff cold_group_def intro!: marks_put state_sat_put cold_state_put peer_views_put)

lemma restored_uplink_keeps:
  assumes "state_inv (fst s)" and "get_group (fst s) Uplink n \<noteq> None"
  shows "\<exists>s' lg. publish_restored_uplink pu n s = Some (s', lg) \<and> keeps_marks (fst s) (fst s')"
  using assms keeps_marks_error(2) [OF assms(1)]
  by (cases s) (auto simp: publish_restored_uplink_def Let_def keeps_marks_here split: prod.split)

lemma has_group_cold: "cold_state a = cold_state b \<Longrightarrow> (get_group a k n = None) = (get_group b k n = None)"
  using get_group_cold [of a k n] get_group_cold [of b k n] by auto

lemma restored_names_keep:
  assumes "state_inv (fst s)" and "\<And>n. n \<in> set ns \<Longrightarrow> get_group (fst s) Uplink n \<noteq> None"
  shows "\<exists>s' lg. publish_restored_names pu ns s = Some (s', lg) \<and> keeps_marks (fst s) (fst s')"
  using assms
proof (induction ns arbitrary: s)
  case (Cons n ns)
  from Cons.prems obtain s1 lg1 where 1: "publish_restored_uplink pu n s = Some (s1, lg1)"
    "keeps_marks (fst s) (fst s1)" using restored_uplink_keeps [of s n pu] by auto
  have "get_group (fst s1) Uplink m \<noteq> None" if "m \<in> set ns" for m
    using Cons.prems(2) [of m] that 1(2) has_group_cold [of "fst s1" "fst s" Uplink m] by (simp add: keeps_marks_def)
  with Cons.IH [of s1] 1(2) obtain s2 lg2 where "publish_restored_names pu ns s1 = Some (s2, lg2)"
    "keeps_marks (fst s1) (fst s2)" by (auto simp: keeps_marks_def)
  with 1 show ?case by (auto intro: keeps_marks_trans)
qed (simp add: keeps_marks_here)

lemma restored_uplinks_keep:
  assumes "state_inv (fst s)"
  shows "\<exists>s' lg. publish_restored_uplinks pu s = Some (s', lg) \<and> keeps_marks (fst s) (fst s')"
  unfolding publish_restored_uplinks_def
proof (rule restored_names_keep [OF assms])
  fix n assume "n \<in> set (map fst (en_uplinks (fst s)))"
  then show "get_group (fst s) Uplink n \<noteq> None"
    by (auto simp: get_group_def groups_of_def dom_map_of_conv_image_fst [symmetric] domIff)
qed

lemma restored_peers_keep:
  assumes "state_inv (fst s)"
  shows "keeps_marks (fst s) (fst (fst (publish_restored_peers pu now s)))"
  using assms
  by (auto simp: publish_restored_peers_def publish_peers_locked_def Let_def split_beta
      intro: keeps_marks_here keeps_marks_error)

lemma mark_due_marks:
  assumes "state_inv st" and "has_transport st k n i"
  shows "\<exists>st'. mark_due k n i now st = Some st' \<and> state_inv st' \<and> cold_state st' = cold_state st \<and>
    peer_views st' = peer_views st \<and> (state_clean st \<longrightarrow> state_clean st') \<and> marks_of st' = (marks_of st)(k := (marks_of st k)(n := (marks_of st k n)
      (i := map_option (\<lambda>(a, b). (a, Some now)) (marks_of st k n i))))"
proof -
  obtain g where g: "get_group st k n = Some g" "i < length (g_transports g)"
    using assms(2) by (auto simp: has_transport_def split: option.splits)
  let ?g = "g\<lparr>g_transports := (g_transports g)[i := (g_transports g ! i)\<lparr>tr_next_due := Some now\<rparr>]\<rparr>"
  have "mark_due k n i now st = Some (put_group st k n ?g)"
    using g by (simp add: mark_due_def nth_opt_def)
  moreover have "state_inv (put_group st k n ?g)" "cold_state (put_group st k n ?g) = cold_state st"
    using g assms(1) by (auto intro!: state_sat_put group_inv_transport cold_state_put cold_group_transport
        simp: cold_transport_def)
  moreover have "state_clean st \<longrightarrow> state_clean (put_group st k n ?g)"
    using g by (auto intro!: state_sat_put group_clean_transport)
  moreover have "peer_views (put_group st k n ?g) = peer_views st"
    using g by (auto intro!: peer_views_put)
  moreover have "marks_of (put_group st k n ?g) k' n' j = ((marks_of st)(k := (marks_of st k)(n := (marks_of st k n)
      (i := map_option (\<lambda>(a, b). (a, Some now)) (marks_of st k n i))))) k' n' j" for k' n' j
    using g by (auto simp: marks_of_def get_group_put nth_opt_def nth_list_update)
  ultimately show ?thesis by blast
qed

lemma mark_all_due_marks:
  assumes "state_inv st" and "\<And>k n i. (k, n, i) \<in> set keys \<Longrightarrow> has_transport st k n i"
  shows "\<exists>st'. mark_all_due now keys st = Some st' \<and> state_inv st' \<and> cold_state st' = cold_state st \<and>
    peer_views st' = peer_views st \<and> (state_clean st \<longrightarrow> state_clean st') \<and> (\<forall>k n i. marks_of st' k n i = (if (k, n, i) \<in> set keys
       then map_option (\<lambda>(a, b). (a, Some now)) (marks_of st k n i) else marks_of st k n i))"
  using assms
proof (induction keys arbitrary: st)
  case (Cons w keys)
  obtain k n i where w: "w = (k, n, i)" by (cases w)
  from mark_due_marks [OF Cons.prems(1), of k n i now] Cons.prems(2) obtain st1 where
    1: "mark_due k n i now st = Some st1" "state_inv st1" "cold_state st1 = cold_state st"
      "peer_views st1 = peer_views st" "state_clean st \<longrightarrow> state_clean st1"
      "marks_of st1 = (marks_of st)(k := (marks_of st k)(n := (marks_of st k n)
         (i := map_option (\<lambda>(a, b). (a, Some now)) (marks_of st k n i))))"
    unfolding w by auto
  have "has_transport st1 k' n' i'" if "(k', n', i') \<in> set keys" for k' n' i'
    using Cons.prems(2) [of k' n' i'] that event_ok_cold [of st1 "Started k' n' i' 0"]
      event_ok_cold [of st "Started k' n' i' 0"] 1(3) by simp
  with Cons.IH [of st1] 1(2) obtain st2 where
    2: "mark_all_due now keys st1 = Some st2" "state_inv st2" "cold_state st2 = cold_state st1"
      "peer_views st2 = peer_views st1" "state_clean st1 \<longrightarrow> state_clean st2"
      "\<And>k n i. marks_of st2 k n i = (if (k, n, i) \<in> set keys
       then map_option (\<lambda>(a, b). (a, Some now)) (marks_of st1 k n i) else marks_of st1 k n i)" by blast
  have "map_option (\<lambda>(a, b). (a, Some now)) (map_option (\<lambda>(a, b). (a, Some now)) m) =
    map_option (\<lambda>(a, b). (a, Some now)) m" for m :: "(int option \<times> int option) option"
    by (cases m) auto
  with 1 2 show ?case by (auto simp: w)
qed simp

text \<open>A fresh engine has no marks, and the watchdog is healthy when all are idle and due.\<close>

definition idle_group :: "group \<Rightarrow> bool" where
  "idle_group g \<longleftrightarrow> (\<forall>tr \<in> set (g_transports g). tr_probe_started tr = None)"

lemma engine_new_idle:
  assumes "hm_ok (c_peers c)" and "hm_ok (c_uplinks c)"
  shows "state_sat idle_group (fst (engine_new parse now now' f c))"
proof -
  have new: "state_sat idle_group (new_state c)"
    using assms unfolding state_sat_def new_state_def
    by (auto intro!: new_groups_sat simp: idle_group_def new_peer_group_def new_uplink_group_def
        new_runtimes_def new_runtime_def)
  have idle: "tr_probe_started (restore_transport pts tr) = tr_probe_started tr" for pts tr
    by (simp add: restore_transport_def Let_def split: option.split)
  have "idle_group (fst (restore_group n now pg g))" if "idle_group g" for n now pg g
    using that idle by (auto simp: idle_group_def restore_group_def Let_def split_beta expire_restored_fst)
  then show ?thesis
    using new by (cases rule: engine_new_cases [of parse now now' f c])
      (auto simp: state_sat_def intro!: restore_groups_sat)
qed

lemma idle_marks:
  "state_sat idle_group st \<Longrightarrow> marks_of st k n i = Some (a, b) \<Longrightarrow> a = None"
  by (auto simp: marks_of_def bind_eq_Some_conv nth_opt_eq_Some idle_group_def dest!: state_sat_get)

lemma watchdog_all_due:
  assumes "state_inv st" and "\<And>k n i a b. marks_of st k n i = Some (a, b) \<Longrightarrow> a = None \<and> b = Some clk"
    and "now \<le> clk + stall"
  shows "watchdog_healthy (\<lambda>_. True) True False stall now st"
proof -
  have live: "transport_live (\<lambda>_. True) stall now (g_transports g ! i)"
    if g: "g \<in> set (hm_values (groups_of k st))" "i < length (g_transports g)" for k g i
  proof -
    have "hm_ok (groups_of k st)" using assms(1) by (cases k) (simp_all add: state_sat_def groups_sat_def groups_of_def)
    with g(1) obtain n where "get_group st k n = Some g" by (auto simp: get_group_def hm_ok_def)
    with g(2) have "marks_of st k n i = Some (tr_probe_started (g_transports g ! i), tr_next_due (g_transports g ! i))"
      by (simp add: marks_of_def nth_opt_def)
    with assms(2) [OF this] assms(3) show ?thesis by (simp add: transport_live_def)
  qed
  have "transport_live (\<lambda>_. True) stall now tr"
    if "g \<in> set (hm_values (groups_of k st))" "tr \<in> set (g_transports g)" for k g tr
    using live [OF that(1)] that(2) by (auto simp: in_set_conv_nth)
  from this [of _ Peer] this [of _ Uplink] show ?thesis
    unfolding watchdog_healthy_def list_all_iff groups_of_def by fastforce
qed

text \<open>Startup as a whole, from any state of the invariant without a probe under way.\<close>

lemma startup_runs:
  assumes inv: "state_inv st0" and idle: "state_sat idle_group st0" and rep: "\<And>u. se_representable (ev_status env) u"
  shows "\<exists>st io status' lg err. startup env flt clk t (st0, io0) status = Some ((st, io), status', lg, err) \<and>
    state_inv st \<and> cold_state st = cold_state st0 \<and> peer_views st = peer_views st0 \<and> (state_clean st0 \<longrightarrow> state_clean st) \<and>
    (\<forall>at \<le> clk + stall. watchdog_healthy (\<lambda>_. True) True False stall at st)"
proof -
  obtain st1 where 1: "mark_all_due clk (transport_keys st0) st0 = Some st1" "state_inv st1"
    "cold_state st1 = cold_state st0" "peer_views st1 = peer_views st0" "state_clean st0 \<longrightarrow> state_clean st1"
    and m: "marks_of st1 k n i = (if (k, n, i) \<in> set (transport_keys st0)
       then map_option (\<lambda>(a, b). (a, Some clk)) (marks_of st0 k n i) else marks_of st0 k n i)" for k n i
    using mark_all_due_marks [OF inv, of "transport_keys st0" clk] transport_keys_iff [OF inv] by blast
  obtain s2 lg1 where 2: "publish_restored_peers (ev_publishers env) t (st1, io0) = (s2, lg1)" "keeps_marks st1 (fst s2)"
    using restored_peers_keep [of "(st1, io0)" "ev_publishers env" t] 1(2)
    by (cases "publish_restored_peers (ev_publishers env) t (st1, io0)") auto
  obtain st io lg2 where 3: "publish_restored_uplinks (ev_publishers env) s2 = Some ((st, io), lg2)" "keeps_marks (fst s2) st"
    using restored_uplinks_keep [of s2 "ev_publishers env"] 2(2) by (auto simp: keeps_marks_def)
  have k: "keeps_marks st1 st" by (rule keeps_marks_trans [OF 2(2) 3(2)])
  obtain r where "status_write (ev_status env) flt t (snapshot_of (se_fmt (ev_status env)) st) (ev_ttl env) (snd status) = Some r"
    by (simp add: status_write_def stamp_def rep Let_def)
  then obtain status' err where 4: "write_status (ev_status env) flt True clk t (ev_ttl env) st status = Some (status', err)"
    by (cases r; cases "fst r") (auto simp: write_status_def throttled_def)
  have "a = None \<and> b = Some clk" if "marks_of st k n i = Some (a, b)" for k n i a b
  proof -
    have "marks_of st1 k n i = Some (a, b)" using that k by (simp add: keeps_marks_def)
    moreover from this have "has_transport st0 k n i"
      using m [of k n i] marks_defined [of st0 k n i] by (cases "has_transport st0 k n i") (auto split: if_splits)
    ultimately show ?thesis
      using m [of k n i] idle_marks [OF idle] by (auto simp: transport_keys_iff [OF inv])
  qed
  then have "watchdog_healthy (\<lambda>_. True) True False stall at st" if "at \<le> clk + stall" for at
    using watchdog_all_due [of st clk at stall] that k by (simp add: keeps_marks_def)
  moreover have "startup env flt clk t (st0, io0) status = Some ((st, io), status', lg1 @ lg2, err)"
    using 1(1) 2(1) 3(1) 4 by (simp add: startup_def)
  moreover have "state_inv st" "cold_state st = cold_state st0" "peer_views st = peer_views st0"
    "state_clean st0 \<longrightarrow> state_clean st"
    using k 1(3-5) by (simp_all add: keeps_marks_def)
  ultimately show ?thesis by blast
qed



section \<open>The system of the workers\<close>

text \<open>What the workers are spawned on.\<close>

definition initial_sys ::
  "engine_state \<Rightarrow> 'w io \<Rightarrow> int option \<times> 8 word list disk_file option \<Rightarrow>
   int option \<times> 8 word list disk_file option \<Rightarrow> 'w sys" where
  "initial_sys st io store status =
     \<lparr>sy_history = [st], sy_io = io, sy_store = store, sy_saved = 0, sy_status = status, sy_shown = 0,
      sy_lock = (\<lambda>_. None), sy_pc = (\<lambda>w. if w \<in> set (transport_keys st) then Waiting else Gone)\<rparr>"

lemma initial_spawned: "state_inv st \<Longrightarrow> spawned (initial_sys st io store status)"
  by (simp add: spawned_def initial_sys_def)

lemma engine_of_initial [simp]: "engine_of (initial_sys st io store status) = st"
  by (simp add: engine_of_def initial_sys_def)

end
