(* ===== verification/Ctl.thy ===== *)
theory Ctl
  imports Status
begin

text \<open>
  \<open>src/bin/nixnetctl.rs\<close>, the reader of \<open>status.json\<close>: its arguments, its exit code and
  what it prints.  The arguments are those after the program's name; output is the list of
  the strings given to \<open>println!\<close> and \<open>eprintln!\<close>; a panic is \<open>None\<close>.
\<close>

section \<open>Definitions\<close>

datatype printed = Out rstr | Err rstr

datatype exit_code = SUCCESS | FAILURE | ExitFrom nat

abbreviation USAGE :: exit_code where "USAGE \<equiv> ExitFrom 2"

text \<open>\<open>parse_args\<close>, from the path and the flag so far; the value after the equals sign.\<close>

definition flag_value :: "rstr \<Rightarrow> rstr" where
  "flag_value s = (case split_once 61 s of Some (_, v) \<Rightarrow> v | None \<Rightarrow> [])"

definition is_help :: "rstr \<Rightarrow> bool" where
  "is_help arg \<longleftrightarrow> arg = lit ''-h'' \<or> arg = lit ''--help''"

fun ctl_args :: "rstr \<Rightarrow> bool \<Rightarrow> rstr list \<Rightarrow> (rstr \<times> exit_code) + (rstr \<times> bool)" where
  "ctl_args path as_json [] = Inr (path, as_json)"
| "ctl_args path as_json (arg # args) =
     (if arg = lit ''-status-file'' \<or> arg = lit ''--status-file'' then
        (case args of
           v # args' \<Rightarrow> ctl_args v as_json args'
         | [] \<Rightarrow> Inl (lit ''nixnetctl: -status-file requires a value'', USAGE))
      else if arg = lit ''-json'' \<or> arg = lit ''--json'' then ctl_args path True args
      else if is_help arg then Inl (lit ''usage: nixnetctl [-status-file PATH] [-json]'', SUCCESS)
      else if starts_with (lit ''-status-file='') arg \<or> starts_with (lit ''--status-file='') arg then
        ctl_args (flag_value arg) as_json args
      else Inl (lit ''nixnetctl: unknown flag '' @ arg, USAGE))"

definition or_dash :: "rstr \<Rightarrow> rstr" where
  "or_dash s = (if trim s = [] then lit ''-'' else s)"

text \<open>\<open>{:<n}\<close>.\<close>

definition pad_right :: "nat \<Rightarrow> rstr \<Rightarrow> rstr" where
  "pad_right n s = s @ replicate (n - length s) SP"

definition transport_line :: "rstr \<Rightarrow> status_transport \<Rightarrow> rstr" where
  "transport_line t tr =
     lit ''      '' @ pad_right 30 t @ [SP] @ pad_right 8 (ss_state tr) @ [SP] @ ss_detail tr"

definition group_line :: "rstr \<Rightarrow> status_group \<Rightarrow> rstr" where
  "group_line name g =
     lit ''  '' @ pad_right 20 name @
     lit '' winner='' @ pad_right 16 (if sg_winner g = [] then lit ''(none)'' else sg_winner g) @
     lit '' since='' @ or_dash (sg_since g) @
     (if sg_degraded g then lit ''  [DEGRADED]'' else [])"

text \<open>The loops over the sorted keys; indexing the map with a key it does not have is a panic.\<close>

fun print_transports :: "status_transport hmap \<Rightarrow> rstr list \<Rightarrow> printed list option" where
  "print_transports trs [] = Some []"
| "print_transports trs (t # ts) =
     do {
       tr \<leftarrow> hm_get trs t;
       rest \<leftarrow> print_transports trs ts;
       Some (Out (transport_line t tr) # rest)
     }"

fun print_names :: "status_group hmap \<Rightarrow> rstr list \<Rightarrow> printed list option" where
  "print_names groups [] = Some []"
| "print_names groups (name # names) =
     do {
       g \<leftarrow> hm_get groups name;
       trs \<leftarrow> print_transports (sg_transports g) (sort (map fst (sg_transports g)));
       rest \<leftarrow> print_names groups names;
       Some (Out (group_line name g) #
         (if sg_publish_error g = [] then []
          else [Out (lit ''      publication error: '' @ sg_publish_error g)]) @ trs @ rest)
     }"

definition print_groups :: "rstr \<Rightarrow> status_group hmap \<Rightarrow> printed list option" where
  "print_groups label groups =
     (if groups = [] then Some []
      else do {
        out \<leftarrow> print_names groups (sort (map fst groups));
        Some (Out ([NL] @ label @ lit '':'') # out)
      })"

record ctl_env =
  ce_status :: status_env
  ce_read :: "rstr \<Rightarrow> rstr + 8 word list"
  ce_pretty :: "snapshot \<Rightarrow> rstr + rstr"

definition DEFAULT_STATUS_PATH :: rstr where
  "DEFAULT_STATUS_PATH = lit ''/run/nixnet/status.json''"

definition ctl_report :: "ctl_env \<Rightarrow> int \<Rightarrow> bool \<Rightarrow> snapshot \<Rightarrow> (printed list \<times> exit_code) option" where
  "ctl_report ce now as_json snap =
     (let good = is_healthy_at (ce_status ce) now snap; code = (if good then SUCCESS else FAILURE) in
      if as_json then
        Some (case ce_pretty ce snap of
                Inr s \<Rightarrow> ([Out s], code)
              | Inl e \<Rightarrow> ([Err (lit ''nixnetctl: encoding status: '' @ e)], FAILURE))
      else
        do {
          peers \<leftarrow> print_groups (lit ''peers'') (sn_peers snap);
          uplinks \<leftarrow> print_groups (lit ''uplinks'') (sn_uplinks snap);
          Some ([Out (lit ''nixnet status as of '' @ sn_generated_at snap)] @
                (if sn_hosts_error snap = [] then []
                 else [Out (lit ''hosts publication error: '' @ sn_hosts_error snap)]) @
                peers @ uplinks @
                (if good then []
                 else [Err (lit ''nixnetctl: status is degraded, stale, or has a publication error'')]),
                code)
        })"

definition ctl_main :: "ctl_env \<Rightarrow> int \<Rightarrow> rstr list \<Rightarrow> (printed list \<times> exit_code) option" where
  "ctl_main ce now args =
     (case ctl_args DEFAULT_STATUS_PATH False args of
        Inl (line, code) \<Rightarrow> Some ([Err line], code)
      | Inr (path, as_json) \<Rightarrow>
          (case status_read (ce_status ce) (ce_read ce path) of
             Inl e \<Rightarrow>
               Some ([Err (lit ''nixnetctl: reading '' @ path @ lit '': '' @ e),
                      Err (lit ''nixnetctl: is nixnetd running? (systemctl status nixnetd)'')], FAILURE)
           | Inr snap \<Rightarrow> ctl_report ce now as_json snap))"

section \<open>Printing\<close>

text \<open>No key is missing, so printing does not panic.\<close>

lemma print_transports_some:
  "set ts \<subseteq> set (map fst trs) \<Longrightarrow> print_transports trs ts \<noteq> None"
  by (induction ts) (auto simp: dom_map_of_conv_image_fst [symmetric])

lemma print_names_some:
  "set ns \<subseteq> set (map fst gs) \<Longrightarrow> print_names gs ns \<noteq> None"
proof (induction ns)
  case (Cons n ns)
  then obtain g where g: "hm_get gs n = Some g" by (auto simp: dom_map_of_conv_image_fst [symmetric])
  have "print_transports (sg_transports g) (sort (map fst (sg_transports g))) \<noteq> None"
    by (rule print_transports_some) simp
  with g Cons show ?case by auto
qed simp

lemma print_groups_some: "print_groups label gs \<noteq> None"
  using print_names_some [of "sort (map fst gs)" gs] by (auto simp: print_groups_def)

text \<open>What is printed depends on the maps, not on the order in which they iterate.\<close>

definition same_map :: "('a \<Rightarrow> 'b \<Rightarrow> bool) \<Rightarrow> 'a hmap \<Rightarrow> 'b hmap \<Rightarrow> bool" where
  "same_map R a b \<longleftrightarrow> hm_ok a \<and> hm_ok b \<and> (\<forall>k. rel_option R (hm_get a k) (hm_get b k))"

definition same_group :: "status_group \<Rightarrow> status_group \<Rightarrow> bool" where
  "same_group g h \<longleftrightarrow> g\<lparr>sg_transports := []\<rparr> = h\<lparr>sg_transports := []\<rparr> \<and>
     same_map (=) (sg_transports g) (sg_transports h)"

lemma same_map_get:
  "same_map R a b \<Longrightarrow> hm_get a k = Some x \<Longrightarrow> \<exists>y. hm_get b k = Some y \<and> R x y"
  by (auto simp: same_map_def option_rel_Some1 dest: spec [of _ k])

lemma same_map_keys:
  assumes "same_map R a b"
  shows "sort (map fst a) = sort (map fst b)"
proof -
  have "hm_get a k = None \<longleftrightarrow> hm_get b k = None" for k
    using assms by (auto simp: same_map_def dest!: spec [of _ k])
  then have "set (map fst a) = set (map fst b)"
    by (auto simp: map_of_eq_None_iff)
  then show ?thesis
    using assms sorted_list_of_set_sort_remdups [of "map fst a"] sorted_list_of_set_sort_remdups [of "map fst b"]
    by (simp add: same_map_def hm_ok_def distinct_remdups_id)
qed

lemma print_transports_cong:
  "same_map (=) a b \<Longrightarrow> print_transports a ts = print_transports b ts"
proof -
  assume "same_map (=) a b"
  then have "map_of a = map_of b" by (auto simp: same_map_def option.rel_eq)
  then show ?thesis by (induction ts) auto
qed

lemma print_names_cong:
  assumes "same_map same_group a b"
  shows "print_names a ns = print_names b ns"
proof (induction ns)
  case (Cons n ns)
  show ?case
  proof (cases "hm_get a n")
    case None
    then have "hm_get b n = None" using assms by (auto simp: same_map_def dest!: spec [of _ n])
    with None show ?thesis by simp
  next
    case (Some g)
    then obtain h where h: "hm_get b n = Some h" "same_group g h" using same_map_get [OF assms] by blast
    then have "group_line n g = group_line n h" "sg_publish_error g = sg_publish_error h"
      by (cases g; cases h; simp add: same_group_def group_line_def)+
    moreover have "print_transports (sg_transports g) (sort (map fst (sg_transports g))) =
        print_transports (sg_transports h) (sort (map fst (sg_transports h)))"
      using h(2) same_map_keys print_transports_cong by (metis same_group_def)
    ultimately show ?thesis using Some h(1) Cons.IH by simp
  qed
qed simp

lemma print_groups_cong:
  assumes "same_map same_group a b"
  shows "print_groups lbl a = print_groups lbl b"
proof -
  have "a = [] \<longleftrightarrow> b = []" using same_map_keys [OF assms] by (metis length_map length_sort length_0_conv)
  then show ?thesis by (simp add: print_groups_def same_map_keys [OF assms] print_names_cong [OF assms])
qed

text \<open>The report does not depend on how the hash maps of the snapshot iterate.\<close>

lemma ball_values:
  "hm_ok m \<Longrightarrow> (\<forall>x \<in> set (hm_values m). P x) \<longleftrightarrow> (\<forall>k x. hm_get m k = Some x \<longrightarrow> P x)"
  by (auto simp: hm_ok_def map_of_eq_Some_iff)

lemma same_map_values:
  assumes "same_map R a b" and "\<And>x y. R x y \<Longrightarrow> P x = Q y"
  shows "(\<forall>x \<in> set (hm_values a). P x) \<longleftrightarrow> (\<forall>y \<in> set (hm_values b). Q y)"
proof -
  have r: "rel_option R (hm_get a k) (hm_get b k)" for k using assms(1) by (simp add: same_map_def)
  have "(\<forall>x. hm_get a k = Some x \<longrightarrow> P x) \<longleftrightarrow> (\<forall>y. hm_get b k = Some y \<longrightarrow> Q y)" for k
    using r [of k] assms(2) by (cases "hm_get a k"; cases "hm_get b k") auto
  moreover have "hm_ok a" "hm_ok b" using assms(1) by (simp_all add: same_map_def)
  ultimately show ?thesis by (simp only: ball_values)
qed

lemma report_order_irrelevant:
  assumes "same_map same_group (sn_peers a) (sn_peers b)" and "same_map same_group (sn_uplinks a) (sn_uplinks b)"
    and "a\<lparr>sn_peers := [], sn_uplinks := []\<rparr> = b\<lparr>sn_peers := [], sn_uplinks := []\<rparr>"
  shows "ctl_report ce now False a = ctl_report ce now False b"
proof -
  have g: "group_healthy g = group_healthy h" if "same_group g h" for g h
    using that by (cases g; cases h) (simp add: same_group_def group_healthy_def)
  have "is_healthy_at se now a = is_healthy_at se now b" for se
    using assms(3) same_map_values [of same_group _ _ group_healthy group_healthy, OF assms(1) g]
      same_map_values [of same_group _ _ group_healthy group_healthy, OF assms(2) g]
    by (cases a; cases b) (simp add: is_healthy_at_def)
  moreover have "sn_generated_at a = sn_generated_at b" "sn_hosts_error a = sn_hosts_error b"
    using assms(3) by (cases a; cases b; simp)+
  ultimately show ?thesis
    by (simp add: ctl_report_def print_groups_cong [OF assms(1)] print_groups_cong [OF assms(2)])
qed

section \<open>The verdict\<close>

text \<open>
  C14.  HEALTH, end to end: on a status file that the daemon wrote, \<open>nixnetctl\<close>, in either of
  its forms, does not panic and exits with success exactly when the file has not outlived
  its lifetime, the hosts file had no publish error, and every group had an elected
  transport and a published value, was not degraded and had no publish error; otherwise,
  and in any case once the daemon has been silent for the lifetime, it exits with failure.
\<close>

theorem ctl_verdict:
  assumes "state_inv st"
    and "status_write (ce_status ce) flt t0 (snapshot_of (se_fmt (ce_status ce)) st) ttl f = Some (None, Some file)"
    and "\<And>snap d. se_serialize (ce_status ce) snap = Inr d \<Longrightarrow> se_deserialize (ce_status ce) (d @ [of_int NL]) = Inr snap"
    and "\<And>t. se_representable (ce_status ce) t \<Longrightarrow>
      \<exists>s. se_fmt (ce_status ce) t = Some s \<and> se_parse_time (ce_status ce) s = Some t"
    and "ctl_args DEFAULT_STATUS_PATH False args = Inr (path, as_json)"
    and "ce_read ce path = Inr (f_data file)" and "\<And>snap. \<exists>s. ce_pretty ce snap = Inr s"
  shows "\<exists>out code. ctl_main ce now args = Some (out, code) \<and> code \<in> {SUCCESS, FAILURE} \<and>
    (code = SUCCESS \<longleftrightarrow>
       now \<le> t0 + nanos_of_ms (min ttl i64_max) \<and> en_hosts_error st = [] \<and>
       (\<forall>g \<in> set (hm_values (en_peers st) @ hm_values (en_uplinks st)). group_green g))"
proof -
  obtain snap where snap: "status_read (ce_status ce) (Inr (f_data file)) = Inr snap"
    and v: "is_healthy_at (ce_status ce) now snap \<longleftrightarrow>
       now \<le> t0 + nanos_of_ms (min ttl i64_max) \<and> en_hosts_error st = [] \<and>
       (\<forall>g \<in> set (hm_values (en_peers st) @ hm_values (en_uplinks st)). group_green g)"
    using written_verdict [OF assms(1-4)] by blast
  obtain s where "ce_pretty ce snap = Inr s" using assms(7) by blast
  then have "\<exists>out. ctl_report ce now as_json snap =
      Some (out, if is_healthy_at (ce_status ce) now snap then SUCCESS else FAILURE)"
    using print_groups_some [of "lit ''peers''" "sn_peers snap"]
      print_groups_some [of "lit ''uplinks''" "sn_uplinks snap"]
    by (auto simp: ctl_report_def Let_def)
  then obtain out where "ctl_main ce now args =
      Some (out, if is_healthy_at (ce_status ce) now snap then SUCCESS else FAILURE)"
    using snap by (auto simp: ctl_main_def assms(5,6))
  with v show ?thesis by auto
qed

definition demo_ctl :: ctl_env where
  "demo_ctl = \<lparr>ce_status = demo_se,
     ce_read = (\<lambda>p. if p = lit ''s'' then Inr [of_int NL] else Inl (lit ''no such file'')),
     ce_pretty = (\<lambda>_. Inr [])\<rparr>"

theorem ctl_verdict_witness:
  "(\<exists>out. ctl_main demo_ctl 15000000007 [lit ''--status-file=s''] = Some (out, SUCCESS)) \<and>
   (\<exists>out. ctl_main demo_ctl 15000000008 [lit ''-status-file'', lit ''s'', lit ''-json''] = Some (out, FAILURE))"
proof -
  have i: "state_inv empty_state" by (simp add: empty_state_def state_sat_def groups_sat_def hm_ok_def)
  have ser: "se_deserialize demo_se (d @ [of_int NL]) = Inr snap" if "se_serialize demo_se snap = Inr d" for snap d
    using that by (simp add: demo_se_def split: if_splits)
  have tim: "\<exists>s. se_fmt demo_se t = Some s \<and> se_parse_time demo_se s = Some t" for t
    by (simp add: demo_se_def parse_decimal_show_int)
  have st: "ce_status demo_ctl = demo_se" by (simp add: demo_ctl_def)
  have a: "ctl_args DEFAULT_STATUS_PATH False [lit ''--status-file=s''] = Inr (lit ''s'', False)"
    "ctl_args DEFAULT_STATUS_PATH False [lit ''-status-file'', lit ''s'', lit ''-json''] = Inr (lit ''s'', True)"
    by (simp_all add: is_help_def flag_value_def str_simps)
  have run: "\<exists>out code. ctl_main demo_ctl now args = Some (out, code) \<and> code \<in> {SUCCESS, FAILURE} \<and>
      (code = SUCCESS \<longleftrightarrow> now \<le> 7 + nanos_of_ms (min 15000 i64_max) \<and> en_hosts_error empty_state = [] \<and>
       (\<forall>g \<in> set (hm_values (en_peers empty_state) @ hm_values (en_uplinks empty_state)). group_green g))"
    if "ctl_args DEFAULT_STATUS_PATH False args = Inr (lit ''s'', json)" for args json now
  proof (rule ctl_verdict [OF i, of demo_ctl, unfolded st, OF demo_status_write _ _ that])
    show "ce_read demo_ctl (lit ''s'') = Inr (f_data \<lparr>f_data = [of_int NL], f_mode = 420\<rparr>)"
      by (simp add: demo_ctl_def)
    show "\<exists>s. ce_pretty demo_ctl snap = Inr s" for snap by (simp add: demo_ctl_def)
  qed (rule ser tim, assumption?)+
  show ?thesis
    using run [OF a(1), of 15000000007] run [OF a(2), of 15000000008]
    by (auto simp: nanos_of_ms_def i64_max_def empty_state_def)
qed

end
