(* ===== verification/Daemon.thy ===== *)
theory Daemon
  imports Runtime Ctl
begin

text \<open>
  \<open>src/bin/nixnetd.rs\<close>: the arguments, and what \<open>run\<close> does before and around the engine, in
  order, with the error of the first step that fails.  \<open>serde_json\<close> is a parameter, as are
  the answers of the operating system; the run of the engine itself is one step here and
  the subject of \<open>Workers\<close>, \<open>Runtime\<close> and \<open>Startup\<close>.
\<close>

section \<open>Definitions\<close>

fun daemon_args :: "rstr \<Rightarrow> rstr list \<Rightarrow> (rstr \<times> exit_code) + rstr" where
  "daemon_args path [] = Inr path"
| "daemon_args path (arg # args) =
     (if arg = lit ''-config'' \<or> arg = lit ''--config'' then
        (case args of
           v # args' \<Rightarrow> daemon_args v args'
         | [] \<Rightarrow> Inl (lit ''nixnetd: -config requires a value'', USAGE))
      else if is_help arg then Inl (lit ''usage: nixnetd [-config PATH]'', SUCCESS)
      else if starts_with (lit ''-config='') arg \<or> starts_with (lit ''--config='') arg then
        daemon_args (flag_value arg) args
      else Inl (lit ''nixnetd: unknown flag '' @ arg, USAGE))"

text \<open>
  \<open>Path::parent\<close> on the reversed text: the separators at the end, and the components \<open>.\<close>
  behind one, do not count.
\<close>

fun skip_junk :: "rstr \<Rightarrow> rstr" where
  "skip_junk (c # d # r) =
     (if c = 47 then skip_junk (d # r) else if c = 46 \<and> d = 47 then skip_junk (d # r) else c # d # r)"
| "skip_junk [c] = (if c = 47 then [] else [c])"
| "skip_junk [] = []"

definition path_parent :: "rstr \<Rightarrow> rstr option" where
  "path_parent p =
     (let r = skip_junk (rev p); rest = dropWhile (\<lambda>c. c \<noteq> 47) r; q = skip_junk rest in
      if r = [] then None
      else if rest = [] then Some []
      else if q = [] then Some (lit ''/'')
      else Some (rev q))"

datatype daemon_error =
    LoadingConfig config_error
  | CreatingStateDir rstr
  | CreatingRuntimeDir rstr
  | CreatingHostsDir rstr
  | InitializingHosts rstr
  | InstallingSignals rstr

datatype daemon_op =
    MakeDir rstr
  | ReadHosts rstr
  | NewEngine rstr
  | InstallSignals
  | SpawnHeartbeat int
  | LogStarting nat nat
  | RunEngine config hosts_publisher route_publisher rstr rstr

record daemon_env =
  de_read :: "rstr \<Rightarrow> rstr + rstr"
  de_from_str :: "rstr \<Rightarrow> rstr + config"
  de_make_dir :: "rstr \<Rightarrow> rstr option"
  de_hosts :: "rstr \<Rightarrow> read_result"
  de_signals :: "rstr option"
  de_watchdog_usec :: "rstr option"

text \<open>The directories, in the order in which they are created, and what a failure is called.\<close>

definition runtime_dir_of :: "config \<Rightarrow> rstr" where
  "runtime_dir_of c = lit ''/run/'' @ dm_runtime_dir (c_daemon c)"

definition state_path_of :: "config \<Rightarrow> rstr" where
  "state_path_of c = dm_state_dir (c_daemon c) @ lit ''/state.json''"

definition hosts_dir_of :: "config \<Rightarrow> rstr" where
  "hosts_dir_of c = (case path_parent (dm_hosts_file (c_daemon c)) of Some d \<Rightarrow> d | None \<Rightarrow> lit ''.'')"

definition daemon_dirs :: "config \<Rightarrow> (rstr \<times> (rstr \<Rightarrow> daemon_error)) list" where
  "daemon_dirs c =
     [(dm_state_dir (c_daemon c), CreatingStateDir), (runtime_dir_of c, CreatingRuntimeDir),
      (hosts_dir_of c, CreatingHostsDir)]"

fun make_dirs :: "daemon_env \<Rightarrow> (rstr \<times> (rstr \<Rightarrow> daemon_error)) list \<Rightarrow> daemon_op list \<times> daemon_error option" where
  "make_dirs de [] = ([], None)"
| "make_dirs de ((d, err) # ds) =
     (case de_make_dir de d of
        Some e \<Rightarrow> ([MakeDir d], Some (err e))
      | None \<Rightarrow> apfst ((#) (MakeDir d)) (make_dirs de ds))"

text \<open>
  From the publishers on, with the directories in place; \<open>NewEngine\<close> is \<open>Engine::new\<close>, which
  reads the state file and cannot fail.
\<close>

definition daemon_start :: "daemon_env \<Rightarrow> config \<Rightarrow> daemon_op list \<times> daemon_error option" where
  "daemon_start de c =
     (let hosts_file = dm_hosts_file (c_daemon c) in
      case hosts_new (de_hosts de hosts_file) of
        Inl e \<Rightarrow> ([ReadHosts hosts_file], Some (InitializingHosts e))
      | Inr hosts \<Rightarrow>
          (case de_signals de of
             Some e \<Rightarrow> ([ReadHosts hosts_file, NewEngine (state_path_of c), InstallSignals], Some (InstallingSignals e))
           | None \<Rightarrow>
               ([ReadHosts hosts_file, NewEngine (state_path_of c), InstallSignals] @
                (case parse_watchdog_usec (de_watchdog_usec de) of
                   Some interval \<Rightarrow> [SpawnHeartbeat interval]
                 | None \<Rightarrow> []) @
                [LogStarting (length (c_peers c)) (length (c_uplinks c)),
                 RunEngine c hosts (route_publisher_new (dm_ip_path (c_daemon c)))
                   (runtime_dir_of c @ lit ''/status.json'')
                   (state_path_of c)], None)))"

definition daemon_run :: "daemon_env \<Rightarrow> rstr \<Rightarrow> daemon_op list \<times> daemon_error option" where
  "daemon_run de path =
     (case config_load (de_read de) (de_from_str de) path of
        Inl e \<Rightarrow> ([], Some (LoadingConfig e))
      | Inr c \<Rightarrow>
          (case make_dirs de (daemon_dirs c) of
             (ops, Some e) \<Rightarrow> (ops, Some e)
           | (ops, None) \<Rightarrow> apfst ((@) ops) (daemon_start de c)))"

definition DEFAULT_CONFIG_PATH :: rstr where
  "DEFAULT_CONFIG_PATH = lit ''/etc/nixnet/config.json''"

text \<open>What is done, what is printed or logged, and the exit code.\<close>

definition daemon_main ::
  "daemon_env \<Rightarrow> rstr list \<Rightarrow> daemon_op list \<times> (rstr + daemon_error) option \<times> exit_code" where
  "daemon_main de args =
     (case daemon_args DEFAULT_CONFIG_PATH args of
        Inl (line, code) \<Rightarrow> ([], Some (Inl line), code)
      | Inr path \<Rightarrow>
          (case daemon_run de path of
             (ops, Some e) \<Rightarrow> (ops, Some (Inr e), FAILURE)
           | (ops, None) \<Rightarrow> (ops, None, SUCCESS)))"

section \<open>Lemmas\<close>

lemma path_parent_examples:
  "path_parent (lit ''/etc/hosts'') = Some (lit ''/etc'')"
  "path_parent (lit ''/hosts'') = Some (lit ''/'')"
  "path_parent (lit ''hosts'') = Some []"
  "path_parent (lit ''./hosts'') = Some (lit ''.'')"
  "path_parent (lit ''/run/nixnet//./hosts/'') = Some (lit ''/run/nixnet'')"
  "path_parent (lit ''/'') = None"
  "path_parent [] = None"
  by (simp_all add: path_parent_def Let_def str_simps)

lemma skip_junk_id: "c \<noteq> 46 \<Longrightarrow> c \<noteq> 47 \<Longrightarrow> skip_junk (c # r) = c # r"
  by (cases r) simp_all

text \<open>A file in a directory, neither name ending in a separator or a dot.\<close>

lemma path_parent_file:
  assumes "47 \<notin> set name" and "name \<noteq> []" and "last name \<noteq> 46"
    and "d \<noteq> []" and "last d \<noteq> 46" and "last d \<noteq> 47"
  shows "path_parent (d @ 47 # name) = Some d"
proof -
  have last_rev: "\<exists>c r. rev x = c # r \<and> c = last x" if "x \<noteq> []" for x :: rstr
    using that by (cases x rule: rev_cases) auto
  obtain c r where c: "rev name = c # r" "c = last name" using last_rev [OF assms(2)] by blast
  obtain e q where e: "rev d = e # q" "e = last d" using last_rev [OF assms(4)] by blast
  have "c \<noteq> 47" using assms(1) c by (metis last_in_set assms(2))
  then have "skip_junk (c # r @ 47 # rev d) = c # r @ 47 # rev d"
    using c(2) assms(3) by (intro skip_junk_id) auto
  moreover have r: "rev name @ 47 # rev d = c # r @ 47 # rev d" by (simp only: c(1) append_Cons)
  moreover have "rev (d @ 47 # name) = rev name @ 47 # rev d" by simp
  ultimately have 1: "skip_junk (rev (d @ 47 # name)) = rev name @ 47 # rev d" by metis
  have 2: "dropWhile (\<lambda>c. c \<noteq> 47) (rev name @ 47 # rev d) = 47 # rev d"
    using assms(1) by (subst dropWhile_append2) auto
  have 3: "skip_junk (47 # rev d) = rev d"
    unfolding e(1) using e(2) assms(5,6) by (simp add: skip_junk_id)
  show ?thesis using assms(2,4) by (simp only: path_parent_def Let_def 1 2 3) simp
qed

lemma make_dirs_ok:
  "snd (make_dirs de ds) = None \<longleftrightarrow> list_all (\<lambda>(d, _). de_make_dir de d = None) ds"
  "snd (make_dirs de ds) = None \<Longrightarrow> fst (make_dirs de ds) = map (\<lambda>(d, _). MakeDir d) ds"
  by (induction ds) (auto split: option.splits)

lemma make_dirs_no_engine: "RunEngine c h r sp st \<notin> set (fst (make_dirs de ds))"
  by (induction ds) (auto split: option.splits)

lemma config_load_ok:
  "config_load rd parse path = Inr c \<longleftrightarrow>
     (\<exists>data c0. rd path = Inr data \<and> parse data = Inr c0 \<and> c = apply_defaults c0 \<and> config_ok c)"
  by (auto simp: config_load_def Let_def validate_wf [symmetric] split: sum.splits option.splits)

text \<open>The steps of a start that goes through.\<close>

definition start_sequence :: "daemon_env \<Rightarrow> config \<Rightarrow> daemon_op list" where
  "start_sequence de c =
     [MakeDir (dm_state_dir (c_daemon c)), MakeDir (runtime_dir_of c), MakeDir (hosts_dir_of c),
      ReadHosts (dm_hosts_file (c_daemon c)), NewEngine (state_path_of c), InstallSignals] @
     map SpawnHeartbeat (case parse_watchdog_usec (de_watchdog_usec de) of Some i \<Rightarrow> [i] | None \<Rightarrow> []) @
     [LogStarting (length (c_peers c)) (length (c_uplinks c))]"

lemma daemon_start_ok:
  "snd (daemon_start de c) = None \<longleftrightarrow>
     (\<exists>h. hosts_new (de_hosts de (dm_hosts_file (c_daemon c))) = Inr h) \<and> de_signals de = None"
  "snd (daemon_start de c) = None \<Longrightarrow>
     \<exists>h. hosts_new (de_hosts de (dm_hosts_file (c_daemon c))) = Inr h \<and>
       map (\<lambda>(d, _). MakeDir d) (daemon_dirs c) @ fst (daemon_start de c) =
       start_sequence de c @ [RunEngine c h (route_publisher_new (dm_ip_path (c_daemon c)))
         (runtime_dir_of c @ lit ''/status.json'') (state_path_of c)]"
  "RunEngine c' h r sp st \<in> set (fst (daemon_start de c)) \<Longrightarrow> snd (daemon_start de c) = None"
  by (auto simp: daemon_start_def Let_def start_sequence_def daemon_dirs_def
      split: sum.splits option.splits)

text \<open>When \<open>nixnetd\<close> gets to run its engine, and on what.\<close>

definition engine_runs :: "daemon_env \<Rightarrow> rstr list \<Rightarrow> config \<Rightarrow> hosts_publisher \<Rightarrow> bool" where
  "engine_runs de args c h \<longleftrightarrow>
     (\<exists>path data c0. daemon_args DEFAULT_CONFIG_PATH args = Inr path \<and> de_read de path = Inr data \<and>
        de_from_str de data = Inr c0 \<and> c = apply_defaults c0) \<and> config_ok c \<and>
     list_all (\<lambda>(d, _). de_make_dir de d = None) (daemon_dirs c) \<and>
     hosts_new (de_hosts de (dm_hosts_file (c_daemon c))) = Inr h \<and> de_signals de = None"

lemma daemon_main_cases:
  obtains (usage) line code where "daemon_args DEFAULT_CONFIG_PATH args = Inl (line, code)"
      "daemon_main de args = ([], Some (Inl line), code)"
  | (fails) ops e path where "daemon_args DEFAULT_CONFIG_PATH args = Inr path"
      "daemon_main de args = (ops, Some (Inr e), FAILURE)"
      "\<And>c h r sp st. RunEngine c h r sp st \<notin> set ops" "\<And>c h. \<not> engine_runs de args c h"
  | (runs) c h path where "daemon_args DEFAULT_CONFIG_PATH args = Inr path" "engine_runs de args c h"
      "daemon_main de args = (start_sequence de c @ [RunEngine c h (route_publisher_new (dm_ip_path (c_daemon c)))
         (runtime_dir_of c @ lit ''/status.json'') (state_path_of c)], None, SUCCESS)"
proof (cases "daemon_args DEFAULT_CONFIG_PATH args")
  case (Inl a)
  then show ?thesis using usage by (cases a) (simp add: daemon_main_def)
next
  case (Inr path)
  show ?thesis
  proof (cases "config_load (de_read de) (de_from_str de) path")
    case (Inl e)
    then have "\<not> engine_runs de args c h" for c h
      using Inr config_load_ok [of "de_read de" "de_from_str de" path c] by (auto simp: engine_runs_def)
    with Inl Inr show ?thesis by (intro fails) (auto simp: daemon_main_def daemon_run_def)
  next
    case c: (Inr c)
    note load = c [unfolded config_load_ok]
    have only: "c' = c" if "engine_runs de args c' h" for c' h
      using that load Inr by (auto simp: engine_runs_def)
    show ?thesis
    proof (cases "snd (make_dirs de (daemon_dirs c)) = None \<and> snd (daemon_start de c) = None")
      case True
      then obtain h where h: "hosts_new (de_hosts de (dm_hosts_file (c_daemon c))) = Inr h"
        "map (\<lambda>(d, _). MakeDir d) (daemon_dirs c) @ fst (daemon_start de c) =
         start_sequence de c @ [RunEngine c h (route_publisher_new (dm_ip_path (c_daemon c)))
           (runtime_dir_of c @ lit ''/status.json'') (state_path_of c)]"
        using daemon_start_ok(2) by blast
      have "engine_runs de args c h"
        using True load Inr h(1) make_dirs_ok(1) daemon_start_ok(1) unfolding engine_runs_def by blast
      moreover have "daemon_main de args = (map (\<lambda>(d, _). MakeDir d) (daemon_dirs c) @ fst (daemon_start de c), None, SUCCESS)"
        using True make_dirs_ok(2) [of de "daemon_dirs c"] Inr c
        by (cases "make_dirs de (daemon_dirs c)"; cases "daemon_start de c")
          (simp add: daemon_main_def daemon_run_def)
      ultimately show ?thesis using runs Inr h(2) by metis
    next
      case False
      then have "\<not> engine_runs de args c' h" for c' h
        using only [of c' h] make_dirs_ok(1) daemon_start_ok(1) unfolding engine_runs_def by blast
      moreover obtain ops e where m: "daemon_main de args = (ops, Some (Inr e), FAILURE)"
        and ops: "set ops \<subseteq> set (fst (make_dirs de (daemon_dirs c))) \<union>
           (if snd (make_dirs de (daemon_dirs c)) = None then set (fst (daemon_start de c)) else {})"
        using False Inr c
        by (cases "make_dirs de (daemon_dirs c)"; cases "snd (make_dirs de (daemon_dirs c))"; cases "daemon_start de c")
          (auto simp: daemon_main_def daemon_run_def)
      moreover have "RunEngine c' h r sp st \<notin> set ops" for c' h r sp st
        using subsetD [OF ops, of "RunEngine c' h r sp st"] make_dirs_no_engine daemon_start_ok(3) [of c' h r sp st de c] False
        by (auto split: if_splits)
      ultimately show ?thesis using fails [OF Inr m] by blast
    qed
  qed
qed

section \<open>Properties\<close>

text \<open>
  C25.  The daemon fails closed: its engine runs exactly when the arguments name a readable
  file that parses, the configuration with the defaults applied is well-formed, the three
  directories exist, the hosts file could be read (or is absent) and the signal handlers
  are installed; it is then the last step, after exactly these in order, on that very
  configuration, with the static halves of the hosts file as it was.  The exit code is
  success exactly then, or when only the usage was asked for.
\<close>

theorem daemon_fails_closed:
  "(RunEngine c h r sp st \<in> set (fst (daemon_main de args)) \<longleftrightarrow>
      engine_runs de args c h \<and> r = route_publisher_new (dm_ip_path (c_daemon c)) \<and>
      sp = runtime_dir_of c @ lit ''/status.json'' \<and> st = state_path_of c \<and>
      fst (daemon_main de args) = start_sequence de c @ [RunEngine c h r sp st]) \<and>
   (snd (snd (daemon_main de args)) = SUCCESS \<longleftrightarrow>
      (\<exists>c h. engine_runs de args c h) \<or>
      (\<exists>line. daemon_args DEFAULT_CONFIG_PATH args = Inl (line, SUCCESS)))"
proof (cases rule: daemon_main_cases [of args de])
  case (usage line code)
  then have "\<not> engine_runs de args c h" for c h by (simp add: engine_runs_def)
  with usage show ?thesis by auto
next
  case (fails ops e path)
  then show ?thesis by auto
next
  case (runs c' h' path)
  have "c = c'" "h = h'" if "engine_runs de args c h"
    using that runs(2) by (auto simp: engine_runs_def)
  with runs show ?thesis by (auto simp: start_sequence_def)
qed

end
