(* ===== verification/Locked.thy ===== *)
theory Locked
  imports Reconcile
begin

text \<open>
  \<open>reconcile_locked\<close> of \<open>src/engine/mod.rs\<close>: decision and publication in one section of the
  state lock, as the unit tests of the engine call them.  The daemon itself runs
  \<open>reconcile\<close>, which lets go of the lock while it publishes.  When no other worker comes
  between, the two leave the same state, the same world and the same log, so what the tests
  observe of the one is true of the other.
\<close>

section \<open>Definitions\<close>

definition apply_action_locked ::
  "'w publishers \<Rightarrow> int \<Rightarrow> group_kind \<Rightarrow> rstr \<Rightarrow> action \<Rightarrow> engine_state \<times> 'w io \<Rightarrow>
   ((engine_state \<times> 'w io) \<times> log_event list) option" where
  "apply_action_locked pu now k name a s =
     (case a of
        NoAction \<Rightarrow> Some (s, [])
      | PublishPeers passive \<Rightarrow>
          if passive \<and> nothing_to_publish (fst s) then Some (s, [])
          else Some (publish_peers_locked pu now s)
      | PublishUplink rk base step \<Rightarrow>
          (case publish_routes pu (LogRouteReassert (group_label k name)) rk base step (snd s) of
             (out, io', lg1) \<Rightarrow>
               do {
                 g \<leftarrow> get_group (fst s) k name;
                 let (e, lg2) = log_publish_error (g_publish_error g) (what_routes k name) (pb_error out);
                 Some ((put_group (fst s) k name (g\<lparr>g_publish_error := e\<rparr>), io'), lg1 @ lg2)
               }))"

definition reconcile_locked ::
  "'w publishers \<Rightarrow> int \<Rightarrow> group_kind \<Rightarrow> rstr \<Rightarrow> engine_state \<times> 'w io \<Rightarrow>
   ((engine_state \<times> 'w io) \<times> log_event list) option" where
  "reconcile_locked pu now k name s =
     do {
       (st, a, lg1) \<leftarrow> decide_action now k name (fst s);
       (s', lg2) \<leftarrow> apply_action_locked pu now k name a (st, snd s);
       Some (s', lg1 @ lg2)
     }"

section \<open>The lock makes no difference to a worker on its own\<close>

lemma apply_action_sections:
  "apply_action_locked pu now k name a (st, io) =
     (let d = \<lparr>dc_action = a, dc_entries = (case a of PublishPeers _ \<Rightarrow> peer_entries (pu_fmt pu) st | _ \<Rightarrow> []),
              dc_empty = nothing_to_publish st, dc_changed = ch\<rparr>;
          (out, io', lg) = reconcile_publish pu now k name d io
      in map_option (\<lambda>(st', changed, lg'). ((st', io'), lg @ lg')) (reconcile_record k name d out st))"
  by (cases a) (auto simp: apply_action_locked_def reconcile_publish_def reconcile_record_def publish_peers_locked_def
      Let_def split_beta split: bind_split)

lemma decide_action_get:
  "decide_action now k name st = Some (st', a, lg) \<Longrightarrow> \<exists>g g'. get_group st k name = Some g \<and> get_group st' k name = Some g'"
  by (auto simp: decide_action_def get_group_def groups_of_def put_group_def hm_get_put
      split: bind_split_asm group_kind.split)

lemma reconcile_locked_eq:
  "reconcile_locked pu now k name s =
     map_option (\<lambda>(s', changed, lg). (s', lg)) (reconcile pu now k name s)"
proof (cases "decide_action now k name (fst s)")
  case None
  then show ?thesis
    by (simp add: reconcile_locked_def reconcile_def reconcile_decide_def split: bind_split)
next
  case (Some r)
  obtain st a lg where r: "r = (st, a, lg)" by (cases r)
  obtain g g' where g: "get_group (fst s) k name = Some g" "get_group st k name = Some g'"
    using decide_action_get Some r by blast
  show ?thesis
    by (simp add: reconcile_locked_def reconcile_def reconcile_decide_def Some r g Let_def split_beta
        apply_action_sections [where ch = "group_view g \<noteq> group_view g'"])
      (auto split: bind_split)
qed

end
