(* ===== verification/TestKit.thy ===== *)
theory TestKit
  imports Hosts Config
begin

text \<open>
  What the theories with the unit tests of the crate share: texts as the tests write them,
  the string predicates of the standard library that only the tests call, durations, and
  equations that let the simplifier compute decimal numerals and hashes without unary numbers.
\<close>

definition tab :: "char list \<Rightarrow> char list \<Rightarrow> rstr" where
  "tab a b = lit a @ [TAB] @ lit b"

text \<open>A text in which a backquote stands for a double quote.\<close>

definition quoted :: "char list \<Rightarrow> rstr" where
  "quoted s = map (\<lambda>c. if c = 96 then 34 else c) (lit s)"

definition contains :: "rstr \<Rightarrow> rstr \<Rightarrow> bool" where
  "contains s pat \<longleftrightarrow> break_on pat s \<noteq> None"

definition ends_with :: "rstr \<Rightarrow> rstr \<Rightarrow> bool" where
  "ends_with s suf \<longleftrightarrow> starts_with (rev suf) (rev s)"

text \<open>\<open>Default::default()\<close> of the structs of the configuration.\<close>

definition probe_default :: probe where
  "probe_default = \<lparr>p_method = [], p_target = [], p_port = 0, p_path = [], p_bind_to_interface = False,
     p_interval_ms = 0, p_timeout_ms = 0, p_up_threshold = 0, p_down_threshold = 0, p_exec = []\<rparr>"

definition transport_default :: transport where
  "transport_default = \<lparr>t_ident = [], t_address = [], t_interface = [], t_priority = 0, t_provider_id = [],
     t_probe = probe_default\<rparr>"

definition ms :: "int \<Rightarrow> int" where
  "ms n = n * 1000000"

definition secs :: "int \<Rightarrow> int" where
  "secs n = n * 1000000000"

function int_digits :: "int \<Rightarrow> rstr" where
  "int_digits i = (if i < 10 then [48 + i] else int_digits (i div 10) @ [48 + i mod 10])"
  by pat_completeness auto
termination by (relation "measure nat") auto

declare int_digits.simps [simp del]

lemma show_nat_int_digits: "0 \<le> i \<Longrightarrow> show_nat (nat i) = int_digits i"
proof (induction i rule: int_digits.induct)
  case (1 i)
  then show ?case
    by (subst show_nat.simps, subst int_digits.simps) (auto simp: nat_div_distrib nat_mod_distrib zmod_int)
qed

lemma show_int_code [code]: "show_int i = (if i < 0 then lit ''-'' @ int_digits (- i) else int_digits i)"
  by (simp add: show_int_def show_nat_int_digits)

text \<open>An equation for the hash of the stable transport identities over integers.\<close>

unbundle bit_operations_syntax

fun fnv_int :: "int \<Rightarrow> 8 word list \<Rightarrow> int" where
  "fnv_int h [] = h"
| "fnv_int h (b # bs) = fnv_int (((h XOR uint b) * 0x100000001b3) mod 18446744073709551616) bs"

lemma fnv_step:
  "uint ((h XOR ucast (b :: 8 word)) * 0x100000001b3 :: 64 word) =
     ((uint h XOR uint b) * 0x100000001b3) mod 18446744073709551616"
proof -
  have "take_bit 64 (uint b) = uint b" using uint_bounded [of b] by (intro take_bit_int_eq_self) simp_all
  then show ?thesis by (simp add: unsigned_xor_eq unsigned_ucast_eq uint_word_ariths)
qed

lemma fnv_int_uint: "uint (foldl (\<lambda>h b. (h XOR ucast b) * 0x100000001b3) h (bs :: 8 word list) :: 64 word) = fnv_int (uint h) bs"
  by (induction bs arbitrary: h) (simp_all only: foldl.simps fnv_int.simps fnv_step)

lemma fnv1a_code [code]: "fnv1a bs = word_of_int (fnv_int 0xcbf29ce484222325 bs)"
proof -
  have "uint (0xcbf29ce484222325 :: 64 word) = 0xcbf29ce484222325" by simp
  then show ?thesis using fnv_int_uint [of "0xcbf29ce484222325" bs] unfolding fnv1a_def by (metis word_of_int_uint)
qed

end
