(* ===== verification/HostsTests.thy ===== *)
theory HostsTests
  imports TestKit
begin

text \<open>
  The unit tests of \<open>src/publish/hosts.rs\<close>, evaluated on the model: each definition is the
  assertion of the test of that name on the test's own data, and its lemma says that the model
  passes it.  A temporary directory is a \<open>hosts_fs\<close> without faults; the inode of the file
  changes exactly when \<open>publish\<close> says that it wrote, so an assertion on it is one on that.
\<close>

definition test_entry :: "char list \<Rightarrow> char list list \<Rightarrow> char list option \<Rightarrow> entry" where
  "test_entry a ns c = \<lparr>e_address = lit a, e_hostnames = map lit ns, e_confirmed_at = map_option lit c\<rparr>"

definition dir_with :: "rstr \<Rightarrow> hosts_fs" where
  "dir_with content =
     \<lparr>hf_file = Some \<lparr>f_data = content, f_mode = TEMPFILE_MODE\<rparr>, hf_read_fault = None, hf_faults = no_faults\<rparr>"

definition publisher_on :: "hosts_fs \<Rightarrow> hosts_publisher" where
  "publisher_on fs = (case hosts_new (hosts_read fs) of Inr hp \<Rightarrow> hp | Inl _ \<Rightarrow> \<lparr>hp_static_prefix = [], hp_static_suffix = []\<rparr>)"

definition content_of :: "hosts_fs \<Rightarrow> rstr" where
  "content_of fs = (case hf_file fs of Some f \<Rightarrow> f_data f | None \<Rightarrow> [])"

section \<open>\<open>split_static\<close>\<close>

definition split_static_no_marker_keeps_whole_file :: bool where
  "split_static_no_marker_keeps_whole_file \<longleftrightarrow>
     (let c = unlines [lit ''127.0.0.1 localhost'', lit ''::1 localhost''] in split_static c = (c, [], False))"

lemma test_split_static_no_marker_keeps_whole_file: split_static_no_marker_keeps_whole_file
  by code_simp

definition split_static_keeps_the_content_on_both_sides_of_the_block :: bool where
  "split_static_keeps_the_content_on_both_sides_of_the_block \<longleftrightarrow>
     split_static (unlines [lit ''static line 1'', lit ''static line 2'', [], [], lit ''# BEGIN nixnet'', tab ''1.2.3.4'' ''foo'',
       lit ''# END nixnet'', tab ''192.0.2.7'' ''build-cache'']) =
     (unlines [lit ''static line 1'', lit ''static line 2''], unlines [tab ''192.0.2.7'' ''build-cache''], True)"

lemma test_split_static_keeps_the_content_on_both_sides_of_the_block: split_static_keeps_the_content_on_both_sides_of_the_block
  by code_simp

definition split_static_ignores_an_end_marker_that_precedes_the_block :: bool where
  "split_static_ignores_an_end_marker_that_precedes_the_block \<longleftrightarrow>
     split_static (unlines [lit ''# END nixnet'', lit ''# BEGIN nixnet'', tab ''1.2.3.4'' ''foo'', lit ''# END nixnet'',
       lit ''after'']) =
     (unlines [lit ''# END nixnet''], unlines [lit ''after''], True)"

lemma test_split_static_ignores_an_end_marker_that_precedes_the_block:
  split_static_ignores_an_end_marker_that_precedes_the_block
  by code_simp

definition split_static_carries_nothing_over_from_an_unterminated_block :: bool where
  "split_static_carries_nothing_over_from_an_unterminated_block \<longleftrightarrow>
     split_static (unlines [lit ''static'', lit ''# BEGIN nixnet'', tab ''1.2.3.4'' ''foo'']) = (unlines [lit ''static''], [], True)"

lemma test_split_static_carries_nothing_over_from_an_unterminated_block:
  split_static_carries_nothing_over_from_an_unterminated_block
  by code_simp

section \<open>\<open>publish\<close>\<close>

definition publish_sorts_by_address_and_writes_marker_block :: bool where
  "publish_sorts_by_address_and_writes_marker_block \<longleftrightarrow>
     (let fs = dir_with (unlines [lit ''# static'']);
          es = [test_entry ''10.0.0.2'' [''b''] None,
                test_entry ''10.0.0.1'' [''a'', ''a.example.com''] (Some ''2026-08-04T10:00:00Z'')];
          (res, fs') = hosts_publish (publisher_on fs) (lit ''2026-08-04T10:00:01Z'') es fs;
          ls = lines (content_of fs')
      in res = Inr True \<and> starts_with (lit ''# nixnet written='') (ls ! 2) \<and>
         unlines (take 2 ls @ drop 3 ls) =
           unlines [lit ''# static'', lit ''# BEGIN nixnet'', lit ''# nixnet 10.0.0.1 confirmed=2026-08-04T10:00:00Z'',
             tab ''10.0.0.1'' ''a a.example.com'', tab ''10.0.0.2'' ''b'', lit ''# END nixnet''] \<and>
         map_option f_mode (hf_file fs') = Some (6 * 64 + 4 * 8 + 4))"

lemma test_publish_sorts_by_address_and_writes_marker_block: publish_sorts_by_address_and_writes_marker_block
  by code_simp

definition republishing_identical_entries_does_not_touch_the_file :: bool where
  "republishing_identical_entries_does_not_touch_the_file \<longleftrightarrow>
     (let fs = dir_with (unlines [lit ''# static'']); hp = publisher_on fs;
          entries = (\<lambda>confirmed. [test_entry ''10.0.0.1'' [''a''] (Some confirmed)]);
          (r1, fs1) = hosts_publish hp (lit ''2026-08-04T10:00:01Z'') (entries ''2026-08-04T10:00:00Z'') fs;
          (r2, fs2) = hosts_publish hp (lit ''2026-08-04T10:00:04Z'') (entries ''2026-08-04T10:00:03Z'') fs1;
          (r3, fs3) = hosts_publish hp (lit ''2026-08-04T10:00:07Z'') [test_entry ''10.0.0.9'' [''a''] None] fs2
      in r1 = Inr True \<and> r2 = Inr False \<and> hf_file fs2 = hf_file fs1 \<and> r3 = Inr True \<and>
         hf_file fs3 \<noteq> hf_file fs1 \<and> contains (content_of fs3) (lit ''10.0.0.9''))"

lemma test_republishing_identical_entries_does_not_touch_the_file: republishing_identical_entries_does_not_touch_the_file
  by code_simp

definition a_line_added_outside_the_markers_survives_the_next_publication :: bool where
  "a_line_added_outside_the_markers_survives_the_next_publication \<longleftrightarrow>
     (let fs = dir_with (unlines [lit ''# static'']); hp = publisher_on fs;
          es = [test_entry ''10.0.0.1'' [''a''] None];
          (r1, fs1) = hosts_publish hp (lit ''2026-08-04T10:00:01Z'') es fs;
          edited = unlines [lit ''# static'', tab ''192.0.2.7'' ''foreign''] @ drop 9 (content_of fs1);
          (r2, fs2) = hosts_publish hp (lit ''2026-08-04T10:00:04Z'') es (dir_with edited)
      in take 9 (content_of fs1) = unlines [lit ''# static''] \<and> r2 = Inr False \<and>
         contains (content_of fs2) (tab ''192.0.2.7'' ''foreign'') \<and>
         contains (content_of fs2) (tab ''10.0.0.1'' ''a''))"

lemma test_a_line_added_outside_the_markers_survives_the_next_publication:
  a_line_added_outside_the_markers_survives_the_next_publication
  by code_simp

definition a_line_appended_after_the_end_marker_survives_the_next_publication :: bool where
  "a_line_appended_after_the_end_marker_survives_the_next_publication \<longleftrightarrow>
     (let fs = dir_with (unlines [lit ''# static'']); hp = publisher_on fs;
          es = [test_entry ''10.0.0.1'' [''a''] None];
          (r1, fs1) = hosts_publish hp (lit ''2026-08-04T10:00:01Z'') es fs;
          fs1' = dir_with (content_of fs1 @ unlines [tab ''192.0.2.7'' ''build-cache'']);
          (r2, fs2) = hosts_publish hp (lit ''2026-08-04T10:00:04Z'') es fs1';
          (r3, fs3) = hosts_publish hp (lit ''2026-08-04T10:00:07Z'') [test_entry ''10.0.0.9'' [''a''] None] fs2
      in ends_with (content_of fs1) (unlines [lit ''# END nixnet'']) \<and> r2 = Inr False \<and> hf_file fs2 = hf_file fs1' \<and>
         r3 = Inr True \<and> contains (content_of fs3) (tab ''192.0.2.7'' ''build-cache'') \<and>
         contains (content_of fs3) (tab ''10.0.0.9'' ''a'') \<and>
         ends_with (content_of fs3) (unlines [tab ''192.0.2.7'' ''build-cache'']))"

lemma test_a_line_appended_after_the_end_marker_survives_the_next_publication:
  a_line_appended_after_the_end_marker_survives_the_next_publication
  by code_simp

definition new_hosts_publisher_on_missing_file_has_empty_prefix_and_suffix :: bool where
  "new_hosts_publisher_on_missing_file_has_empty_prefix_and_suffix \<longleftrightarrow>
     (let hp = publisher_on \<lparr>hf_file = None, hf_read_fault = None, hf_faults = no_faults\<rparr>
      in hp_static_prefix hp = [] \<and> hp_static_suffix hp = [])"

lemma test_new_hosts_publisher_on_missing_file_has_empty_prefix_and_suffix:
  new_hosts_publisher_on_missing_file_has_empty_prefix_and_suffix
  by code_simp

definition a_vanished_file_is_restored_with_both_static_halves :: bool where
  "a_vanished_file_is_restored_with_both_static_halves \<longleftrightarrow>
     (let fs = dir_with (unlines [lit ''# static'', lit ''# BEGIN nixnet'', tab ''10.0.0.1'' ''a'', lit ''# END nixnet'',
            tab ''192.0.2.7'' ''build-cache'']);
          (r, fs') = hosts_publish (publisher_on fs) (lit ''2026-08-04T10:00:01Z'') [test_entry ''10.0.0.1'' [''a''] None]
            (fs\<lparr>hf_file := None\<rparr>)
      in r = Inr True \<and> starts_with (unlines [lit ''# static'']) (content_of fs') \<and>
         ends_with (content_of fs') (unlines [tab ''192.0.2.7'' ''build-cache'']))"

lemma test_a_vanished_file_is_restored_with_both_static_halves: a_vanished_file_is_restored_with_both_static_halves
  by code_simp

section \<open>\<open>parse_nix_hosts\<close>\<close>

definition parse_nix_hosts_is_the_inverse_of_publish :: bool where
  "parse_nix_hosts_is_the_inverse_of_publish \<longleftrightarrow>
     map (\<lambda>e. (e_address e, e_hostnames e))
       (parse_nix_hosts (unlines [lit ''static'', lit ''# BEGIN nixnet'', tab ''10.0.0.1'' ''a b'', tab ''10.0.0.2'' ''c'',
         lit ''# END nixnet''])) =
     [(lit ''10.0.0.1'', [lit ''a'', lit ''b'']), (lit ''10.0.0.2'', [lit ''c''])]"

lemma test_parse_nix_hosts_is_the_inverse_of_publish: parse_nix_hosts_is_the_inverse_of_publish
  by code_simp

definition parse_nix_hosts_reads_freshness_comments_without_inventing_entries :: bool where
  "parse_nix_hosts_reads_freshness_comments_without_inventing_entries \<longleftrightarrow>
     map (\<lambda>e. (e_address e, e_confirmed_at e))
       (parse_nix_hosts (unlines [lit ''static'', lit ''# BEGIN nixnet'', lit ''# nixnet written=2026-08-04T10:00:01Z'',
         lit ''# nixnet 10.0.0.1 confirmed=2026-08-04T10:00:00Z'', tab ''10.0.0.1'' ''a b'', tab ''10.0.0.2'' ''c'',
         lit ''# END nixnet''])) =
     [(lit ''10.0.0.1'', Some (lit ''2026-08-04T10:00:00Z'')), (lit ''10.0.0.2'', None)]"

lemma test_parse_nix_hosts_reads_freshness_comments_without_inventing_entries:
  parse_nix_hosts_reads_freshness_comments_without_inventing_entries
  by code_simp

end
