(* ===== verification/ProbeTests.thy ===== *)
theory ProbeTests
  imports ProbeRun TestKit
begin

text \<open>
  The unit tests of \<open>src/probe/mod.rs\<close>, \<open>http.rs\<close>, \<open>icmp.rs\<close> and \<open>exec.rs\<close>, evaluated on the model:
  each definition is the assertion of the test of that name on the test's own data, and its
  lemma says that the model passes it.  A child process is given by what the kernel says of
  it.
\<close>

section \<open>Splitting command lines and output\<close>

definition tokenize_matches_go_test_cases :: bool where
  "tokenize_matches_go_test_cases \<longleftrightarrow>
     list_all (\<lambda>(input, want). tokenize (quoted input) = Inr (map lit want))
       [(''/bin/foo'', [''/bin/foo'']),
        (''/bin/foo bar baz'', [''/bin/foo'', ''bar'', ''baz'']),
        (''/bin/foo `has space`'', [''/bin/foo'', ''has space'']),
        (''  /bin/foo   bar  '', [''/bin/foo'', ''bar'']),
        (''/nix/store/xxxx-nixnet-netbird-address-probe-host-b/bin/nixnet-netbird-address-probe-host-b'',
         [''/nix/store/xxxx-nixnet-netbird-address-probe-host-b/bin/nixnet-netbird-address-probe-host-b''])] \<and>
     tokenize (lit ''/bin/foo '' @ [QUOTE] @ lit ''has space'' @ [QUOTE]) = Inr [lit ''/bin/foo'', lit ''has space''] \<and>
     (case tokenize (quoted ''/bin/foo `unterminated'') of Inl _ \<Rightarrow> True | Inr _ \<Rightarrow> False)"

lemma test_tokenize_matches_go_test_cases: tokenize_matches_go_test_cases
  by code_simp

definition bytes :: "rstr \<Rightarrow> 8 word list" where
  "bytes s = utf8 s"

definition first_non_empty_line_matches_go_test_cases :: bool where
  "first_non_empty_line_matches_go_test_cases \<longleftrightarrow>
     list_all (\<lambda>(input, want). first_non_empty_line (bytes input) = want)
       [([], []), ([NL, NL, NL], []),
        (quoted ''{`address`:`203.0.113.20`}'', quoted ''{`address`:`203.0.113.20`}''),
        ([NL, SP, SP, NL] @ quoted ''{`healthy`:true}'' @ [NL] @ lit ''trailing garbage'' @ [NL], quoted ''{`healthy`:true}'')]"

lemma test_first_non_empty_line_matches_go_test_cases: first_non_empty_line_matches_go_test_cases
  by code_simp

section \<open>HTTP requests\<close>

definition split_authority_understands_every_host_form :: bool where
  "split_authority_understands_every_host_form \<longleftrightarrow>
     list_all (\<lambda>(authority, host, port, header).
         au_host (split_authority (lit authority)) = lit host \<and> au_port (split_authority (lit authority)) = port \<and>
         header_host (split_authority (lit authority)) = lit header)
       [(''192.0.2.10'', ''192.0.2.10'', None, ''192.0.2.10''),
        (''192.0.2.10:8080'', ''192.0.2.10'', Some 8080, ''192.0.2.10:8080''),
        (''host.example.com'', ''host.example.com'', None, ''host.example.com''),
        (''host.example.com:8443'', ''host.example.com'', Some 8443, ''host.example.com:8443''),
        (''2001:db8::1'', ''2001:db8::1'', None, ''[2001:db8::1]''),
        (''::1'', ''::1'', None, ''[::1]''),
        (''[2001:db8::1]'', ''2001:db8::1'', None, ''[2001:db8::1]''),
        (''[2001:db8::1]:8080'', ''2001:db8::1'', Some 8080, ''[2001:db8::1]:8080''),
        (''fe80::1%eth0'', ''fe80::1%eth0'', None, ''[fe80::1%eth0]''),
        (''[fe80::1%eth0]:8080'', ''fe80::1%eth0'', Some 8080, ''[fe80::1%eth0]:8080''),
        (''host.example.com:notaport'', ''host.example.com:notaport'', None, ''host.example.com:notaport''),
        (''[2001:db8::1'', ''[2001:db8::1'', None, ''[2001:db8::1'')]"

lemma test_split_authority_understands_every_host_form: split_authority_understands_every_host_form
  by code_simp

definition plain_request_derives_header_and_connect_target :: bool where
  "plain_request_derives_header_and_connect_target \<longleftrightarrow>
     list_all (\<lambda>(target, probe_port, probe_path, header, host, port, path).
         plain_request (lit target) probe_port (lit probe_path) =
         \<lparr>rq_header_host = lit header, rq_connect_host = lit host, rq_connect_port = port, rq_path = lit path\<rparr>)
       [(''192.0.2.10'', 8080, ''/healthz'', ''192.0.2.10:8080'', ''192.0.2.10'', 8080, ''/healthz''),
        (''192.0.2.10'', 80, '''', ''192.0.2.10'', ''192.0.2.10'', 80, ''/''),
        (''host.example.com'', 22, ''/'', ''host.example.com:22'', ''host.example.com'', 22, ''/''),
        (''192.0.2.10:9000'', 8080, ''/h'', ''192.0.2.10:9000'', ''192.0.2.10'', 9000, ''/h''),
        (''2001:db8::1'', 8080, ''/healthz'', ''[2001:db8::1]:8080'', ''2001:db8::1'', 8080, ''/healthz''),
        (''[2001:db8::1]:8080'', 22, ''/healthz'', ''[2001:db8::1]:8080'', ''2001:db8::1'', 8080, ''/healthz''),
        (''2001:db8::1'', 80, ''/'', ''[2001:db8::1]'', ''2001:db8::1'', 80, ''/''),
        (''http://host.example.com/status'', 8080, ''/ignored'', ''host.example.com'', ''host.example.com'', 80, ''/status''),
        (''http://192.0.2.10:8080/status'', 22, ''/ignored'', ''192.0.2.10:8080'', ''192.0.2.10'', 8080, ''/status''),
        (''http://[2001:db8::1]:8080/status'', 22, ''/ignored'', ''[2001:db8::1]:8080'', ''2001:db8::1'', 8080, ''/status''),
        (''http://[2001:db8::1]/status'', 22, ''/ignored'', ''[2001:db8::1]'', ''2001:db8::1'', 80, ''/status'')]"

lemma test_plain_request_derives_header_and_connect_target: plain_request_derives_header_and_connect_target
  by code_simp

section \<open>ICMP messages\<close>

definition echo_request_checksum_is_internally_consistent :: bool where
  "echo_request_checksum_is_internally_consistent \<longleftrightarrow>
     internet_checksum (build_echo_request 0x1234 1 (utf8 (lit ''nixnet''))) = 0"

lemma test_echo_request_checksum_is_internally_consistent: echo_request_checksum_is_internally_consistent
  by code_simp

text \<open>An IPv4 header of \<open>ihl\<close> 32-bit words, then the ICMP message.\<close>

definition raw_datagram :: "nat \<Rightarrow> 8 word \<Rightarrow> 8 word \<Rightarrow> 16 word \<Rightarrow> 16 word \<Rightarrow> 8 word list" where
  "raw_datagram ihl_words ty code ident sq =
     (0x40 OR word_of_nat ihl_words) # replicate (ihl_words * 4 - 1) 0 @
     [ty, code, 0, 0] @ to_be16 ident @ to_be16 sq @ utf8 (lit ''nixnet'')"

definition echo_reply_is_accepted_only_for_our_own_identifier_and_sequence :: bool where
  "echo_reply_is_accepted_only_for_our_own_identifier_and_sequence \<longleftrightarrow>
     (let ident = 0x1234; sq = 7 in
      is_our_echo_reply (raw_datagram 5 ICMP_ECHO_REPLY 0 ident sq) ident sq \<and>
      \<not> is_our_echo_reply (raw_datagram 5 ICMP_ECHO_REPLY 0 (ident XOR 0xFFFF) sq) ident sq \<and>
      \<not> is_our_echo_reply (raw_datagram 5 ICMP_ECHO_REPLY 0 ident (sq + 1)) ident sq \<and>
      \<not> is_our_echo_reply (raw_datagram 5 ICMP_ECHO_REQUEST 0 ident sq) ident sq \<and>
      \<not> is_our_echo_reply (raw_datagram 5 3 1 ident sq) ident sq)"

lemma test_echo_reply_is_accepted_only_for_our_own_identifier_and_sequence:
  echo_reply_is_accepted_only_for_our_own_identifier_and_sequence
  by code_simp

definition echo_reply_matching_locates_the_icmp_header_by_ihl :: bool where
  "echo_reply_matching_locates_the_icmp_header_by_ihl \<longleftrightarrow>
     (let ident = 0xBEEF; sq = 3 in
      is_our_echo_reply (raw_datagram 6 ICMP_ECHO_REPLY 0 ident sq) ident sq \<and>
      \<not> is_our_echo_reply (take (20 + ICMP_HEADER_LEN - 1) (raw_datagram 5 ICMP_ECHO_REPLY 0 ident sq)) ident sq \<and>
      \<not> is_our_echo_reply [] ident sq)"

lemma test_echo_reply_matching_locates_the_icmp_header_by_ihl: echo_reply_matching_locates_the_icmp_header_by_ihl
  by code_simp

definition each_probe_gets_its_own_sequence_number :: bool where
  "each_probe_gets_its_own_sequence_number \<longleftrightarrow>
     (let ((i1, first), c) = next_echo_identity 5 7 0; ((i2, second), c') = next_echo_identity 6 7 c
      in first \<noteq> second)"

lemma test_each_probe_gets_its_own_sequence_number: each_probe_gets_its_own_sequence_number
  by (simp add: each_probe_gets_its_own_sequence_number_def next_echo_identity_def)

definition recv_budget_shrinks_by_time_already_spent :: bool where
  "recv_budget_shrinks_by_time_already_spent \<longleftrightarrow>
     (let total = 800 * 1000000 in
      remaining_budget total 0 = Some (800 * 1000000) \<and>
      remaining_budget total (500 * 1000000) = Some (300 * 1000000) \<and>
      remaining_budget total (799 * 1000000) = Some 1000000)"

lemma test_recv_budget_shrinks_by_time_already_spent: recv_budget_shrinks_by_time_already_spent
  by code_simp

definition recv_budget_is_gone_once_the_deadline_passes :: bool where
  "recv_budget_is_gone_once_the_deadline_passes \<longleftrightarrow>
     (let total = 800 * 1000000 in
      remaining_budget total total = None \<and> remaining_budget total (9 * 1000000000) = None \<and>
      remaining_budget total (800 * 1000000 - 999) = None \<and> remaining_budget 0 0 = None)"

lemma test_recv_budget_is_gone_once_the_deadline_passes: recv_budget_is_gone_once_the_deadline_passes
  by code_simp

section \<open>Provider scripts\<close>

definition exec_transport :: "rstr \<Rightarrow> transport" where
  "exec_transport line =
     transport_default\<lparr>t_probe := probe_default\<lparr>p_method := lit ''exec'', p_exec := line\<rparr>\<rparr>"

text \<open>
  A shell that runs \<open>sleep 30\<close> behind it and either waits for it or exits: the pipes stay open
  without data, and the shell is seen running for as long as it waits.
\<close>

definition shell_world :: "poll list \<Rightarrow> exit_status \<Rightarrow> child_world" where
  "shell_world polls killed =
     \<lparr>cw_spawn = None, cw_nonblock_out = None, cw_nonblock_err = None,
      cw_io = (replicate 20 WouldBlock, replicate 20 WouldBlock), cw_polls = polls, cw_reap = Inr killed\<rparr>"

definition exec_on :: "child_world \<Rightarrow> exec_env" where
  "exec_on w = \<lparr>xe_world = (\<lambda>_. w), xe_json = (\<lambda>_. Inl [])\<rparr>"

definition exit_ok :: exit_status where
  "exit_ok = \<lparr>es_success = True, es_display = lit ''exit status: 0''\<rparr>"

definition exit_1 :: exit_status where
  "exit_1 = \<lparr>es_success = False, es_display = lit ''exit status: 1''\<rparr>"

definition exit_killed :: exit_status where
  "exit_killed = \<lparr>es_success = False, es_display = lit ''signal: 9 (SIGKILL)''\<rparr>"

text \<open>How long the wait loop sleeps altogether; the blocking wait comes after a kill.\<close>

definition slept :: "child_op list \<Rightarrow> int" where
  "slept ops = sum_list (map (\<lambda>op. case op of SleepFor n \<Rightarrow> n | _ \<Rightarrow> 0) ops)"

definition timeout_kills_descendants_that_inherited_the_output_pipes :: bool where
  "timeout_kills_descendants_that_inherited_the_output_pipes \<longleftrightarrow>
     (let w = shell_world (map (\<lambda>k. \<lparr>po_wait = Running, po_elapsed = ms (10 * k)\<rparr>) [0, 1, 2, 3, 4, 5]) exit_killed in
      case exec_run (exec_on w) (exec_transport (lit ''/bin/sh -c '' @ [QUOTE] @ lit ''sleep 30 & wait'' @ [QUOTE])) (ms 50) of
        Some (Inr res, ops) \<Rightarrow> \<not> pr_healthy res \<and> KillGroup \<in> set ops \<and> slept ops < secs 3
      | _ \<Rightarrow> False)"

lemma test_timeout_kills_descendants_that_inherited_the_output_pipes:
  timeout_kills_descendants_that_inherited_the_output_pipes
  by code_simp

definition successful_parent_does_not_leave_readers_waiting_on_a_daemonized_child :: bool where
  "successful_parent_does_not_leave_readers_waiting_on_a_daemonized_child \<longleftrightarrow>
     (let w = shell_world [\<lparr>po_wait = Running, po_elapsed = 0\<rparr>, \<lparr>po_wait = Exited exit_ok, po_elapsed = ms 10\<rparr>] exit_ok in
      case exec_run (exec_on w) (exec_transport (lit ''/bin/sh -c '' @ [QUOTE] @ lit ''sleep 30 &'' @ [QUOTE])) (ms 3000) of
        Some (Inr res, ops) \<Rightarrow> pr_healthy res \<and> slept ops < secs 3
      | _ \<Rightarrow> False)"

lemma test_successful_parent_does_not_leave_readers_waiting_on_a_daemonized_child: successful_parent_does_not_leave_readers_waiting_on_a_daemonized_child
  by code_simp

text \<open>
  The output of \<open>yes x\<close>, cut at 70000 bytes; it is too long to be evaluated, so its length is
  all that is used of it.
\<close>

definition yes_output :: "nat \<Rightarrow> 8 word list" where
  "yes_output n = concat (replicate n [120, 10])"

lemma length_yes_output: "length (yes_output n) = 2 * n"
  by (simp add: yes_output_def length_concat sum_list_replicate)

definition full_read :: "8 word list" where
  "full_read = yes_output 4096"

definition rest_read :: "8 word list" where
  "rest_read = yes_output 2232"

lemma read_lengths: "length full_read = 8192" "length rest_read = 4464"
  by (simp_all add: full_read_def rest_read_def length_yes_output)

lemma read_nonempty: "full_read \<noteq> []" "rest_read \<noteq> []"
  using read_lengths by auto

definition noisy_world :: child_world where
  "noisy_world =
     \<lparr>cw_spawn = None, cw_nonblock_out = None, cw_nonblock_err = None,
      cw_io = (map Got [full_read, full_read, full_read, full_read, full_read, full_read, full_read, full_read, rest_read, []],
        [Got (utf8 (lit ''problem'')), Got []]),
      cw_polls = [\<lparr>po_wait = Exited exit_1, po_elapsed = ms 10\<rparr>], cw_reap = Inr exit_1\<rparr>"

lemma delivered_numeral:
  "delivered (numeral k) (Got chunk # p) = (if chunk = [] then [] else chunk @ delivered (pred_numeral k) p)"
  by (simp add: numeral_eq_Suc)

lemma noisy_stdout:
  "\<exists>c. drain_pass 32 (fst (cw_io noisy_world)) captured_default = (None, c) \<and> ca_truncated c"
proof -
  let ?p = "fst (cw_io noisy_world)"
  have "fst (drain_pass 32 ?p captured_default) = None"
    by (simp add: noisy_world_def drain_pass_numeral read_nonempty)
  moreover have "length (delivered 32 ?p) = 70000"
    by (simp add: noisy_world_def delivered_numeral read_nonempty read_lengths)
  then have "ca_truncated (snd (drain_pass 32 ?p captured_default))"
    using holds_drain_pass [OF holds_default, of 32 ?p] by (simp add: holds_def MAX_OUTPUT_BYTES_def)
  ultimately show ?thesis by (cases "drain_pass 32 ?p captured_default") auto
qed

lemma noisy_run:
  "\<exists>out ops. run_child timeout noisy_world = Some (Inr out, ops) \<and> bo_status out = exit_1 \<and>
     bo_stderr out = utf8 (lit ''problem'') \<and> bo_truncated out"
proof -
  have bytes: "utf8 (lit ''problem'') = [112, 114, 111, 98, 108, 101, 109]" by code_simp
  obtain c where c: "drain_pass 32 (fst (cw_io noisy_world)) captured_default = (None, c)" "ca_truncated c"
    using noisy_stdout by blast
  have err: "drain_pass 32 (snd (cw_io noisy_world)) captured_default =
      (None, \<lparr>ca_bytes = utf8 (lit ''problem''), ca_truncated = False\<rparr>)"
    by (simp add: noisy_world_def drain_pass_numeral captured_default_def capture_def MAX_OUTPUT_BYTES_def bytes)
  have world: "cw_spawn noisy_world = None" "cw_nonblock_out noisy_world = None" "cw_nonblock_err noisy_world = None"
    "cw_polls noisy_world = [\<lparr>po_wait = Exited exit_1, po_elapsed = ms 10\<rparr>]"
    by (simp_all add: noisy_world_def)
  show ?thesis
    using c err by (simp add: run_child_def drain_both_def drain_def Let_def world)
qed

lemma contains_append: "pat \<noteq> [] \<Longrightarrow> contains (a @ pat @ b) pat"
proof (induction a)
  case Nil
  then show ?case by (cases pat) (auto simp: contains_def starts_with_append)
next
  case (Cons x a)
  then show ?case by (auto simp: contains_def)
qed

definition output_is_bounded_and_stderr_remains_diagnostic :: bool where
  "output_is_bounded_and_stderr_remains_diagnostic \<longleftrightarrow>
     (case exec_run (exec_on noisy_world) (exec_transport (lit ''/bin/sh -c '' @ [QUOTE] @
            lit ''printf problem >&2; yes x | head -c 70000; exit 1'' @ [QUOTE])) (ms 3000) of
        Some (Inr res, ops) \<Rightarrow>
          \<not> pr_healthy res \<and> contains (pr_detail res) (lit ''problem'') \<and> contains (pr_detail res) (lit ''truncated'')
      | _ \<Rightarrow> False)"

lemma test_output_is_bounded_and_stderr_remains_diagnostic: output_is_bounded_and_stderr_remains_diagnostic
proof -
  let ?t = "exec_transport (lit ''/bin/sh -c '' @ [QUOTE] @ lit ''printf problem >&2; yes x | head -c 70000; exit 1'' @ [QUOTE])"
  obtain out ops where run: "run_child (ms 3000) noisy_world = Some (Inr out, ops)" "bo_status out = exit_1"
    "bo_stderr out = utf8 (lit ''problem'')" "bo_truncated out"
    using noisy_run by blast
  have argv: "tokenize (p_exec (t_probe ?t)) =
      Inr [lit ''/bin/sh'', lit ''-c'', lit ''printf problem >&2; yes x | head -c 70000; exit 1'']"
    by code_simp
  have stderr: "trim (from_utf8_lossy (utf8 (lit ''problem''))) = lit ''problem''" "lit ''problem'' \<noteq> []" by code_simp+
  define detail where "detail = snd (exec_envelope_fields (exec_on noisy_world) (first_non_empty_line (bo_stdout out)))"
  define said where "said = (if detail = [] then lit ''exec exit non-zero'' else detail)"
  have d: "pr_detail (exec_result (exec_on noisy_world) out) =
      said @ lit '': stderr: '' @ lit ''problem'' @ lit '' (probe output truncated at 64 KiB)''"
    using run stderr by (simp add: exec_result_def Let_def split_beta exit_1_def flip: detail_def)
      (simp add: said_def)
  have "contains (pr_detail (exec_result (exec_on noisy_world) out)) (lit ''problem'')"
    using contains_append [of "lit ''problem''" "said @ lit '': stderr: ''" "lit '' (probe output truncated at 64 KiB)''"]
      stderr by (simp add: d)
  moreover have "lit '' (probe output truncated at 64 KiB)'' = lit '' (probe output '' @ lit ''truncated'' @ lit '' at 64 KiB)''"
    "lit ''truncated'' \<noteq> []" by code_simp+
  then have "contains (pr_detail (exec_result (exec_on noisy_world) out)) (lit ''truncated'')"
    using contains_append [of "lit ''truncated''" "said @ lit '': stderr: '' @ lit ''problem'' @ lit '' (probe output ''"
        "lit '' at 64 KiB)''"] by (simp add: d)
  ultimately show ?thesis
    using run argv by (simp add: output_is_bounded_and_stderr_remains_diagnostic_def exec_run_def exec_on_def exec_result_fields exit_1_def)
qed

end
