(* ===== verification/RouteTests.thy ===== *)
theory RouteTests
  imports Route TestKit
begin

text \<open>
  The unit tests of \<open>src/publish/route.rs\<close>, evaluated on the model.  The fake \<open>ip\<close> of the tests
  is a shell script driven by the files of its directory; here it is the parameter \<open>ie_exec\<close> on
  a record of these files.  \<open>argv.log\<close> is the log of commands that the model keeps itself.
  What \<open>serde_json\<close> reads in each canned output is part of the test data.
\<close>

section \<open>The fake \<open>ip\<close>\<close>

type_synonym canned = "rstr \<times> rstr \<times> ip_route list"

record fake_dir =
  fd_shows :: "canned list"
  fd_hang_show :: bool
  fd_hang_replace :: bool
  fd_fail_replace :: bool

definition fake_output :: "bool \<Rightarrow> bool \<Rightarrow> rstr \<Rightarrow> rstr \<Rightarrow> rstr + bounded_output" where
  "fake_output ok hung out err =
     Inr \<lparr>bo_status = \<lparr>es_success = ok, es_display = (if ok then lit ''exit status: 0'' else lit ''exit status: 2'')\<rparr>,
          bo_stdout = utf8 out, bo_stderr = utf8 err, bo_timed_out = hung, bo_truncated = False\<rparr>"

text \<open>The script: its tests on \<open>$1\<close>, \<open>$2\<close> and \<open>$6\<close>, in order.\<close>

definition fake_ip :: "rstr \<Rightarrow> rstr list \<Rightarrow> int \<Rightarrow> fake_dir \<Rightarrow> (rstr + bounded_output) \<times> fake_dir" where
  "fake_ip path args timeout d =
     ((if args ! 0 = lit ''-j'' \<and> fd_hang_show d then fake_output False True [] []
       else if args ! 1 = lit ''replace'' \<and> fd_hang_replace d then fake_output False True [] []
       else if args ! 1 = lit ''replace'' \<and> fd_fail_replace d then
         fake_output False False [] (lit ''RTNETLINK answers: Network is unreachable'' @ [NL])
       else if args ! 0 = lit ''-j'' then
         fake_output True False
           (case map_of (fd_shows d) (args ! 5) of Some (json, _) \<Rightarrow> json | None \<Rightarrow> lit ''[]'') []
       else fake_output True False [] []), d)"

definition fake_env :: "fake_dir \<Rightarrow> fake_dir ip_env" where
  "fake_env d = \<lparr>ie_exec = fake_ip,
     ie_parse = (\<lambda>txt. if txt = lit ''[]'' then Inr []
       else (case map_of (map snd (fd_shows d)) txt of Some rs \<Rightarrow> Inr rs | None \<Rightarrow> Inl (lit ''bad json'')))\<rparr>"

definition tempdir :: fake_dir where
  "tempdir = \<lparr>fd_shows = [], fd_hang_show = False, fd_hang_replace = False, fd_fail_replace = False\<rparr>"

definition canned_route :: "char list \<Rightarrow> char list \<Rightarrow> ip_route list \<Rightarrow> fake_dir \<Rightarrow> fake_dir" where
  "canned_route iface json rs d = d\<lparr>fd_shows := fd_shows d @ [(lit iface, quoted json, rs)]\<rparr>"

definition via :: "char list \<Rightarrow> int \<Rightarrow> ip_route" where
  "via gw m = \<lparr>ir_gateway = Some (lit gw), ir_metric = Some m\<rparr>"

definition with_timeout :: "rstr \<Rightarrow> int \<Rightarrow> route_publisher" where
  "with_timeout path timeout = \<lparr>rp_ip_path = path, rp_command_timeout = timeout\<rparr>"

definition apply_in :: "fake_dir \<Rightarrow> route_publisher \<Rightarrow> ranked_interface list \<Rightarrow> int \<Rightarrow> int \<Rightarrow> publication \<times> rstr list list" where
  "apply_in d rp cs base step =
     (case apply_routes (fake_env d) rp cs base step \<lparr>is_world = d, is_log = []\<rparr> of
        (out, s) \<Rightarrow> (out, map fst (is_log s)))"

definition argv :: "char list \<Rightarrow> rstr list" where
  "argv line = split_whitespace (lit line)"

definition writes :: "rstr list list \<Rightarrow> rstr list list" where
  "writes calls = filter (\<lambda>a. nth_opt a 0 \<noteq> Some (lit ''-j'')) calls"

definition published_metrics :: "rstr list list \<Rightarrow> (rstr \<times> int option) list" where
  "published_metrics calls =
     map (\<lambda>a. (case position (\<lambda>x. x = lit ''dev'') a of Some i \<Rightarrow> a ! Suc i | None \<Rightarrow> [],
               case position (\<lambda>x. x = lit ''metric'') a of Some i \<Rightarrow> parse_decimal (a ! Suc i) | None \<Rightarrow> None))
       (filter (\<lambda>a. nth_opt a 1 = Some (lit ''replace'')) calls)"

definition ranked_with_health :: "(char list \<times> bool) list \<Rightarrow> ranked_interface list" where
  "ranked_with_health ifaces = map (\<lambda>(i, h). \<lparr>ri_interface = lit i, ri_healthy = h\<rparr>) ifaces"

definition ranked_healthy :: "char list list \<Rightarrow> ranked_interface list" where
  "ranked_healthy ifaces = ranked_with_health (map (\<lambda>i. (i, True)) ifaces)"

definition rp0 :: route_publisher where
  "rp0 = route_publisher_new (lit ''/tmp/ip'')"

definition change :: "char list \<Rightarrow> int \<Rightarrow> int \<Rightarrow> route_change" where
  "change i a b = \<lparr>rc_interface = lit i, rc_from_metric = a, rc_to_metric = b\<rparr>"

definition error_mentions :: "publication \<Rightarrow> char list \<Rightarrow> bool" where
  "error_mentions out text = (case pb_error out of Some e \<Rightarrow> contains e (lit text) | None \<Rightarrow> False)"

section \<open>The tests\<close>

definition dhcp_eth0 :: fake_dir where
  "dhcp_eth0 = canned_route ''eth0''
     ''[{`dst`:`default`,`gateway`:`192.168.1.1`,`dev`:`eth0`,`protocol`:`dhcp`,`prefsrc`:`192.168.1.50`,`metric`:600,`flags`:[]}]''
     [via ''192.168.1.1'' 600] tempdir"

definition gateway_is_carried_over_and_the_old_metric_is_deleted :: bool where
  "gateway_is_carried_over_and_the_old_metric_is_deleted \<longleftrightarrow>
     (let (out, calls) = apply_in dhcp_eth0 rp0 (ranked_healthy [''eth0'']) 100 50 in
      pb_error out = None \<and> pb_changes out = [change ''eth0'' 600 100] \<and>
      calls = [argv ''-j route show default dev eth0'',
               argv ''route replace default via 192.168.1.1 dev eth0 metric 100'',
               argv ''route del default via 192.168.1.1 dev eth0 metric 600''])"

lemma test_gateway_is_carried_over_and_the_old_metric_is_deleted: gateway_is_carried_over_and_the_old_metric_is_deleted
  by code_simp

definition a_gatewayless_route_stays_on_link :: bool where
  "a_gatewayless_route_stays_on_link \<longleftrightarrow>
     (let d = canned_route ''wwan0'' ''[{`dst`:`default`,`dev`:`wwan0`,`protocol`:`static`,`flags`:[]}]''
            [\<lparr>ir_gateway = None, ir_metric = None\<rparr>] tempdir;
          (out, calls) = apply_in d rp0 (ranked_healthy [''wwan0'']) 100 50
      in pb_error out = None \<and>
         calls = [argv ''-j route show default dev wwan0'', argv ''route replace default dev wwan0 metric 100'',
                  argv ''route del default dev wwan0 metric 0''])"

lemma test_a_gatewayless_route_stays_on_link: a_gatewayless_route_stays_on_link
  by code_simp

definition an_interface_with_no_default_route_is_left_alone :: bool where
  "an_interface_with_no_default_route_is_left_alone \<longleftrightarrow>
     (let (out, calls) = apply_in tempdir rp0 (ranked_healthy [''eth9'']) 100 50 in
      error_mentions out ''no default route on dev eth9'' \<and> calls = [argv ''-j route show default dev eth9''])"

lemma test_an_interface_with_no_default_route_is_left_alone: an_interface_with_no_default_route_is_left_alone
  by code_simp

definition eth0_at_100 :: "char list \<Rightarrow> fake_dir" where
  "eth0_at_100 json = canned_route ''eth0'' json [via ''192.168.1.1'' 100] tempdir"

definition a_down_interface_with_no_default_route_is_not_an_error :: bool where
  "a_down_interface_with_no_default_route_is_not_an_error \<longleftrightarrow>
     (let d = eth0_at_100 ''[{`dst`:`default`,`gateway`:`192.168.1.1`,`dev`:`eth0`,`metric`:100,`flags`:[]}]'';
          (out, calls) = apply_in d rp0 (ranked_with_health [(''eth0'', True), (''wwan0'', False)]) 100 50
      in pb_error out = None)"

lemma test_a_down_interface_with_no_default_route_is_not_an_error: a_down_interface_with_no_default_route_is_not_an_error
  by code_simp

definition a_route_already_at_the_target_metric_is_not_rewritten :: bool where
  "a_route_already_at_the_target_metric_is_not_rewritten \<longleftrightarrow>
     (let d = canned_route ''eth0'' ''[{`dst`:`default`,`gateway`:`10.0.0.1`,`dev`:`eth0`,`metric`:100,`flags`:[]}]''
            [via ''10.0.0.1'' 100] tempdir;
          (out, calls) = apply_in d rp0 (ranked_healthy [''eth0'']) 100 50
      in pb_error out = None \<and> pb_changes out = [] \<and> calls = [argv ''-j route show default dev eth0''])"

lemma test_a_route_already_at_the_target_metric_is_not_rewritten: a_route_already_at_the_target_metric_is_not_rewritten
  by code_simp

definition a_duplicate_default_at_the_target_metric_is_still_repaired :: bool where
  "a_duplicate_default_at_the_target_metric_is_still_repaired \<longleftrightarrow>
     (let d = canned_route ''eth0''
            ''[{`dst`:`default`,`gateway`:`10.0.0.1`,`dev`:`eth0`,`metric`:100,`flags`:[]}, {`dst`:`default`,`gateway`:`10.0.0.1`,`dev`:`eth0`,`metric`:600,`flags`:[]}]''
            [via ''10.0.0.1'' 100, via ''10.0.0.1'' 600] tempdir;
          (out, calls) = apply_in d rp0 (ranked_healthy [''eth0'']) 100 50
      in pb_error out = None \<and>
         calls = [argv ''-j route show default dev eth0'', argv ''route replace default via 10.0.0.1 dev eth0 metric 100'',
                  argv ''route del default via 10.0.0.1 dev eth0 metric 600''])"

lemma test_a_duplicate_default_at_the_target_metric_is_still_repaired:
  a_duplicate_default_at_the_target_metric_is_still_repaired
  by code_simp

definition each_interface_keeps_its_own_gateway_and_gets_the_next_metric :: bool where
  "each_interface_keeps_its_own_gateway_and_gets_the_next_metric \<longleftrightarrow>
     (let d = canned_route ''wlan0'' ''[{`dst`:`default`,`gateway`:`10.7.0.1`,`dev`:`wlan0`,`metric`:700,`flags`:[]}]''
            [via ''10.7.0.1'' 700]
            (canned_route ''eth0'' ''[{`dst`:`default`,`gateway`:`192.168.1.1`,`dev`:`eth0`,`metric`:600,`flags`:[]}]''
               [via ''192.168.1.1'' 600] tempdir);
          (out, calls) = apply_in d rp0 (ranked_healthy [''eth0'', ''wlan0'']) 100 50
      in pb_error out = None \<and>
         calls = [argv ''-j route show default dev eth0'',
                  argv ''route replace default via 192.168.1.1 dev eth0 metric 100'',
                  argv ''route del default via 192.168.1.1 dev eth0 metric 600'',
                  argv ''-j route show default dev wlan0'',
                  argv ''route replace default via 10.7.0.1 dev wlan0 metric 150'',
                  argv ''route del default via 10.7.0.1 dev wlan0 metric 700''])"

lemma test_each_interface_keeps_its_own_gateway_and_gets_the_next_metric:
  each_interface_keeps_its_own_gateway_and_gets_the_next_metric
  by code_simp

definition the_loser_is_demoted_in_the_same_apply_that_promotes_the_winner :: bool where
  "the_loser_is_demoted_in_the_same_apply_that_promotes_the_winner \<longleftrightarrow>
     (let d = canned_route ''wlan0'' ''[{`dst`:`default`,`gateway`:`10.7.0.1`,`dev`:`wlan0`,`metric`:150,`flags`:[]}]''
            [via ''10.7.0.1'' 150]
            (eth0_at_100 ''[{`dst`:`default`,`gateway`:`192.168.1.1`,`dev`:`eth0`,`metric`:100,`flags`:[]}]'');
          (out, calls) = apply_in d rp0 (ranked_with_health [(''wlan0'', True), (''eth0'', False)]) 100 50
      in pb_error out = None \<and>
         calls = [argv ''-j route show default dev wlan0'',
                  argv ''route replace default via 10.7.0.1 dev wlan0 metric 100'',
                  argv ''route del default via 10.7.0.1 dev wlan0 metric 150'',
                  argv ''-j route show default dev eth0'',
                  argv ''route replace default via 192.168.1.1 dev eth0 metric 150'',
                  argv ''route del default via 192.168.1.1 dev eth0 metric 100''] \<and>
         published_metrics calls = [(lit ''wlan0'', Some 100), (lit ''eth0'', Some 150)] \<and>
         \<not> list_ex (\<lambda>a. lit ''del'' \<in> set a \<and> lit ''eth0'' \<in> set a \<and> last a = lit ''150'') calls)"

lemma test_the_loser_is_demoted_in_the_same_apply_that_promotes_the_winner:
  the_loser_is_demoted_in_the_same_apply_that_promotes_the_winner
  by code_simp

definition a_failed_replace_never_deletes_the_surviving_route :: bool where
  "a_failed_replace_never_deletes_the_surviving_route \<longleftrightarrow>
     (let d = canned_route ''eth0'' ''[{`dst`:`default`,`gateway`:`192.168.1.1`,`dev`:`eth0`,`metric`:600,`flags`:[]}]''
            [via ''192.168.1.1'' 600] (tempdir\<lparr>fd_fail_replace := True\<rparr>);
          (out, calls) = apply_in d rp0 (ranked_healthy [''eth0'']) 100 50
      in error_mentions out ''Network is unreachable'' \<and> pb_changes out = [] \<and> length calls = 2)"

lemma test_a_failed_replace_never_deletes_the_surviving_route: a_failed_replace_never_deletes_the_surviving_route
  by code_simp

definition a_hung_route_read_is_killed_reaped_and_reported :: bool where
  "a_hung_route_read_is_killed_reaped_and_reported \<longleftrightarrow>
     (let (out, calls) = apply_in (tempdir\<lparr>fd_hang_show := True\<rparr>) (with_timeout (lit ''/tmp/ip'') (ms 50))
            (ranked_healthy [''eth0'']) 100 50
      in pb_changes out = [] \<and> error_mentions out ''timed out after 50ms'')"

lemma test_a_hung_route_read_is_killed_reaped_and_reported: a_hung_route_read_is_killed_reaped_and_reported
  by code_simp

definition a_hung_route_write_is_killed_without_deleting_the_old_route :: bool where
  "a_hung_route_write_is_killed_without_deleting_the_old_route \<longleftrightarrow>
     (let d = canned_route ''eth0'' ''[{`dst`:`default`,`gateway`:`192.168.1.1`,`dev`:`eth0`,`metric`:600,`flags`:[]}]''
            [via ''192.168.1.1'' 600] (tempdir\<lparr>fd_hang_replace := True\<rparr>);
          (out, calls) = apply_in d (with_timeout (lit ''/tmp/ip'') (ms 50)) (ranked_healthy [''eth0'']) 100 50
      in pb_changes out = [] \<and> error_mentions out ''timed out after 50ms'' \<and> length calls = 2)"

lemma test_a_hung_route_write_is_killed_without_deleting_the_old_route:
  a_hung_route_write_is_killed_without_deleting_the_old_route
  by code_simp

end
