(* ===== verification/ConfigTests.thy ===== *)
theory ConfigTests
  imports Config TestKit
begin

text \<open>
  The unit tests of \<open>src/config.rs\<close> and the integration tests of \<open>tests/config_test.rs\<close>, evaluated on
  the model.  \<open>serde_json\<close> is a parameter of \<open>config_load\<close>, so the data of a test is what it
  makes of the test's JSON: a field that is not in the text has its default.  Where a test
  looks for a word in the message, the model has the constructor of that message.
\<close>

section \<open>Configurations as they are read\<close>

definition default_probe_default :: default_probe where
  "default_probe_default = \<lparr>d_interval_ms = 0, d_timeout_ms = 0, d_up_threshold = 0, d_down_threshold = 0\<rparr>"

definition daemon_default :: daemon where
  "daemon_default = \<lparr>dm_state_dir = [], dm_runtime_dir = [], dm_hosts_file = [], dm_ip_path = [],
     dm_default_probe = default_probe_default\<rparr>"

definition read_transport :: "char list \<Rightarrow> int \<Rightarrow> transport" where
  "read_transport a pr = transport_default\<lparr>t_address := lit a, t_priority := pr\<rparr>"

definition read_peer :: "rstr list \<Rightarrow> transport list \<Rightarrow> peer" where
  "read_peer names ts = \<lparr>pe_hostnames = names, pe_transports = ts, pe_min_hold_ms = 0, pe_on_all_down = [],
     pe_max_age_sec = None\<rparr>"

definition one_peer :: "char list \<Rightarrow> peer \<Rightarrow> config" where
  "one_peer n p = \<lparr>c_daemon = daemon_default, c_peers = [(lit n, p)], c_uplinks = []\<rparr>"

definition load_str :: "config \<Rightarrow> config_error + config" where
  "load_str c = config_load (\<lambda>_. Inr []) (\<lambda>_. Inr c) (lit ''config.json'')"

definition load_error :: "config \<Rightarrow> (verr \<Rightarrow> bool) \<Rightarrow> bool" where
  "load_error c p = (case load_str c of Inl (ValidateError _ e) \<Rightarrow> p e | _ \<Rightarrow> False)"

section \<open>\<open>config.rs\<close>\<close>

definition ids :: "config_error + config \<Rightarrow> (rstr \<times> rstr) list" where
  "ids r = (case r of
     Inr c \<Rightarrow> (case hm_get (c_peers c) (lit ''host'') of
                Some p \<Rightarrow> map (\<lambda>t. (t_address t, t_ident t)) (pe_transports p) | None \<Rightarrow> [])
   | Inl _ \<Rightarrow> [])"

definition ids_in_order :: "transport list \<Rightarrow> (rstr \<times> rstr) list" where
  "ids_in_order ts = ids (load_str (one_peer ''host'' (read_peer [lit ''host''] ts)))"

definition derived_transport_identity_survives_list_reordering :: bool where
  "derived_transport_identity_survives_list_reordering \<longleftrightarrow>
     (let a = read_transport ''192.0.2.10'' 10; b = read_transport ''192.0.2.20'' 20;
          first = ids_in_order [a, b]; reordered = ids_in_order [b, a]
      in length first = 2 \<and> reordered = rev first)"

lemma derived_ids:
  "ids_in_order [read_transport ''192.0.2.10'' 10, read_transport ''192.0.2.20'' 20] =
     [(lit ''192.0.2.10'', lit ''auto-83d8af0235c9e1b9''), (lit ''192.0.2.20'', lit ''auto-51a4e87c9500371b'')]"
  by code_simp

lemma derived_ids_reordered:
  "ids_in_order [read_transport ''192.0.2.20'' 20, read_transport ''192.0.2.10'' 10] =
     [(lit ''192.0.2.20'', lit ''auto-51a4e87c9500371b''), (lit ''192.0.2.10'', lit ''auto-83d8af0235c9e1b9'')]"
  by code_simp

lemma test_derived_transport_identity_survives_list_reordering: derived_transport_identity_survives_list_reordering
  unfolding derived_transport_identity_survives_list_reordering_def Let_def derived_ids derived_ids_reordered by simp

definition duplicate_explicit_transport_ids_are_rejected :: bool where
  "duplicate_explicit_transport_ids_are_rejected \<longleftrightarrow>
     (let with_id = (\<lambda>t. t\<lparr>t_ident := lit ''same-path''\<rparr>) in
      load_error (one_peer ''host'' (read_peer [lit ''host'']
          [with_id (read_transport ''192.0.2.10'' 10), with_id (read_transport ''192.0.2.20'' 20)]))
        (\<lambda>e. e = IdDuplicate PeerWord (lit ''host'') 0 1 (lit ''same-path'')))"

lemma test_duplicate_explicit_transport_ids_are_rejected: duplicate_explicit_transport_ids_are_rejected
  by code_simp

definition tcp_probe :: probe where
  "tcp_probe = probe_default\<lparr>p_method := lit ''tcp''\<rparr>"

definition is_rejected :: "probe \<Rightarrow> bool" where
  "is_rejected p = load_error (one_peer ''host'' (read_peer [lit ''host'']
     [(read_transport ''192.0.2.10'' 10)\<lparr>t_probe := p\<rparr>])) (\<lambda>e. True)"

definition hand_written_config_rejects_wrapping_ports_and_non_positive_timing :: bool where
  "hand_written_config_rejects_wrapping_ports_and_non_positive_timing \<longleftrightarrow>
     list_all is_rejected
       [tcp_probe\<lparr>p_port := 70000\<rparr>, tcp_probe\<lparr>p_timeout_ms := - 1\<rparr>, tcp_probe\<lparr>p_interval_ms := - 1\<rparr>,
        tcp_probe\<lparr>p_up_threshold := - 1\<rparr>, tcp_probe\<lparr>p_down_threshold := - 1\<rparr>]"

lemma rejected_1: "is_rejected (tcp_probe\<lparr>p_port := 70000\<rparr>)"
  by code_simp

lemma rejected_2: "is_rejected (tcp_probe\<lparr>p_timeout_ms := - 1\<rparr>)"
  by code_simp

lemma rejected_3: "is_rejected (tcp_probe\<lparr>p_interval_ms := - 1\<rparr>)"
  by code_simp

lemma rejected_4: "is_rejected (tcp_probe\<lparr>p_up_threshold := - 1\<rparr>)"
  by code_simp

lemma rejected_5: "is_rejected (tcp_probe\<lparr>p_down_threshold := - 1\<rparr>)"
  by code_simp

lemma test_hand_written_config_rejects_wrapping_ports_and_non_positive_timing:
  hand_written_config_rejects_wrapping_ports_and_non_positive_timing
  unfolding hand_written_config_rejects_wrapping_ports_and_non_positive_timing_def
  using rejected_1 rejected_2 rejected_3 rejected_4 rejected_5 by simp

definition invalid_daemon_probe_defaults_fail_even_without_transports :: bool where
  "invalid_daemon_probe_defaults_fail_even_without_transports \<longleftrightarrow>
     load_error \<lparr>c_daemon = daemon_default\<lparr>dm_default_probe := default_probe_default\<lparr>d_timeout_ms := - 1\<rparr>\<rparr>,
         c_peers = [], c_uplinks = []\<rparr>
       (\<lambda>e. e = DefaultProbeNotPositive (lit ''timeoutMs'') (- 1))"

lemma test_invalid_daemon_probe_defaults_fail_even_without_transports:
  invalid_daemon_probe_defaults_fail_even_without_transports
  by code_simp

definition hosts_file_tokens_are_validated_before_publication :: bool where
  "hosts_file_tokens_are_validated_before_publication \<longleftrightarrow>
     (let h = lit ''host'' @ [NL] @ lit ''# injected'' in
      load_error (one_peer ''host'' (read_peer [h] [read_transport ''192.0.2.10'' 10]))
        (\<lambda>e. e = HostnameNotToken (lit ''host'') h))"

lemma test_hosts_file_tokens_are_validated_before_publication: hosts_file_tokens_are_validated_before_publication
  by code_simp

definition one_uplink :: "int \<Rightarrow> config" where
  "one_uplink step = \<lparr>c_daemon = daemon_default, c_peers = [],
     c_uplinks = [(lit ''internet'', \<lparr>u_transports =
          [transport_default\<lparr>t_interface := lit ''wan0'', t_priority := 10,
             t_probe := probe_default\<lparr>p_target := lit ''192.0.2.53''\<rparr>\<rparr>],
        u_min_hold_ms = 0, u_route_metric = True, u_metric_base = 100, u_metric_step = step\<rparr>)]\<rparr>"

definition a_negative_metric_step_is_rejected :: bool where
  "a_negative_metric_step_is_rejected \<longleftrightarrow>
     load_error (one_uplink (- 10)) (\<lambda>e. e = MetricStepNotPositive (lit ''internet'') (- 10))"

lemma test_a_negative_metric_step_is_rejected: a_negative_metric_step_is_rejected
  by code_simp

definition an_omitted_metric_step_takes_the_default :: bool where
  "an_omitted_metric_step_takes_the_default \<longleftrightarrow>
     (case load_str (one_uplink 0) of
        Inr c \<Rightarrow> map_option u_metric_step (hm_get (c_uplinks c) (lit ''internet'')) = Some 10
      | Inl _ \<Rightarrow> False)"

lemma test_an_omitted_metric_step_takes_the_default: an_omitted_metric_step_takes_the_default
  by code_simp

section \<open>\<open>config_test.rs\<close>\<close>

text \<open>
  \<open>deserialize_with = "null_as_empty_string"\<close>, on the strings of the rendered file that Nix
  leaves null.
\<close>

definition null_as_empty_string :: "rstr option \<Rightarrow> rstr" where
  "null_as_empty_string v = (case v of Some s \<Rightarrow> s | None \<Rightarrow> [])"

definition rendered_transport ::
  "char list option \<Rightarrow> char list option \<Rightarrow> int \<Rightarrow> char list option \<Rightarrow> bool \<Rightarrow> int \<Rightarrow> char list option \<Rightarrow> int \<Rightarrow>
   char list \<Rightarrow> int \<Rightarrow> char list option \<Rightarrow> int \<Rightarrow> transport" where
  "rendered_transport address interface pr provider bound down exec interval meth port target up =
     \<lparr>t_ident = [], t_address = null_as_empty_string (map_option lit address),
      t_interface = null_as_empty_string (map_option lit interface), t_priority = pr,
      t_provider_id = null_as_empty_string (map_option lit provider),
      t_probe = \<lparr>p_method = lit meth, p_target = null_as_empty_string (map_option lit target), p_port = port,
        p_path = lit ''/'', p_bind_to_interface = bound, p_interval_ms = interval, p_timeout_ms = 800,
        p_up_threshold = up, p_down_threshold = down, p_exec = null_as_empty_string (map_option lit exec)\<rparr>\<rparr>"

definition nix_rendered_example :: config where
  "nix_rendered_example =
     \<lparr>c_daemon = \<lparr>dm_state_dir = lit ''/var/lib/nixnet'', dm_runtime_dir = lit ''nixnet'',
        dm_hosts_file = lit ''/var/lib/nixnet/hosts'',
        dm_ip_path = lit ''/nix/store/hs7f3v7j8z1w8xagq72y3510d2ad65n2-iproute2-7.1.0/bin/ip'',
        dm_default_probe = \<lparr>d_interval_ms = 3000, d_timeout_ms = 800, d_up_threshold = 2, d_down_threshold = 3\<rparr>\<rparr>,
      c_peers = [(lit ''host-b'', \<lparr>pe_hostnames = [lit ''host-b''],
        pe_transports =
          [rendered_transport None None 50 (Some ''netbird'') False 3
             (Some ''/nix/store/zgpqd8rgsnbvir2891mzfdnxxqa4lqsr-nixnet-netbird-address-probe-host-b/bin/nixnet-netbird-address-probe-host-b'')
             3000 ''exec'' 22 None 2,
           rendered_transport (Some ''192.0.2.20'') None 10 None False 3 None 2000 ''tcp'' 22 (Some ''192.0.2.20'') 2],
        pe_min_hold_ms = 10000, pe_on_all_down = lit ''lastKnownGood'', pe_max_age_sec = Some 900\<rparr>)],
      c_uplinks = [(lit ''internet'', \<lparr>u_transports =
          [rendered_transport None (Some ''wired0'') 10 None False 5 None 3000 ''tcp'' 443 (Some ''192.0.2.53'') 3,
           rendered_transport None (Some ''wireless0'') 50 None True 5 None 3000 ''icmp'' 22 (Some ''192.0.2.53'') 3],
        u_min_hold_ms = 15000, u_route_metric = True, u_metric_base = 100, u_metric_step = 50\<rparr>)]\<rparr>"

definition load_nix_rendered_example :: bool where
  "load_nix_rendered_example \<longleftrightarrow>
     (case load_str nix_rendered_example of
        Inl _ \<Rightarrow> False
      | Inr c \<Rightarrow>
          (case (hm_get (c_peers c) (lit ''host-b''), hm_get (c_uplinks c) (lit ''internet'')) of
             (Some p, Some u) \<Rightarrow>
               pe_hostnames p = [lit ''host-b''] \<and> length (pe_transports p) = 2 \<and>
               list_all (\<lambda>t.
                 if t_provider_id t = lit ''netbird'' then
                   p_method (t_probe t) = lit ''exec'' \<and> starts_with (lit ''/'') (p_exec (t_probe t))
                 else t_provider_id t = [] \<and> p_method (t_probe t) = lit ''tcp'' \<and>
                   effective_target t = lit ''192.0.2.20'') (pe_transports p) \<and>
               list_ex (\<lambda>t. t_provider_id t = lit ''netbird'') (pe_transports p) \<and>
               list_ex (\<lambda>t. t_provider_id t = []) (pe_transports p) \<and>
               length (u_transports u) = 2 \<and> list_all (\<lambda>t. t_interface t \<noteq> []) (u_transports u) \<and>
               u_route_metric u \<and> u_metric_base u = 100 \<and> u_metric_step u = 50 \<and>
               needs_net_admin c \<and> needs_net_raw c \<and> pe_max_age_sec p = Some 900
           | _ \<Rightarrow> False))"

lemma test_load_nix_rendered_example: load_nix_rendered_example
  by code_simp

definition bounded_peer :: "int option \<Rightarrow> config" where
  "bounded_peer bound =
     one_peer ''host-b'' ((read_peer [lit ''host-b''] [read_transport ''192.0.2.20'' 10])\<lparr>pe_max_age_sec := bound\<rparr>)"

definition an_unset_last_known_good_bound_reads_as_unbounded :: bool where
  "an_unset_last_known_good_bound_reads_as_unbounded \<longleftrightarrow>
     (case load_str (bounded_peer None) of
        Inr c \<Rightarrow> map_option pe_max_age_sec (hm_get (c_peers c) (lit ''host-b'')) = Some None
      | Inl _ \<Rightarrow> False)"

lemma test_an_unset_last_known_good_bound_reads_as_unbounded: an_unset_last_known_good_bound_reads_as_unbounded
  by code_simp

definition a_non_positive_last_known_good_bound_is_rejected :: bool where
  "a_non_positive_last_known_good_bound_is_rejected \<longleftrightarrow>
     load_error (bounded_peer (Some 0)) (\<lambda>e. e = MaxAgeNotPositive (lit ''host-b'') 0)"

lemma test_a_non_positive_last_known_good_bound_is_rejected: a_non_positive_last_known_good_bound_is_rejected
  by code_simp

end
