(* ===== verification/EngineKit.thy ===== *)
theory EngineKit
  imports Locked RouteTests HostsTests
begin

text \<open>
  What the unit tests of \<open>src/engine/mod.rs\<close> and \<open>src/engine/state.rs\<close> are built from: the
  groups and transports of the tests, an engine with the files of its temporary directory, and
  tests as sequences of steps.  A test says at which instant each of its steps reads the clock.
\<close>

section \<open>Groups\<close>

text \<open>The instant a test starts, and instants before it.\<close>

definition NOW :: int where
  "NOW = secs 1785900000"

definition ago :: "int \<Rightarrow> int" where
  "ago n = NOW - secs n"

definition test_peer_group :: "char list \<Rightarrow> int \<Rightarrow> rstr \<Rightarrow> group" where
  "test_peer_group name min_hold_ms on_all_down =
     \<lparr>g_kind = Peer, g_hostnames = [lit name], g_on_all_down = on_all_down, g_max_age = None, g_route_metric = False,
      g_metric_base = 0, g_metric_step = 0, g_min_hold = min_hold_ms, g_transports = [], g_winner = None,
      g_winner_since = None, g_degraded = False, g_published = [], g_confirmed = None, g_publish_error = []\<rparr>"

definition test_uplink_group :: "int \<Rightarrow> int \<Rightarrow> int \<Rightarrow> group" where
  "test_uplink_group min_hold_ms metric_base metric_step =
     \<lparr>g_kind = Uplink, g_hostnames = [], g_on_all_down = [], g_max_age = None, g_route_metric = True,
      g_metric_base = metric_base, g_metric_step = metric_step, g_min_hold = min_hold_ms, g_transports = [],
      g_winner = None, g_winner_since = None, g_degraded = False, g_published = [], g_confirmed = None,
      g_publish_error = []\<rparr>"

definition test_runtime :: "transport \<Rightarrow> transport_runtime" where
  "test_runtime spec =
     \<lparr>tr_spec = spec, tr_id = t_ident spec, tr_key = t_ident spec, tr_state = Unknown, tr_succ = 0, tr_fail = 0,
      tr_address = t_address spec, tr_detail = [], tr_last_success = Some NOW, tr_probe_started = None,
      tr_next_due = None\<rparr>"

definition add_uplink_transport :: "int \<Rightarrow> char list \<Rightarrow> group \<Rightarrow> group" where
  "add_uplink_transport priority interface g =
     g\<lparr>g_transports := g_transports g @
       [test_runtime (transport_default\<lparr>t_ident := lit interface, t_priority := priority,
          t_interface := lit interface\<rparr>)]\<rparr>"

definition add_transport :: "int \<Rightarrow> char list \<Rightarrow> group \<Rightarrow> group" where
  "add_transport priority address g =
     (let key = (if address = [] then lit ''test-dynamic'' else lit address) in
      g\<lparr>g_transports := g_transports g @
        [test_runtime (transport_default\<lparr>t_ident := key, t_priority := priority, t_address := lit address\<rparr>)]\<rparr>)"

definition with_transport :: "nat \<Rightarrow> (transport_runtime \<Rightarrow> transport_runtime) \<Rightarrow> group \<Rightarrow> group" where
  "with_transport i f g = g\<lparr>g_transports := (g_transports g)[i := f (g_transports g ! i)]\<rparr>"

definition in_state :: "nat \<Rightarrow> tstate \<Rightarrow> group \<Rightarrow> group" where
  "in_state i x g = with_transport i (\<lambda>tr. tr\<lparr>tr_state := x\<rparr>) g"

definition settled_uplink :: "(char list \<times> int) list \<Rightarrow> nat \<Rightarrow> group" where
  "settled_uplink ifaces winner =
     (foldl (\<lambda>g (iface, priority). in_state (length (g_transports g)) Up (add_uplink_transport priority iface g))
        (test_uplink_group 10000 100 50) ifaces)
     \<lparr>g_winner := Some winner, g_winner_since := Some NOW\<rparr>"

section \<open>Engines\<close>

record test_engine =
  te_pu :: "fake_dir publishers"
  te_state :: engine_state
  te_io :: "fake_dir io"

text \<open>An instant as it is written by the tests' formatter.\<close>

definition test_fmt :: time_format where
  "test_fmt t = Some (show_int t @ lit ''Z'')"

text \<open>The \<open>ip\<close> of the peers' tests, \<open>/bin/true\<close>: it exits with success and prints nothing.\<close>

definition true_env :: "fake_dir ip_env" where
  "true_env = \<lparr>ie_exec = (\<lambda>_ _ _ d. (fake_output True False [] [], d)), ie_parse = (\<lambda>_. Inl (lit ''EOF''))\<rparr>"

definition engine_on :: "fake_dir ip_env \<Rightarrow> fake_dir \<Rightarrow> hosts_fs \<Rightarrow> test_engine" where
  "engine_on ip d fs =
     \<lparr>te_pu = \<lparr>pu_hosts = publisher_on fs, pu_routes = rp0, pu_ip = ip, pu_fmt = test_fmt\<rparr>,
      te_state = \<lparr>en_peers = [], en_uplinks = [], en_hosts_error = []\<rparr>,
      te_io = \<lparr>io_hosts = fs, io_routes = \<lparr>is_world = d, is_log = []\<rparr>\<rparr>\<rparr>"

definition no_file :: hosts_fs where
  "no_file = \<lparr>hf_file = None, hf_read_fault = None, hf_faults = no_faults\<rparr>"

definition new_test_engine :: test_engine where
  "new_test_engine = engine_on true_env tempdir no_file"

definition new_routing_engine :: "fake_dir \<Rightarrow> test_engine" where
  "new_routing_engine d = engine_on (fake_env d) d no_file"

definition insert_peer :: "char list \<Rightarrow> group \<Rightarrow> test_engine \<Rightarrow> test_engine" where
  "insert_peer name g te = te\<lparr>te_state := put_group (te_state te) Peer (lit name) g\<rparr>"

definition insert_uplink :: "char list \<Rightarrow> group \<Rightarrow> test_engine \<Rightarrow> test_engine" where
  "insert_uplink name g te = te\<lparr>te_state := put_group (te_state te) Uplink (lit name) g\<rparr>"

section \<open>Steps\<close>

text \<open>A step is undefined where the test would panic; \<open>must\<close> is an assertion.\<close>

type_synonym step = "test_engine \<Rightarrow> test_engine option"

definition must :: "(test_engine \<Rightarrow> bool) \<Rightarrow> step" where
  "must p te = (if p te then Some te else None)"

definition edit :: "group_kind \<Rightarrow> char list \<Rightarrow> (group \<Rightarrow> group) \<Rightarrow> step" where
  "edit k name f te =
     map_option (\<lambda>g. te\<lparr>te_state := put_group (te_state te) k (lit name) (f g)\<rparr>) (get_group (te_state te) k (lit name))"

definition tick_at :: "int \<Rightarrow> group_kind \<Rightarrow> char list \<Rightarrow> step" where
  "tick_at now k name te =
     map_option (\<lambda>((st, io), lg). te\<lparr>te_state := st, te_io := io\<rparr>)
       (reconcile_locked (te_pu te) now k (lit name) (te_state te, te_io te))"

definition restored_peers_at :: "int \<Rightarrow> step" where
  "restored_peers_at now te =
     (case publish_restored_peers (te_pu te) now (te_state te, te_io te) of
        ((st, io), lg) \<Rightarrow> Some (te\<lparr>te_state := st, te_io := io\<rparr>))"

text \<open>Something else writes the hosts file.\<close>

definition overwrite_hosts :: "rstr \<Rightarrow> step" where
  "overwrite_hosts content te = Some (te\<lparr>te_io := (te_io te)\<lparr>io_hosts := dir_with content\<rparr>\<rparr>)"

fun run_steps :: "step list \<Rightarrow> step" where
  "run_steps [] te = Some te"
| "run_steps (f # fs) te = Option.bind (f te) (run_steps fs)"

definition passes :: "step list \<Rightarrow> test_engine \<Rightarrow> bool" where
  "passes steps te = (case run_steps steps te of Some _ \<Rightarrow> True | None \<Rightarrow> False)"

section \<open>Observations\<close>

definition group_is :: "group_kind \<Rightarrow> char list \<Rightarrow> (group \<Rightarrow> bool) \<Rightarrow> test_engine \<Rightarrow> bool" where
  "group_is k name p te = (case get_group (te_state te) k (lit name) of Some g \<Rightarrow> p g | None \<Rightarrow> False)"

definition hosts_text :: "test_engine \<Rightarrow> rstr" where
  "hosts_text te = content_of (io_hosts (te_io te))"

definition hosts_has :: "rstr \<Rightarrow> test_engine \<Rightarrow> bool" where
  "hosts_has s te = contains (hosts_text te) s"

text \<open>The recorded calls of \<open>ip\<close>, as \<open>argv.log\<close> has them.\<close>

definition invocations :: "test_engine \<Rightarrow> rstr list list" where
  "invocations te = map fst (is_log (io_routes (te_io te)))"

abbreviation host_b :: "char list" where
  "host_b \<equiv> ''host-b''"

abbreviation lan :: "char list" where
  "lan \<equiv> ''192.0.2.10''"

abbreviation alt :: "char list" where
  "alt \<equiv> ''192.0.2.20''"

end
