(* ===== verification/EngineTests.thy ===== *)
theory EngineTests
  imports EngineKit
begin

text \<open>
  The unit tests of \<open>src/engine/mod.rs\<close> on reconciliation and staleness, evaluated on the model:
  each definition is the assertion of the test of that name, and its lemma says that the model
  passes it.  A tick is \<open>reconcile_locked\<close>, as in the tests.
\<close>

section \<open>Winner selection\<close>

definition reconcile_picks_lowest_priority_healthy :: bool where
  "reconcile_picks_lowest_priority_healthy \<longleftrightarrow>
     (let g = add_transport 50 alt (add_transport 10 lan (test_peer_group host_b 0 ON_ALL_DOWN_LAST_KNOWN_GOOD)) in
      passes
        [edit Peer host_b (in_state 1 Up), tick_at NOW Peer host_b,
         must (group_is Peer host_b (\<lambda>g. g_winner g = Some 1 \<and> g_published g = lit alt)),
         edit Peer host_b (in_state 0 Up), tick_at (NOW + ms 1) Peer host_b,
         must (group_is Peer host_b (\<lambda>g. g_winner g = Some 0))]
        (insert_peer host_b g new_test_engine))"

lemma test_reconcile_picks_lowest_priority_healthy: reconcile_picks_lowest_priority_healthy
  by code_simp

definition reconcile_hysteresis_damps_better_option :: bool where
  "reconcile_hysteresis_damps_better_option \<longleftrightarrow>
     (let g = add_transport 10 lan (add_transport 50 alt (test_peer_group host_b 10000 ON_ALL_DOWN_LAST_KNOWN_GOOD)) in
      passes
        [edit Peer host_b (in_state 0 Up), tick_at NOW Peer host_b,
         must (group_is Peer host_b (\<lambda>g. g_winner g = Some 0)),
         edit Peer host_b (in_state 1 Up), tick_at (NOW + ms 1) Peer host_b,
         must (group_is Peer host_b (\<lambda>g. g_winner g = Some 0)),
         edit Peer host_b (\<lambda>g. g\<lparr>g_winner_since := Some (NOW + ms 2 - secs 11)\<rparr>), tick_at (NOW + ms 2) Peer host_b,
         must (group_is Peer host_b (\<lambda>g. g_winner g = Some 1))]
        (insert_peer host_b g new_test_engine))"

lemma test_reconcile_hysteresis_damps_better_option: reconcile_hysteresis_damps_better_option
  by code_simp

definition reconcile_dead_winner_switches_immediately :: bool where
  "reconcile_dead_winner_switches_immediately \<longleftrightarrow>
     (let g = add_transport 50 alt (add_transport 10 lan (test_peer_group host_b 10000 ON_ALL_DOWN_LAST_KNOWN_GOOD)) in
      passes
        [edit Peer host_b (in_state 0 Up \<circ> in_state 1 Up), tick_at NOW Peer host_b,
         must (group_is Peer host_b (\<lambda>g. g_winner g = Some 0 \<and> g_winner_since g = Some NOW)),
         edit Peer host_b (in_state 0 Down), tick_at (NOW + ms 1) Peer host_b,
         must (group_is Peer host_b (\<lambda>g. g_winner g = Some 1 \<and>
           (case g_winner_since g of Some t \<Rightarrow> NOW < t | None \<Rightarrow> False)))]
        (insert_peer host_b g new_test_engine))"

lemma test_reconcile_dead_winner_switches_immediately: reconcile_dead_winner_switches_immediately
  by code_simp

definition reconcile_on_all_down_last_known_good :: bool where
  "reconcile_on_all_down_last_known_good \<longleftrightarrow>
     (let g = add_transport 10 lan (test_peer_group host_b 10000 ON_ALL_DOWN_LAST_KNOWN_GOOD) in
      passes
        [edit Peer host_b (in_state 0 Up), tick_at NOW Peer host_b,
         must (group_is Peer host_b (\<lambda>g. \<not> g_degraded g)),
         edit Peer host_b (in_state 0 Down), tick_at (NOW + ms 1) Peer host_b,
         must (group_is Peer host_b (\<lambda>g. g_degraded g \<and> g_published g = lit lan \<and> g_winner g = Some 0))]
        (insert_peer host_b g new_test_engine))"

lemma test_reconcile_on_all_down_last_known_good: reconcile_on_all_down_last_known_good
  by code_simp

definition reconcile_on_all_down_unpublish :: bool where
  "reconcile_on_all_down_unpublish \<longleftrightarrow>
     (let g = add_transport 10 lan (test_peer_group host_b 10000 ON_ALL_DOWN_UNPUBLISH) in
      passes
        [edit Peer host_b (in_state 0 Up), tick_at NOW Peer host_b,
         edit Peer host_b (in_state 0 Down), tick_at (NOW + ms 1) Peer host_b,
         must (group_is Peer host_b (\<lambda>g. g_published g = [] \<and> g_winner g = None))]
        (insert_peer host_b g new_test_engine))"

lemma test_reconcile_on_all_down_unpublish: reconcile_on_all_down_unpublish
  by code_simp

section \<open>Uplinks\<close>

definition canned_default :: "char list \<Rightarrow> char list \<Rightarrow> char list \<Rightarrow> int \<Rightarrow> fake_dir \<Rightarrow> fake_dir" where
  "canned_default iface json gateway metric d = canned_route iface json [via gateway metric] d"

definition two_uplinks :: test_engine where
  "two_uplinks =
     insert_uplink ''internet'' (settled_uplink [(''wired0'', 10), (''wireless0'', 50)] 0)
       (new_routing_engine
         (canned_default ''wireless0'' ''[{`dst`:`default`,`gateway`:`192.0.2.129`,`dev`:`wireless0`,`metric`:150,`flags`:[]}]''
            ''192.0.2.129'' 150
           (canned_default ''wired0'' ''[{`dst`:`default`,`gateway`:`192.0.2.1`,`dev`:`wired0`,`metric`:100,`flags`:[]}]''
              ''192.0.2.1'' 100 tempdir)))"

definition a_settled_single_uplink_host_still_publishes_its_metric :: bool where
  "a_settled_single_uplink_host_still_publishes_its_metric \<longleftrightarrow>
     (let d = canned_default ''wan0''
            ''[{`dst`:`default`,`gateway`:`192.0.2.1`,`dev`:`wan0`,`protocol`:`dhcp`,`metric`:600,`flags`:[]}]''
            ''192.0.2.1'' 600 tempdir in
      passes
        [tick_at NOW Uplink ''internet'',
         must (\<lambda>te. published_metrics (invocations te) = [(lit ''wan0'', Some 100)])]
        (insert_uplink ''internet'' (settled_uplink [(''wan0'', 10)] 0) (new_routing_engine d)))"

lemma test_a_settled_single_uplink_host_still_publishes_its_metric:
  a_settled_single_uplink_host_still_publishes_its_metric
  by code_simp

definition an_uplink_reconcile_against_an_agreeing_table_writes_nothing :: bool where
  "an_uplink_reconcile_against_an_agreeing_table_writes_nothing \<longleftrightarrow>
     (let d = canned_default ''wan0'' ''[{`dst`:`default`,`gateway`:`192.0.2.1`,`dev`:`wan0`,`metric`:100,`flags`:[]}]''
            ''192.0.2.1'' 100 tempdir in
      passes
        [tick_at NOW Uplink ''internet'', tick_at (NOW + ms 1) Uplink ''internet'', tick_at (NOW + ms 2) Uplink ''internet'',
         must (\<lambda>te. invocations te \<noteq> [] \<and> writes (invocations te) = [])]
        (insert_uplink ''internet'' (settled_uplink [(''wan0'', 10)] 0) (new_routing_engine d)))"

lemma test_an_uplink_reconcile_against_an_agreeing_table_writes_nothing:
  an_uplink_reconcile_against_an_agreeing_table_writes_nothing
  by code_simp

definition a_winner_change_leaves_no_two_transports_sharing_a_metric :: bool where
  "a_winner_change_leaves_no_two_transports_sharing_a_metric \<longleftrightarrow>
     passes
       [edit Uplink ''internet'' (in_state 0 Down), tick_at (NOW + ms 1) Uplink ''internet'',
        must (group_is Uplink ''internet'' (\<lambda>g. g_winner g = Some 1)),
        must (\<lambda>te. let metrics = published_metrics (invocations te) in
          (case (map_of metrics (lit ''wireless0''), map_of metrics (lit ''wired0'')) of
             (Some (Some winner), Some (Some loser)) \<Rightarrow> winner < loser | _ \<Rightarrow> False) \<and>
          distinct (map snd metrics))]
       two_uplinks"

lemma test_a_winner_change_leaves_no_two_transports_sharing_a_metric:
  a_winner_change_leaves_no_two_transports_sharing_a_metric
  by code_simp

text \<open>The recorded commands against the routes of one interface, by their metrics.\<close>

fun replay :: "rstr \<Rightarrow> rstr list list \<Rightarrow> int list \<Rightarrow> int list option" where
  "replay iface [] mets = Some mets"
| "replay iface (a # as) mets =
     (if iface \<in> set a then
        (case parse_decimal (last a) of
           None \<Rightarrow> None
         | Some m \<Rightarrow>
             if a ! 1 = lit ''replace'' then replay iface as (if m \<in> set mets then mets else mets @ [m])
             else if a ! 1 = lit ''del'' then replay iface as (filter (\<lambda>x. x \<noteq> m) mets)
             else None)
      else replay iface as mets)"

definition the_demoted_loser_keeps_a_default_route :: bool where
  "the_demoted_loser_keeps_a_default_route \<longleftrightarrow>
     passes
       [edit Uplink ''internet'' (in_state 0 Down), tick_at (NOW + ms 1) Uplink ''internet'',
        must (\<lambda>te. replay (lit ''wired0'') (writes (invocations te)) [100] = Some [150])]
       two_uplinks"

lemma test_the_demoted_loser_keeps_a_default_route: the_demoted_loser_keeps_a_default_route
  by code_simp

definition a_down_transport_ranks_behind_every_healthy_one :: bool where
  "a_down_transport_ranks_behind_every_healthy_one \<longleftrightarrow>
     (let g = add_uplink_transport 20 ''wwan0'' (add_uplink_transport 50 ''wireless0''
            (add_uplink_transport 10 ''wired0'' (test_uplink_group 0 100 50)));
          g' = (in_state 0 Down (in_state 1 Up (in_state 2 Up g)))\<lparr>g_winner := Some 2\<rparr>
      in map ri_interface (uplink_ranking g') = [lit ''wwan0'', lit ''wireless0'', lit ''wired0''])"

lemma test_a_down_transport_ranks_behind_every_healthy_one: a_down_transport_ranks_behind_every_healthy_one
  by code_simp

definition two_transports_on_one_interface_are_published_once :: bool where
  "two_transports_on_one_interface_are_published_once \<longleftrightarrow>
     (let g = in_state 0 Up (in_state 1 Up
            (add_uplink_transport 10 ''wan0'' (add_uplink_transport 10 ''wan0'' (test_uplink_group 0 100 50))))
      in length (uplink_ranking (g\<lparr>g_winner := Some 0\<rparr>)) = 1)"

lemma test_two_transports_on_one_interface_are_published_once: two_transports_on_one_interface_are_published_once
  by code_simp

definition an_uplink_with_route_metric_off_publishes_nothing :: bool where
  "an_uplink_with_route_metric_off_publishes_nothing \<longleftrightarrow>
     passes
       [edit Uplink ''internet'' (\<lambda>g. g\<lparr>g_route_metric := False\<rparr>), tick_at NOW Uplink ''internet'',
        must (\<lambda>te. invocations te = [])]
       (insert_uplink ''internet'' (settled_uplink [(''wan0'', 10)] 0) (new_routing_engine tempdir))"

lemma test_an_uplink_with_route_metric_off_publishes_nothing: an_uplink_with_route_metric_off_publishes_nothing
  by code_simp

section \<open>The hosts file\<close>

text \<open>
  What \<open>publish\<close> writes has the instant of the write in it, and the steps of a test have
  different instants; so a text that is the same after a step was not written by it.
\<close>

definition startup_publish_skipped_when_nothing_was_restored :: bool where
  "startup_publish_skipped_when_nothing_was_restored \<longleftrightarrow>
     (let seed = unlines [lit ''# BEGIN nixnet'', tab lan ''host-b'', lit ''# END nixnet''];
          g = test_peer_group host_b 0 ON_ALL_DOWN_LAST_KNOWN_GOOD in
      passes [restored_peers_at NOW, must (\<lambda>te. hosts_text te = seed)]
        (insert_peer host_b g (engine_on true_env tempdir (dir_with seed))))"

lemma test_startup_publish_skipped_when_nothing_was_restored: startup_publish_skipped_when_nothing_was_restored
  by code_simp

definition a_hosts_block_emptied_behind_the_daemon_is_restored_on_the_next_tick :: bool where
  "a_hosts_block_emptied_behind_the_daemon_is_restored_on_the_next_tick \<longleftrightarrow>
     (let g = (in_state 0 Up (add_transport 10 lan (test_peer_group host_b 10000 ON_ALL_DOWN_LAST_KNOWN_GOOD)))
            \<lparr>g_winner := Some 0, g_winner_since := Some NOW, g_published := lit lan\<rparr> in
      passes
        [overwrite_hosts (unlines [lit ''# BEGIN nixnet'', lit ''# END nixnet'']), tick_at (NOW + ms 1) Peer host_b,
         must (hosts_has (tab lan host_b))]
        (insert_peer host_b g new_test_engine))"

lemma test_a_hosts_block_emptied_behind_the_daemon_is_restored_on_the_next_tick:
  a_hosts_block_emptied_behind_the_daemon_is_restored_on_the_next_tick
  by code_simp

definition a_peer_reconcile_that_changes_nothing_does_not_rewrite_the_file :: bool where
  "a_peer_reconcile_that_changes_nothing_does_not_rewrite_the_file \<longleftrightarrow>
     (let g = add_transport 10 lan (test_peer_group host_b 10000 ON_ALL_DOWN_LAST_KNOWN_GOOD);
          confirm = edit Peer host_b (\<lambda>g. g\<lparr>g_confirmed := Some (ago 1)\<rparr>) in
      case run_steps [edit Peer host_b (in_state 0 Up), tick_at NOW Peer host_b] (insert_peer host_b g new_test_engine) of
        Some te1 \<Rightarrow>
          hosts_text te1 \<noteq> [] \<and>
          passes
            [confirm, tick_at (NOW + ms 1) Peer host_b, confirm, tick_at (NOW + ms 2) Peer host_b,
             confirm, tick_at (NOW + ms 3) Peer host_b, must (\<lambda>te. hosts_text te = hosts_text te1)]
            te1
      | None \<Rightarrow> False)"

lemma test_a_peer_reconcile_that_changes_nothing_does_not_rewrite_the_file:
  a_peer_reconcile_that_changes_nothing_does_not_rewrite_the_file
  by code_simp

definition a_passive_tick_never_writes_an_empty_block_over_the_seed :: bool where
  "a_passive_tick_never_writes_an_empty_block_over_the_seed \<longleftrightarrow>
     (let seed = unlines [lit ''# BEGIN nixnet'', tab lan ''host-b'', lit ''# END nixnet''];
          g = add_transport 10 lan (test_peer_group host_b 0 ON_ALL_DOWN_LAST_KNOWN_GOOD) in
      passes [tick_at NOW Peer host_b, must (\<lambda>te. hosts_text te = seed)]
        (insert_peer host_b g (engine_on true_env tempdir (dir_with seed))))"

lemma test_a_passive_tick_never_writes_an_empty_block_over_the_seed:
  a_passive_tick_never_writes_an_empty_block_over_the_seed
  by code_simp

section \<open>Staleness\<close>

definition staleness_without_a_bound_never_expires :: bool where
  "staleness_without_a_bound_never_expires \<longleftrightarrow>
     staleness None (Some (ago (11 * 24 * 3600))) NOW = Fresh \<and> staleness None None NOW = Fresh"

lemma test_staleness_without_a_bound_never_expires: staleness_without_a_bound_never_expires
  by code_simp

definition staleness_inside_the_bound_is_fresh :: bool where
  "staleness_inside_the_bound_is_fresh \<longleftrightarrow>
     staleness (Some 60) (Some (ago 59)) NOW = Fresh"

lemma test_staleness_inside_the_bound_is_fresh: staleness_inside_the_bound_is_fresh
  by code_simp

definition staleness_exactly_at_the_bound_is_still_fresh :: bool where
  "staleness_exactly_at_the_bound_is_still_fresh \<longleftrightarrow>
     staleness (Some 60) (Some (ago 60)) NOW = Fresh \<and>
     (case staleness (Some 60) (Some (ago 61)) NOW of Expired _ \<Rightarrow> True | _ \<Rightarrow> False)"

lemma test_staleness_exactly_at_the_bound_is_still_fresh: staleness_exactly_at_the_bound_is_still_fresh
  by code_simp

definition staleness_past_the_bound_reports_the_age :: bool where
  "staleness_past_the_bound_reports_the_age \<longleftrightarrow>
     (case staleness (Some 60) (Some (ago 3600)) NOW of Expired age \<Rightarrow> age div secs 1 = 3600 | _ \<Rightarrow> False)"

lemma test_staleness_past_the_bound_reports_the_age: staleness_past_the_bound_reports_the_age
  by code_simp

definition staleness_with_a_bound_but_no_confirmation_expires :: bool where
  "staleness_with_a_bound_but_no_confirmation_expires \<longleftrightarrow>
     staleness (Some 60) None NOW = ExpiredUnknownAge"

lemma test_staleness_with_a_bound_but_no_confirmation_expires: staleness_with_a_bound_but_no_confirmation_expires
  by code_simp

definition staleness_survives_a_clock_that_moved_backwards :: bool where
  "staleness_survives_a_clock_that_moved_backwards \<longleftrightarrow>
     staleness (Some 60) (Some (NOW + secs (2 * 3600))) NOW = Fresh"

lemma test_staleness_survives_a_clock_that_moved_backwards: staleness_survives_a_clock_that_moved_backwards
  by code_simp

section \<open>The last known good, live\<close>

definition another_transports_tick_does_not_refresh_the_winners_evidence :: bool where
  "another_transports_tick_does_not_refresh_the_winners_evidence \<longleftrightarrow>
     (let g = in_state 0 Up (in_state 1 Up
            (add_transport 20 alt (add_transport 10 lan (test_peer_group host_b 0 ON_ALL_DOWN_LAST_KNOWN_GOOD))));
          g' = (with_transport 0 (\<lambda>tr. tr\<lparr>tr_last_success := Some (ago 3600)\<rparr>) g)
            \<lparr>g_winner := Some 0, g_winner_since := Some (ago 3600), g_published := lit lan,
             g_confirmed := Some (ago 3600)\<rparr> in
      passes
        [tick_at (NOW + ms 1) Peer host_b,
         must (group_is Peer host_b (\<lambda>g. case g_confirmed g of Some t \<Rightarrow> t < ago 3500 | None \<Rightarrow> False))]
        (insert_peer host_b g' new_test_engine))"

lemma test_another_transports_tick_does_not_refresh_the_winners_evidence:
  another_transports_tick_does_not_refresh_the_winners_evidence
  by code_simp

definition reconcile_withdraws_last_known_good_past_the_bound :: bool where
  "reconcile_withdraws_last_known_good_past_the_bound \<longleftrightarrow>
     (let g = (add_transport 10 lan (test_peer_group host_b 0 ON_ALL_DOWN_LAST_KNOWN_GOOD))\<lparr>g_max_age := Some 60\<rparr> in
      passes
        [edit Peer host_b (in_state 0 Up), tick_at NOW Peer host_b, must (hosts_has (lit lan)),
         edit Peer host_b (\<lambda>g. (in_state 0 Down g)\<lparr>g_confirmed := Some (ago 3600)\<rparr>), tick_at (NOW + ms 1) Peer host_b,
         must (\<lambda>te. \<not> hosts_has (lit lan) te),
         must (group_is Peer host_b (\<lambda>g. g_published g = [] \<and> g_winner g = None \<and> g_degraded g))]
        (insert_peer host_b g new_test_engine))"

lemma test_reconcile_withdraws_last_known_good_past_the_bound: reconcile_withdraws_last_known_good_past_the_bound
  by code_simp

definition reconcile_keeps_last_known_good_inside_the_bound :: bool where
  "reconcile_keeps_last_known_good_inside_the_bound \<longleftrightarrow>
     (let g = (add_transport 10 lan (test_peer_group host_b 0 ON_ALL_DOWN_LAST_KNOWN_GOOD))\<lparr>g_max_age := Some 3600\<rparr> in
      passes
        [edit Peer host_b (in_state 0 Up), tick_at NOW Peer host_b,
         edit Peer host_b (\<lambda>g. (in_state 0 Down g)\<lparr>g_confirmed := Some (ago 30)\<rparr>), tick_at (NOW + ms 1) Peer host_b,
         must (hosts_has (lit lan)), must (group_is Peer host_b g_degraded)]
        (insert_peer host_b g new_test_engine))"

lemma test_reconcile_keeps_last_known_good_inside_the_bound: reconcile_keeps_last_known_good_inside_the_bound
  by code_simp

definition a_withdrawn_peer_is_published_again_when_it_comes_back :: bool where
  "a_withdrawn_peer_is_published_again_when_it_comes_back \<longleftrightarrow>
     (let g = (add_transport 10 lan (test_peer_group host_b 0 ON_ALL_DOWN_LAST_KNOWN_GOOD))
            \<lparr>g_max_age := Some 60, g_published := lit lan, g_confirmed := Some (ago 3600)\<rparr> in
      passes
        [tick_at NOW Peer host_b, must (\<lambda>te. hf_file (io_hosts (te_io te)) \<noteq> None \<and> \<not> hosts_has (lit lan) te),
         edit Peer host_b (in_state 0 Up), tick_at (NOW + ms 1) Peer host_b, must (hosts_has (lit lan)),
         must (group_is Peer host_b (\<lambda>g. \<not> g_degraded g \<and>
           (case g_confirmed g of Some t \<Rightarrow> ago 5 < t | None \<Rightarrow> False)))]
        (insert_peer host_b g new_test_engine))"

lemma test_a_withdrawn_peer_is_published_again_when_it_comes_back:
  a_withdrawn_peer_is_published_again_when_it_comes_back
  by code_simp

definition the_bound_does_not_apply_to_unpublish_peers :: bool where
  "the_bound_does_not_apply_to_unpublish_peers \<longleftrightarrow>
     (let g = (add_transport 10 lan (test_peer_group host_b 0 ON_ALL_DOWN_UNPUBLISH))\<lparr>g_max_age := Some 60\<rparr> in
      passes
        [edit Peer host_b (in_state 0 Up), tick_at NOW Peer host_b,
         edit Peer host_b (in_state 0 Down), tick_at (NOW + ms 1) Peer host_b,
         must (group_is Peer host_b (\<lambda>g. g_published g = []))]
        (insert_peer host_b g new_test_engine))"

lemma test_the_bound_does_not_apply_to_unpublish_peers: the_bound_does_not_apply_to_unpublish_peers
  by code_simp

definition reconcile_address_drift_republishes_without_winner_change :: bool where
  "reconcile_address_drift_republishes_without_winner_change \<longleftrightarrow>
     (let g = with_transport 0 (\<lambda>tr. tr\<lparr>tr_spec := (tr_spec tr)\<lparr>t_provider_id := lit ''netbird''\<rparr>\<rparr>)
            (add_transport 10 ''203.0.113.5'' (test_peer_group host_b 10000 ON_ALL_DOWN_LAST_KNOWN_GOOD));
          at = (\<lambda>a. edit Peer host_b (with_transport 0 (\<lambda>tr. tr\<lparr>tr_address := lit a\<rparr>))) in
      passes
        [edit Peer host_b (in_state 0 Up), at ''203.0.113.5'', tick_at NOW Peer host_b,
         must (group_is Peer host_b (\<lambda>g. g_published g = lit ''203.0.113.5'' \<and> g_winner g = Some 0)),
         at ''203.0.113.99'', tick_at (NOW + ms 1) Peer host_b,
         must (group_is Peer host_b (\<lambda>g. g_winner g = Some 0 \<and> g_published g = lit ''203.0.113.99''))]
        (insert_peer host_b g new_test_engine))"

lemma test_reconcile_address_drift_republishes_without_winner_change:
  reconcile_address_drift_republishes_without_winner_change
  by code_simp

end
