(* ===== verification/StateTests.thy ===== *)
theory StateTests
  imports EngineKit Store
begin

text \<open>
  The unit tests of \<open>src/engine/state.rs\<close>, evaluated on the model.  A state file that a test
  writes by hand is given as what \<open>serde_json\<close> reads in it: a field that is not in the text has
  its default.  That the field names of the file are those the boot seed expects is a fact of
  the struct attributes and of \<open>serde_json\<close>, not of the model.
\<close>

section \<open>State files and restarts\<close>

text \<open>The quantifier of \<open>winner_static_changed\<close> has one candidate.\<close>

lemma winner_static_changed_code [code]:
  "winner_static_changed pts g =
     (case g_winner g of
        None \<Rightarrow> False
      | Some i \<Rightarrow> i < length (g_transports g) \<and>
          (case saved_by_id pts (tr_key (g_transports g ! i)) of
             None \<Rightarrow> False
           | Some pt \<Rightarrow> static_changed (g_transports g ! i) pt))"
  by (auto simp: winner_static_changed_def split: option.split)

definition saved_transport :: "char list \<Rightarrow> char list \<Rightarrow> int \<Rightarrow> int \<Rightarrow> char list \<Rightarrow> int option \<Rightarrow> persisted_transport" where
  "saved_transport key st succ fail address success =
     \<lparr>pt_ident = lit key, pt_state = lit st, pt_succ = succ, pt_fail = fail, pt_address = lit address,
      pt_last_success = success\<rparr>"

definition saved_group ::
  "char list \<Rightarrow> int option \<Rightarrow> int option \<Rightarrow> bool \<Rightarrow> char list \<Rightarrow> persisted_transport list \<Rightarrow> persisted_group" where
  "saved_group winner since confirmed degraded published ts =
     \<lparr>pg_winner_id = lit winner, pg_winner_since = since, pg_confirmed = confirmed, pg_degraded = degraded,
      pg_published = lit published, pg_transports = ts\<rparr>"

definition write_state_json :: "char list \<Rightarrow> int option \<Rightarrow> bool \<Rightarrow> persisted_state" where
  "write_state_json addr confirmed_at degraded =
     \<lparr>ps_peers = [(lit host_b, saved_group addr None confirmed_at degraded addr
        [saved_transport addr ''down'' 0 48000 [] confirmed_at])],
      ps_uplinks = []\<rparr>"

text \<open>A peer's state, loaded from the contents of a file.\<close>

definition loaded :: "persisted_state \<Rightarrow> group \<Rightarrow> engine_state" where
  "loaded ps g = fst (load_state Inr NOW NOW (StateData ps) \<lparr>en_peers = [(lit host_b, g)], en_uplinks = [], en_hosts_error = []\<rparr>)"

definition restart_with_state :: "int option \<Rightarrow> int option \<Rightarrow> bool \<Rightarrow> test_engine" where
  "restart_with_state max_age_sec confirmed_at degraded =
     new_test_engine\<lparr>te_state := loaded (write_state_json lan confirmed_at degraded)
       ((add_transport 10 lan (test_peer_group host_b 0 ON_ALL_DOWN_LAST_KNOWN_GOOD))
          \<lparr>g_max_age := max_age_sec, g_winner := Some 0\<rparr>)\<rparr>"

definition restored_peer :: "(group \<Rightarrow> bool) \<Rightarrow> engine_state \<Rightarrow> bool" where
  "restored_peer p st = (case get_group st Peer (lit host_b) of Some g \<Rightarrow> p g | None \<Rightarrow> False)"

definition published_after_startup :: "test_engine \<Rightarrow> rstr" where
  "published_after_startup te = (case restored_peers_at NOW te of Some te' \<Rightarrow> hosts_text te' | None \<Rightarrow> [])"

section \<open>The age bound on restore\<close>

definition restore_drops_a_last_known_good_older_than_the_bound :: bool where
  "restore_drops_a_last_known_good_older_than_the_bound \<longleftrightarrow>
     (let te = restart_with_state (Some 60) (Some (ago (11 * 24 * 3600))) True in
      \<not> contains (published_after_startup te) (lit lan) \<and>
      restored_peer (\<lambda>g. g_published g = [] \<and> g_winner g = None) (te_state te))"

lemma test_restore_drops_a_last_known_good_older_than_the_bound:
  restore_drops_a_last_known_good_older_than_the_bound
  by code_simp

definition restore_keeps_a_last_known_good_inside_the_bound :: bool where
  "restore_keeps_a_last_known_good_inside_the_bound \<longleftrightarrow>
     (let te = restart_with_state (Some 3600) (Some (ago 30)) True in
      contains (published_after_startup te) (lit lan) \<and>
      restored_peer (\<lambda>g. g_published g = lit lan \<and> g_winner g = Some 0 \<and> g_confirmed g \<noteq> None) (te_state te))"

lemma test_restore_keeps_a_last_known_good_inside_the_bound: restore_keeps_a_last_known_good_inside_the_bound
  by code_simp

definition restore_expires_an_old_entry_that_was_persisted_degraded :: bool where
  "restore_expires_an_old_entry_that_was_persisted_degraded \<longleftrightarrow>
     restored_peer (\<lambda>g. g_published g = []) (te_state (restart_with_state (Some 60) (Some (ago (11 * 24 * 3600))) True))"

lemma test_restore_expires_an_old_entry_that_was_persisted_degraded:
  restore_expires_an_old_entry_that_was_persisted_degraded
  by code_simp

definition restore_expires_an_old_entry_that_was_persisted_healthy :: bool where
  "restore_expires_an_old_entry_that_was_persisted_healthy \<longleftrightarrow>
     (let te = restart_with_state (Some 60) (Some (ago (30 * 24 * 3600))) False in
      \<not> contains (published_after_startup te) (lit lan) \<and> restored_peer (\<lambda>g. g_published g = []) (te_state te))"

lemma test_restore_expires_an_old_entry_that_was_persisted_healthy:
  restore_expires_an_old_entry_that_was_persisted_healthy
  by code_simp

definition restore_drops_a_bounded_entry_with_no_confirmation_rather_than_trusting_it :: bool where
  "restore_drops_a_bounded_entry_with_no_confirmation_rather_than_trusting_it \<longleftrightarrow>
     restored_peer (\<lambda>g. g_published g = []) (te_state (restart_with_state (Some 60) None True))"

lemma test_restore_drops_a_bounded_entry_with_no_confirmation_rather_than_trusting_it:
  restore_drops_a_bounded_entry_with_no_confirmation_rather_than_trusting_it
  by code_simp

definition restore_keeps_an_unbounded_entry_however_old :: bool where
  "restore_keeps_an_unbounded_entry_however_old \<longleftrightarrow>
     (let te = restart_with_state None (Some (ago (11 * 24 * 3600))) True in
      contains (published_after_startup te) (lit lan) \<and> restored_peer (\<lambda>g. g_published g = lit lan) (te_state te))"

lemma test_restore_keeps_an_unbounded_entry_however_old: restore_keeps_an_unbounded_entry_however_old
  by code_simp

section \<open>Saving and loading\<close>

text \<open>\<open>save_state_locked\<close>, the unthrottled save of the tests, and a restart from what it wrote.\<close>

definition save_state_locked ::
  "store_env \<Rightarrow> faults \<Rightarrow> engine_state \<Rightarrow> 8 word list disk_file option \<Rightarrow> 8 word list disk_file option option" where
  "save_state_locked env flt st file =
     do {
       r \<leftarrow> serialized_state env st;
       Some (case r of Inl e \<Rightarrow> file | Inr bytes \<Rightarrow> fst (snd (write_state_data flt bytes file)))
     }"

definition saved_and_loaded :: "group \<Rightarrow> group \<Rightarrow> engine_state option" where
  "saved_and_loaded g fresh =
     (let st = \<lparr>en_peers = [(lit host_b, g)], en_uplinks = [], en_hosts_error = []\<rparr>; env = demo_store st in
      case save_state_locked env no_faults st None of
        Some (Some f) \<Rightarrow>
          Some (fst (load_state (sv_parse env) NOW NOW (StateData (f_data f))
                  \<lparr>en_peers = [(lit host_b, fresh)], en_uplinks = [], en_hosts_error = []\<rparr>))
      | _ \<Rightarrow> None)"

definition save_records_the_confirmation_time_and_load_reads_it_back :: bool where
  "save_records_the_confirmation_time_and_load_reads_it_back \<longleftrightarrow>
     (let fresh = add_transport 10 lan (test_peer_group host_b 0 ON_ALL_DOWN_LAST_KNOWN_GOOD);
          g = fresh\<lparr>g_published := lit lan, g_confirmed := Some (ago 120), g_winner := Some 0\<rparr> in
      case saved_and_loaded g fresh of
        Some st \<Rightarrow> restored_peer (\<lambda>g. g_confirmed g = Some (ago 120)) st
      | None \<Rightarrow> False)"

lemma test_save_records_the_confirmation_time_and_load_reads_it_back:
  save_records_the_confirmation_time_and_load_reads_it_back
  by code_simp

definition restore_matches_transports_and_winner_by_stable_identity :: bool where
  "restore_matches_transports_and_winner_by_stable_identity \<longleftrightarrow>
     (let peer = test_peer_group host_b 0 ON_ALL_DOWN_LAST_KNOWN_GOOD;
          original = add_transport 20 ''100.64.0.10'' (add_transport 10 lan peer);
          original' = (with_transport 0 (\<lambda>tr. tr\<lparr>tr_state := Down, tr_fail := 7\<rparr>)
              (with_transport 1 (\<lambda>tr. tr\<lparr>tr_state := Up, tr_succ := 11\<rparr>) original))
            \<lparr>g_winner := Some 1, g_published := lit ''100.64.0.10'', g_confirmed := Some (ago 5)\<rparr>;
          reordered = add_transport 10 lan (add_transport 20 ''100.64.0.10'' peer) in
      case saved_and_loaded original' reordered of
        Some st \<Rightarrow>
          restored_peer (\<lambda>g. g_winner g = Some 0 \<and>
            map (\<lambda>tr. (tr_state tr, tr_succ tr, tr_fail tr)) (g_transports g) = [(Up, 11, 0), (Down, 0, 7)]) st
      | None \<Rightarrow> False)"

lemma test_restore_matches_transports_and_winner_by_stable_identity:
  restore_matches_transports_and_winner_by_stable_identity
  by code_simp

definition legacy_position_only_state_cold_starts_instead_of_guessing :: bool where
  "legacy_position_only_state_cold_starts_instead_of_guessing \<longleftrightarrow>
     (let ps = \<lparr>ps_peers = [(lit host_b, saved_group [] None None False lan [saved_transport [] ''up'' 0 0 lan None])],
            ps_uplinks = []\<rparr> in
      restored_peer (\<lambda>g. g_winner g = None \<and> g_published g = [] \<and> map tr_state (g_transports g) = [Unknown])
        (loaded ps (add_transport 10 lan (test_peer_group host_b 0 ON_ALL_DOWN_LAST_KNOWN_GOOD))))"

lemma test_legacy_position_only_state_cold_starts_instead_of_guessing:
  legacy_position_only_state_cold_starts_instead_of_guessing
  by code_simp

text \<open>A store whose bytes are the confirmation times.\<close>

definition confirmation_store :: store_env where
  "confirmation_store =
     \<lparr>sv_format = (\<lambda>t. Inr (show_int t)), sv_time = (\<lambda>_. Inl []),
      sv_to_vec = (\<lambda>j. Inr (utf8 (concat (map (\<lambda>(n, pg). case pg_confirmed pg of Some s \<Rightarrow> s | None \<Rightarrow> []) (ps_peers j))))),
      sv_from_slice = (\<lambda>_. Inl [])\<rparr>"

definition steady_confirmation_ticks_are_checkpointed_not_fsynced_every_tick :: bool where
  "steady_confirmation_ticks_are_checkpointed_not_fsynced_every_tick \<longleftrightarrow>
     (let g = (add_transport 10 lan (test_peer_group host_b 0 ON_ALL_DOWN_LAST_KNOWN_GOOD))
            \<lparr>g_winner := Some 0, g_published := lit lan, g_confirmed := Some (ago 10)\<rparr>;
          st = (\<lambda>g. \<lparr>en_peers = [(lit host_b, g)], en_uplinks = [], en_hosts_error = []\<rparr>);
          save = save_state confirmation_store no_faults in
      case save False 0 (st g) (None, None) of
        Some (s1, _) \<Rightarrow>
          (case save False (ms 1) (st (g\<lparr>g_confirmed := Some NOW\<rparr>)) s1 of
             Some (s2, _) \<Rightarrow>
               (case save True (ms 2) (st (g\<lparr>g_confirmed := Some NOW\<rparr>)) s2 of
                  Some (s3, _) \<Rightarrow> snd s1 \<noteq> None \<and> snd s2 = snd s1 \<and> snd s3 \<noteq> None \<and> snd s3 \<noteq> snd s1
                | None \<Rightarrow> False)
           | None \<Rightarrow> False)
      | None \<Rightarrow> False)"

lemma test_steady_confirmation_ticks_are_checkpointed_not_fsynced_every_tick:
  steady_confirmation_ticks_are_checkpointed_not_fsynced_every_tick
  by code_simp

definition a_corrupt_state_file_is_a_cold_start_not_a_failure :: bool where
  "a_corrupt_state_file_is_a_cold_start_not_a_failure \<longleftrightarrow>
     (let st = \<lparr>en_peers = [(lit host_b, test_peer_group host_b 0 ON_ALL_DOWN_LAST_KNOWN_GOOD)], en_uplinks = [],
            en_hosts_error = []\<rparr> in
      restored_peer (\<lambda>g. g_winner g = None \<and> g_published g = [] \<and> g_confirmed g = None)
        (fst (load_state (\<lambda>_. Inl (lit ''key must be a string'')) NOW NOW
          (StateData (lit ''{ this is not json at all ]['')) st)))"

lemma test_a_corrupt_state_file_is_a_cold_start_not_a_failure: a_corrupt_state_file_is_a_cold_start_not_a_failure
  by code_simp

definition restore_leaves_uplink_groups_alone :: bool where
  "restore_leaves_uplink_groups_alone \<longleftrightarrow>
     (let ps = \<lparr>ps_peers = [], ps_uplinks = [(lit ''internet'', saved_group lan None (Some (secs 946684800)) True lan
            [saved_transport lan ''down'' 0 0 [] None])]\<rparr>;
          g = add_transport 10 lan ((test_peer_group ''internet'' 0 ON_ALL_DOWN_LAST_KNOWN_GOOD)
            \<lparr>g_kind := Uplink, g_max_age := Some 60\<rparr>);
          st = fst (load_state Inr NOW NOW (StateData ps)
            \<lparr>en_peers = [], en_uplinks = [(lit ''internet'', g)], en_hosts_error = []\<rparr>) in
      map_option g_published (get_group st Uplink (lit ''internet'')) = Some (lit lan))"

lemma test_restore_leaves_uplink_groups_alone: restore_leaves_uplink_groups_alone
  by code_simp

definition restore_drops_health_for_a_changed_static_winner_address :: bool where
  "restore_drops_health_for_a_changed_static_winner_address \<longleftrightarrow>
     (let saved = Some (secs 1785916800);
          ps = \<lparr>ps_peers = [(lit host_b, saved_group lan saved saved False lan [saved_transport lan ''up'' 7 0 lan None])],
            ps_uplinks = []\<rparr> in
      restored_peer (\<lambda>g. map (\<lambda>tr. (tr_address tr, tr_state tr, tr_succ tr, tr_fail tr)) (g_transports g) =
            [(lit ''192.0.2.99'', Unknown, 0, 0)] \<and>
          g_winner g = None \<and> g_published g = [] \<and> g_confirmed g = None \<and> g_degraded g)
        (loaded ps (add_transport 10 ''192.0.2.99'' (test_peer_group host_b 0 ON_ALL_DOWN_LAST_KNOWN_GOOD))))"

lemma test_restore_drops_health_for_a_changed_static_winner_address:
  restore_drops_health_for_a_changed_static_winner_address
  by code_simp

definition restore_keeps_a_dynamic_transport_address :: bool where
  "restore_keeps_a_dynamic_transport_address \<longleftrightarrow>
     (let ps = \<lparr>ps_peers = [(lit host_b, saved_group ''test-dynamic'' None None False ''100.64.42.10''
            [saved_transport ''test-dynamic'' ''up'' 7 0 ''100.64.42.10'' None])], ps_uplinks = []\<rparr> in
      restored_peer (\<lambda>g. map (\<lambda>tr. (tr_address tr, tr_state tr)) (g_transports g) = [(lit ''100.64.42.10'', Up)] \<and>
          g_winner g = Some 0 \<and> g_published g = lit ''100.64.42.10'' \<and> \<not> g_degraded g)
        (loaded ps (add_transport 10 [] (test_peer_group host_b 0 ON_ALL_DOWN_LAST_KNOWN_GOOD))))"

lemma test_restore_keeps_a_dynamic_transport_address: restore_keeps_a_dynamic_transport_address
  by code_simp

definition the_test_engine_publishes_through_a_real_hosts_file :: bool where
  "the_test_engine_publishes_through_a_real_hosts_file \<longleftrightarrow>
     (let g = (test_peer_group host_b 0 ON_ALL_DOWN_LAST_KNOWN_GOOD)\<lparr>g_published := lit lan\<rparr> in
      contains (published_after_startup (insert_peer host_b g new_test_engine)) (lit lan))"

lemma test_the_test_engine_publishes_through_a_real_hosts_file: the_test_engine_publishes_through_a_real_hosts_file
  by code_simp

end
