(* ===== verification/RuntimeTests.thy ===== *)
theory RuntimeTests
  imports EngineKit Startup ProbeTests
begin

text \<open>
  The unit tests of \<open>src/shutdown.rs\<close>, \<open>sdnotify.rs\<close> and \<open>status.rs\<close> and those of
  \<open>src/engine/mod.rs\<close> on startup, the watchdog, probing and the status file, evaluated on the
  model.  Where a test starts a thread, its data is what the thread sees; where it reads a
  file of \<open>serde_json\<close> back, the assertion is on what is given to the serializer.
\<close>

section \<open>\<open>shutdown.rs\<close>\<close>

text \<open>The waiter is woken every two milliseconds and sees the flag down each time.\<close>

definition noisy_looks :: "nat \<Rightarrow> (int \<times> bool) list" where
  "noisy_looks n = map (\<lambda>k. (ms (2 * int k), False)) [0 ..< n]"

definition a_wakeup_without_a_trigger_is_not_a_shutdown :: bool where
  "a_wakeup_without_a_trigger_is_not_a_shutdown \<longleftrightarrow>
     shutdown_wait (ms 250) (noisy_looks 126) = None \<and> shutdown_wait (ms 250) (noisy_looks 127) = Some False"

lemma test_a_wakeup_without_a_trigger_is_not_a_shutdown: a_wakeup_without_a_trigger_is_not_a_shutdown
  by code_simp

definition a_trigger_wakes_the_waiter_immediately :: bool where
  "a_trigger_wakes_the_waiter_immediately \<longleftrightarrow>
     shutdown_wait (secs 30) [(0, False), (ms 20, True)] = Some True \<and> shutdown_wait (secs 30) [(0, True)] = Some True"

lemma test_a_trigger_wakes_the_waiter_immediately: a_trigger_wakes_the_waiter_immediately
  by code_simp

section \<open>\<open>sdnotify.rs\<close>\<close>

definition no_errors :: "rstr option \<Rightarrow> rstr \<Rightarrow> rstr option \<times> (notify_target \<times> 8 word list) option" where
  "no_errors = notify_to None None None"

definition notify_is_a_silent_noop_without_notify_socket :: bool where
  "notify_is_a_silent_noop_without_notify_socket \<longleftrightarrow>
     no_errors None (lit ''READY=1'') = (None, None)"

lemma test_notify_is_a_silent_noop_without_notify_socket: notify_is_a_silent_noop_without_notify_socket
  by code_simp

definition watchdog_interval_is_none_when_unset :: bool where
  "watchdog_interval_is_none_when_unset \<longleftrightarrow>
     parse_watchdog_usec None = None"

lemma test_watchdog_interval_is_none_when_unset: watchdog_interval_is_none_when_unset
  by code_simp

definition watchdog_interval_is_half_of_watchdog_usec :: bool where
  "watchdog_interval_is_half_of_watchdog_usec \<longleftrightarrow>
     parse_watchdog_usec (Some (lit ''20000000'')) = Some (secs 10)"

lemma test_watchdog_interval_is_half_of_watchdog_usec: watchdog_interval_is_half_of_watchdog_usec
  by code_simp

definition watchdog_interval_is_none_for_zero_or_negative_or_unparsable :: bool where
  "watchdog_interval_is_none_for_zero_or_negative_or_unparsable \<longleftrightarrow>
     list_all (\<lambda>v. parse_watchdog_usec (Some (lit v)) = None) [''0'', ''-5'', ''not-a-number'', []]"

lemma test_watchdog_interval_is_none_for_zero_or_negative_or_unparsable:
  watchdog_interval_is_none_for_zero_or_negative_or_unparsable
  by code_simp

definition notify_writes_state_verbatim_to_unixgram_socket :: bool where
  "notify_writes_state_verbatim_to_unixgram_socket \<longleftrightarrow>
     (let sock_path = lit ''/tmp/notify.sock'' in
      no_errors (Some sock_path) (lit ''READY=1'') = (None, Some (SocketPath sock_path, utf8 (lit ''READY=1''))))"

lemma test_notify_writes_state_verbatim_to_unixgram_socket: notify_writes_state_verbatim_to_unixgram_socket
  by code_simp

section \<open>\<open>status.rs\<close>\<close>

definition snapshot_default :: snapshot where
  "snapshot_default = \<lparr>sn_generated_at = [], sn_valid_until = [], sn_hosts_error = [], sn_peers = [], sn_uplinks = []\<rparr>"

definition status_group_default :: status_group where
  "status_group_default = \<lparr>sg_winner = [], sg_since = [], sg_confirmed = [], sg_publish_error = [], sg_degraded = False,
     sg_transports = []\<rparr>"

text \<open>Files that hold the deadline alone, for snapshots without groups and errors.\<close>

definition deadline_files :: status_env where
  "deadline_files =
     \<lparr>se_fmt = (\<lambda>t. Some (show_int t)), se_parse_time = parse_decimal, se_representable = (\<lambda>_. True),
      se_serialize = (\<lambda>s. Inr (utf8 (sn_valid_until s))),
      se_deserialize = (\<lambda>d. Inr (snapshot_default\<lparr>sn_valid_until := map uint (butlast d)\<rparr>))\<rparr>"

definition written_status_is_fresh_and_world_readable :: bool where
  "written_status_is_fresh_and_world_readable \<longleftrightarrow>
     (case status_write deadline_files no_faults NOW snapshot_default 60000 None of
        Some (None, Some f) \<Rightarrow>
          (case status_read deadline_files (Inr (f_data f)) of
             Inr snapshot \<Rightarrow>
               is_healthy_at deadline_files (NOW + ms 1) snapshot \<and> sn_valid_until snapshot \<noteq> [] \<and>
               f_mode f = 6 * 64 + 4 * 8 + 4
           | Inl _ \<Rightarrow> False)
      | _ \<Rightarrow> False)"

lemma test_written_status_is_fresh_and_world_readable: written_status_is_fresh_and_world_readable
  by code_simp

definition expired_or_degraded_status_is_not_healthy :: bool where
  "expired_or_degraded_status_is_not_healthy \<longleftrightarrow>
     (let se = deadline_files\<lparr>se_parse_time := (\<lambda>s.
            if s = lit ''2000-01-01T00:00:00Z'' then Some (secs 946684800)
            else if s = lit ''2999-01-01T00:00:00Z'' then Some (secs 32472144000) else None)\<rparr>;
          expired = snapshot_default\<lparr>sn_valid_until := lit ''2000-01-01T00:00:00Z''\<rparr>;
          degraded = snapshot_default\<lparr>sn_valid_until := lit ''2999-01-01T00:00:00Z'',
            sn_peers := [(lit ''peer'', status_group_default\<lparr>sg_degraded := True\<rparr>)]\<rparr>
      in \<not> is_healthy_at se NOW expired \<and> \<not> is_healthy_at se NOW degraded)"

lemma test_expired_or_degraded_status_is_not_healthy: expired_or_degraded_status_is_not_healthy
  by code_simp

section \<open>Startup and the watchdog\<close>

definition env_of :: "test_engine \<Rightarrow> fake_dir env" where
  "env_of te =
     \<lparr>ev_publishers = te_pu te,
      ev_store = \<lparr>sv_format = (\<lambda>t. Inr (show_int t)), sv_time = (\<lambda>_. Inl []), sv_to_vec = (\<lambda>_. Inr []),
        sv_from_slice = (\<lambda>_. Inl [])\<rparr>,
      ev_status = deadline_files, ev_ttl = 30000\<rparr>"

text \<open>The state at \<open>READY=1\<close>, and what is on the disk then.\<close>

definition run_until_ready :: "int \<Rightarrow> int \<Rightarrow> test_engine \<Rightarrow> (engine_state \<times> rstr) option" where
  "run_until_ready clk now te =
     map_option (\<lambda>((st, io), _). (st, content_of (io_hosts io)))
       (startup (env_of te) no_faults clk now (te_state te, te_io te) (None, None))"

definition run_blocks_on_shutdown_with_zero_transports :: bool where
  "run_blocks_on_shutdown_with_zero_transports \<longleftrightarrow>
     run_until_ready 0 NOW new_test_engine \<noteq> None \<and> transport_keys (te_state new_test_engine) = [] \<and>
     idle_wait [] = None \<and> idle_wait [False, False] = None \<and> idle_wait [True] = Some False"

lemma test_run_blocks_on_shutdown_with_zero_transports: run_blocks_on_shutdown_with_zero_transports
  by code_simp

definition readiness_means_the_supervisor_watchdog_is_live :: bool where
  "readiness_means_the_supervisor_watchdog_is_live \<longleftrightarrow>
     (case run_until_ready 0 NOW new_test_engine of
        Some (st, _) \<Rightarrow>
          watchdog_healthy (\<lambda>_. True) True False (secs 10) (ms 1) st \<and>
          \<not> watchdog_healthy (\<lambda>_. True) False False (secs 10) (ms 2) st
      | None \<Rightarrow> False)"

lemma test_readiness_means_the_supervisor_watchdog_is_live: readiness_means_the_supervisor_watchdog_is_live
  by code_simp

definition a_stuck_transport_makes_the_watchdog_withhold_heartbeats :: bool where
  "a_stuck_transport_makes_the_watchdog_withhold_heartbeats \<longleftrightarrow>
     (let clk = secs 1000;
          g = with_transport 0 (\<lambda>tr. tr\<lparr>tr_probe_started := Some (clk - secs 30)\<rparr>)
            (add_transport 10 lan (test_peer_group host_b 0 ON_ALL_DOWN_LAST_KNOWN_GOOD))
      in \<not> watchdog_healthy (\<lambda>_. True) True False (secs 10) clk (te_state (insert_peer host_b g new_test_engine)))"

lemma test_a_stuck_transport_makes_the_watchdog_withhold_heartbeats:
  a_stuck_transport_makes_the_watchdog_withhold_heartbeats
  by code_simp

definition startup_publishes_restored_winners_without_a_winner_change :: bool where
  "startup_publishes_restored_winners_without_a_winner_change \<longleftrightarrow>
     (let g = (test_peer_group host_b 0 ON_ALL_DOWN_LAST_KNOWN_GOOD)
            \<lparr>g_hostnames := [lit ''host-b'', lit ''host-b.alias''], g_published := lit lan\<rparr> in
      case run_until_ready 0 NOW (insert_peer host_b g new_test_engine) of
        Some (_, published) \<Rightarrow> contains published (tab lan ''host-b host-b.alias'')
      | None \<Rightarrow> False)"

lemma test_startup_publishes_restored_winners_without_a_winner_change:
  startup_publishes_restored_winners_without_a_winner_change
  by code_simp

section \<open>A probe, and the status file\<close>

text \<open>A script that prints an envelope and exits with 1.\<close>

definition failing_provider :: exec_env where
  "failing_provider =
     \<lparr>xe_world = (\<lambda>_. \<lparr>cw_spawn = None, cw_nonblock_out = None, cw_nonblock_err = None,
        cw_io = ([Got (utf8 (quoted ''{`address`:`203.0.113.99`}'' @ [NL])), Got []], [Got []]),
        cw_polls = [\<lparr>po_wait = Running, po_elapsed = 0\<rparr>, \<lparr>po_wait = Exited exit_1, po_elapsed = ms 10\<rparr>],
        cw_reap = Inr exit_1\<rparr>),
      xe_json = (\<lambda>_. Inr \<lparr>ee_address = Some (lit ''203.0.113.99''), ee_healthy = None, ee_detail = None\<rparr>)\<rparr>"

definition failing_spec :: transport where
  "failing_spec = transport_default\<lparr>t_ident := lit lan, t_priority := 10, t_address := lit lan,
     t_probe := probe_default\<lparr>p_method := lit ''exec'', p_exec := lit ''/tmp/failing-provider'', p_timeout_ms := 1000,
       p_down_threshold := 3\<rparr>\<rparr>"

definition failing_output :: "8 word list" where
  "failing_output = utf8 (quoted ''{`address`:`203.0.113.99`}'' @ [NL])"

text \<open>The rest of \<open>probe_once\<close> with the result of the probe.\<close>

definition address_stays :: "probe_result \<Rightarrow> bool" where
  "address_stays res \<longleftrightarrow>
     (let g = (with_transport 0 (\<lambda>tr. tr\<lparr>tr_state := Up, tr_spec := failing_spec\<rparr>)
              (add_transport 10 lan (test_peer_group host_b 0 ON_ALL_DOWN_LAST_KNOWN_GOOD)))
            \<lparr>g_winner := Some 0, g_published := lit lan\<rparr>;
          te = insert_peer host_b g new_test_engine in
      case probe_once (te_pu te) NOW (NOW + ms 1) Peer (lit host_b) 0 (Inr res) (te_state te, te_io te) of
        Some ((st, _), _) \<Rightarrow>
          (case get_group st Peer (lit host_b) of
             Some g' \<Rightarrow> map tr_address (g_transports g') = [lit lan] \<and> g_published g' = lit lan
           | None \<Rightarrow> False)
      | None \<Rightarrow> False)"

definition failing_result :: probe_result where
  "failing_result = \<lparr>pr_healthy = False, pr_address = lit ''203.0.113.99'', pr_detail = lit ''exec exit non-zero''\<rparr>"

lemma failing_output_small: "length failing_output < MAX_OUTPUT_BYTES" "failing_output \<noteq> []"
proof -
  have "length failing_output = 27" by code_simp
  then show "length failing_output < MAX_OUTPUT_BYTES" "failing_output \<noteq> []" by (auto simp: MAX_OUTPUT_BYTES_def)
qed

lemma failing_provider_output:
  "run_child 1000000000 (xe_world failing_provider cmd) =
     Some (Inr \<lparr>bo_status = exit_1, bo_stdout = failing_output, bo_stderr = [], bo_timed_out = False,
       bo_truncated = False\<rparr>, [SleepFor 10000000, KillGroup])"
  using failing_output_small
  by (simp add: run_child_def failing_provider_def drain_both_def drain_def drain_pass_numeral captured_default_def
      capture_def ms_def Let_def flip: failing_output_def)

lemma failing_line: "first_non_empty_line failing_output \<noteq> []"
  by code_simp

lemma failing_argv: "tokenize (p_exec (t_probe failing_spec)) = Inr [lit ''/tmp/failing-provider'']"
  by code_simp

lemma failing_provider_result:
  "exec_run failing_provider failing_spec (probe_timeout failing_spec) = Some (Inr failing_result, [SleepFor 10000000, KillGroup])"
proof -
  have "probe_timeout failing_spec = 1000000000" by code_simp
  moreover have "xe_json failing_provider l = Inr \<lparr>ee_address = Some (lit ''203.0.113.99''), ee_healthy = None, ee_detail = None\<rparr>"
    for l by (simp add: failing_provider_def)
  moreover have "trim (from_utf8_lossy []) = []" by code_simp
  ultimately show ?thesis
    using failing_line failing_argv failing_provider_output [of "[lit ''/tmp/failing-provider'']"]
    by (simp add: exec_run_def exec_result_def exec_envelope_fields_def or_empty_def failing_result_def exit_1_def)
qed

lemma address_stays_failing: "address_stays failing_result"
  by code_simp

definition a_failing_exec_probe_cannot_replace_the_published_address :: bool where
  "a_failing_exec_probe_cannot_replace_the_published_address \<longleftrightarrow>
     (case exec_run failing_provider failing_spec (probe_timeout failing_spec) of
        Some (Inr res, _) \<Rightarrow> pr_address res = lit ''203.0.113.99'' \<and> address_stays res
      | _ \<Rightarrow> False)"

lemma test_a_failing_exec_probe_cannot_replace_the_published_address:
  a_failing_exec_probe_cannot_replace_the_published_address
  by (simp add: a_failing_exec_probe_cannot_replace_the_published_address_def failing_provider_result
      address_stays_failing) (simp add: failing_result_def)

definition status_exposes_hosts_and_uplink_publication_failures :: bool where
  "status_exposes_hosts_and_uplink_publication_failures \<longleftrightarrow>
     (let uplink = (test_uplink_group 10000 100 50)\<lparr>g_publish_error := lit ''ip route replace: permission denied''\<rparr>;
          st = (te_state (insert_uplink ''internet'' uplink new_test_engine))\<lparr>en_hosts_error := lit ''read-only file system''\<rparr>;
          exposed = (\<lambda>snapshot. sn_hosts_error snapshot = lit ''read-only file system'' \<and>
            map_option sg_publish_error (hm_get (sn_uplinks snapshot) (lit ''internet'')) =
              Some (lit ''ip route replace: permission denied''));
          se = deadline_files\<lparr>se_serialize := (\<lambda>s. if exposed s then Inr [] else Inl [])\<rparr> in
      case write_status se no_faults True 0 NOW 30000 st (None, None) of
        Some ((_, Some _), None) \<Rightarrow> True
      | _ \<Rightarrow> False)"

lemma test_status_exposes_hosts_and_uplink_publication_failures:
  status_exposes_hosts_and_uplink_publication_failures
  by code_simp

end
