(* ===== verification/Spec2Isabelle.thy ===== *)
theory Spec2Isabelle
  imports Prelude NetAddr Utf8 Config Atomic Hosts Subprocess Route Engine Persist Reconcile Runs Ticks
    Status Probe ExecProbe TcpProbe HttpProbe IcmpProbe ProbeRun Store Workers Shutdown Runtime Startup Ctl Daemon
    Locked HostsTests ProbeTests RouteTests ConfigTests EngineTests StateTests RuntimeTests
begin

text \<open>
  nixnet is a daemon that probes the transports (addresses) of its peers and the interfaces
  of its uplinks, elects a winner for each group, and publishes the winners: the peers'
  addresses as a managed block of the hosts file, the uplinks' ranking as metrics of the
  default routes.  This development models its Rust crate under \<open>src/\<close>.

  \<^bold>\<open>The program and its parts.\<close>  \<open>nixnetd\<close> (theory \<open>Daemon\<close>) reads its configuration (\<open>Config\<close>),
  takes the static part of the hosts file (\<open>Hosts\<close>), builds the engine from the state file
  (\<open>Engine\<close>, \<open>Persist\<close>), and starts it (\<open>Startup\<close>).  One worker thread per transport (\<open>Runtime\<close>,
  \<open>Workers\<close>) probes it (\<open>ProbeRun\<close> and the four probers), applies the result to the engine
  state, reconciles its group with the world (\<open>Reconcile\<close>, over \<open>Hosts\<close> and \<open>Route\<close>), and
  writes \<open>state.json\<close> (\<open>Store\<close>) and \<open>status.json\<close> (\<open>Status\<close>) through the atomic writer (\<open>Atomic\<close>).
  A watchdog thread tells systemd that the workers make progress (\<open>Runtime\<close>), and \<open>nixnetctl\<close>
  (\<open>Ctl\<close>) reads \<open>status.json\<close>.

  \<^bold>\<open>Theories and sources.\<close>

  \<^item> \<open>Prelude\<close>, \<open>NetAddr\<close>, \<open>Utf8\<close>: what is used of the standard library.  A \<open>str\<close> is the list of
    its scalar values (\<open>rstr\<close>) with the string operations that are called, \<open>i64\<close> is \<open>int\<close> with
    saturation or wrap-around written out where the code can reach it, a \<open>HashMap\<close> is an
    association list with distinct keys (\<open>hm_ok\<close>); \<open>str::parse::<IpAddr>\<close>; the UTF-8 encoding and
    \<open>from_utf8_lossy\<close>.  The prelude also has the interfaces several components share.
  \<^item> \<open>Config\<close> (\<open>config.rs\<close>): a record per struct, \<open>apply_defaults\<close>, the stable transport identity
    (\<open>fnv1a\<close> on 64-bit words), \<open>validate\<close> with a constructor of \<open>verr\<close> per message, the
    capability checks and \<open>config_load\<close>.  Validation is proved equal to the declarative
    \<open>config_ok\<close>.
  \<^item> \<open>Atomic\<close> (\<open>atomic.rs\<close>): the stages of \<open>write_impl\<close> with a fault at any of them, the outcome
    in full, and what an observer sees between them.
  \<^item> \<open>Hosts\<close> (\<open>publish/hosts.rs\<close>): \<open>split_static\<close>, \<open>render\<close>, the plan of a publish and its
    execution, \<open>parse_nix_hosts\<close>; the foreign halves of the file survive, the block reads back.
  \<^item> \<open>Subprocess\<close> (\<open>subprocess.rs\<close>): the wait loop, the capped capture of the pipes and the kill of
    the process group.
  \<^item> \<open>Route\<close> (\<open>publish/route.rs\<close>): \<open>apply_routes\<close> with one \<open>run_ip\<close> per command over a world
    that the \<open>ip\<close> binary changes; a log of each command with the world after it.
  \<^item> \<open>Probe\<close>, \<open>ExecProbe\<close>, \<open>TcpProbe\<close>, \<open>HttpProbe\<close>, \<open>IcmpProbe\<close>, \<open>ProbeRun\<close> (\<open>probe/*.rs\<close>): the four
    probe methods with the trace of their system calls, and the dispatch on the method.
  \<^item> \<open>Engine\<close> (\<open>engine/mod.rs\<close>): the records of a transport, a group and the engine; the effect of
    a probe result, staleness, winner selection with the hold time, the ranking of an uplink.
    \<open>Persist\<close> (\<open>engine/state.rs\<close>): \<open>dump\<close>, \<open>restore\<close>, \<open>load_state\<close> and \<open>Engine::new\<close>.
  \<^item> \<open>Reconcile\<close> (\<open>engine/mod.rs\<close>): \<open>reconcile\<close>, \<open>probe_once\<close> and the startup publications, cut at
    their mutex sections.  \<open>Runs\<close>: invariants of every state that any sequence of sections can
    reach.  \<open>Ticks\<close>: what one tick leaves in the world.
  \<^item> \<open>Status\<close> (\<open>status.rs\<close> and the status part of the engine), \<open>Store\<close> (the writing side of
    \<open>engine/state.rs\<close> with \<open>rfc3339_opt\<close> on every time): the two throttled files, what a reader or a restart finds in them.
  \<^item> \<open>Workers\<close> (\<open>engine/mod.rs\<close>): the interleaving of the worker threads as the step relation
    \<open>worker_step\<close>, one rule per section of one of the four mutexes; \<open>Runtime\<close>: the loop of a worker
    with its cadence, the watchdog, \<open>sdnotify.rs\<close> and the heartbeat of \<open>nixnetd.rs\<close>;
    \<open>Shutdown\<close> (\<open>shutdown.rs\<close>): the flag, its mutex and its condition variable under any number
    of threads, with spurious wakeups; no wakeup is lost.  \<open>Startup\<close>: \<open>run_with_ready\<close> before and around the workers.
  \<^item> \<open>Ctl\<close> (\<open>bin/nixnetctl.rs\<close>) and \<open>Daemon\<close> (\<open>bin/nixnetd.rs\<close>): arguments, exit codes, output, and
    the order of the initialization.
  \<^item> \<open>Locked\<close> (\<open>engine/mod.rs\<close>): \<open>reconcile_locked\<close>, decision and publication under one lock as the unit
    tests call them, proved equal to the sections of \<open>reconcile\<close> in sequence.
  \<^item> \<open>HostsTests\<close>, \<open>RouteTests\<close>, \<open>ProbeTests\<close>, \<open>ConfigTests\<close>, \<open>EngineTests\<close>, \<open>StateTests\<close>,
    \<open>RuntimeTests\<close>, over \<open>TestKit\<close> and \<open>EngineKit\<close>: the crate's own tests, evaluated on the model.  A
    definition is the assertion of the test of that name on its data, and its lemma \<open>test_\<close>\<open>name\<close>
    says that the model passes it; they tie the definitions to the behaviour the authors
    expect of the code, branch by branch.

  \<^bold>\<open>Interfaces.\<close>  \<open>invariant_machine\<close>: events keep an invariant, so runs do; interpreted on the
  engine's sections with \<open>state_inv\<close> (indices and keys in range) and with \<open>state_clean\<close> (what is
  published is an IP literal).  \<open>reconciling_publisher\<close>: a backend that writes only on a
  difference, so asking for the same thing writes at most once; interpreted on the hosts file
  and on the routes.  \<open>atomic_writer\<close>: a write is whole or absent; interpreted on both modes of
  \<open>atomic.rs\<close>, and used by the hosts, status and state files.  \<open>probe_method\<close> and
  \<open>network_method\<close>: when a prober refuses a transport; interpreted on the four probers.

  \<^bold>\<open>Conventions.\<close>  A panic is \<open>None\<close>, an error is \<open>Inl\<close> or a constructor, a log line is a value
  (\<open>log_event\<close>) with what it prints.  Instants and durations are integers, in nanoseconds unless
  the name says otherwise; wall clock and monotonic clock are separate arguments.  What the
  outside answers (kernel, resolver, pipes, clocks, file system faults) is an argument, given
  as the list of the answers or as a function.  A loop of the code recurses over that list, one
  element per round, with the code's own bound where it has one (the 4096 reads of an HTTP head,
  the 64 KiB cap of a capture); no other fuel is used.  A result for a list that is too short
  is \<open>None\<close> or the state so far, and the theorems about such a loop either hold for every list
  or say what the list must contain.

  \<^bold>\<open>Parameters and hypotheses.\<close>  \<open>serde_json\<close> (reading configuration, state, status, the
  output of \<open>ip\<close> and the envelope of a provider, and writing state and status), the RFC 3339
  format of the \<open>time\<close> crate, the \<open>ip\<close> tool and the operating system are parameters.  A theorem
  that needs to know something of one names it as a premise, with a witness: \<open>ip_contract\<close>
  (iproute2 adds, replaces and deletes a default route as documented and reports the table),
  \<open>store_laws\<close> (what was serialized parses to what it was, a formatted time is not empty and
  parses back), the same for the status file, that a formatted time is one token, that a
  parsed map has distinct keys.  \<open>OffsetDateTime\<close>'s range is \<open>se_representable\<close>.

  \<^bold>\<open>What is shown.\<close>  The claims stand in the theories of their components; the main
  groups are: the decisions (winner, hold time, staleness, ranking, and that a restart agrees
  with the running daemon); what a tick leaves in the hosts file and the routing table; the
  safety of the interleaving (no section panics, no deadlock, what is published is current,
  snapshots arrive in order); persistence and status end to end, up to the exit code of
  \<open>nixnetctl\<close>; the watchdog, startup and shutdown; the verdict of each prober; and, in this
  theory, the hosts file from the command line to the workers.  Some theorems state behaviour
  that is not what the documents promise; their texts say so.

  \<^bold>\<open>Not modelled.\<close>  \<open>logging.rs\<close> (a clock and a write to stderr) and the \<open>Display\<close> texts of the
  error types where no result depends on them; \<open>install_signal_handlers\<close>, a call of a library,
  whose error and whose effect on the shutdown flag are in the model; the module declarations in
  \<open>lib.rs\<close> and \<open>publish/mod.rs\<close>; a failure of printing to stdout; poisoned mutexes (no section
  panics, so none is poisoned); the NixOS modules, checks and site.
\<close>

section \<open>The daemon as a whole\<close>

lemma daemon_engine_config:
  assumes "RunEngine c h rp sp stp \<in> set (fst (daemon_main de args))"
  shows "engine_runs de args c h"
  using assms
proof (cases rule: daemon_main_cases [of args de])
  case (runs c' h' path)
  then show ?thesis using assms by (auto simp: start_sequence_def)
qed auto


text \<open>The demonstration configuration, restarted on a state file that names a winner.\<close>

definition demo_daemon :: daemon_env where
  "demo_daemon = \<lparr>de_read = (\<lambda>_. Inr []), de_from_str = (\<lambda>_. Inr demo_config), de_make_dir = (\<lambda>_. None),
     de_hosts = (\<lambda>_. ReadNotFound), de_signals = None, de_watchdog_usec = None\<rparr>"

definition demo_restored :: engine_state where
  "demo_restored = fst (engine_new (\<lambda>_. Inr \<lparr>ps_peers = [(lit ''h'', demo_saved)], ps_uplinks = []\<rparr>) 7 7 (StateData ()) demo_config)"

lemma demo_config_defaults: "apply_defaults demo_config = demo_config"
  by (simp add: apply_defaults_def demo_config_def daemon_defaults_def default_probe_defaults_def peer_defaults_def
      peer_transport_defaults_def probe_apply_defaults_def assign_transport_id_def demo_transport_def demo_probe_def
      ON_ALL_DOWN_LAST_KNOWN_GOOD_def or_str_def or_int_def Let_def)

lemma demo_daemon_runs:
  "RunEngine demo_config \<lparr>hp_static_prefix = [], hp_static_suffix = []\<rparr> (route_publisher_new (lit ''ip''))
     (lit ''/run/nixnet/status.json'') (lit ''/var/lib/nixnet/state.json'') \<in> set (fst (daemon_main demo_daemon []))"
proof -
  have "validate demo_config = None" using demo_config_ok validate_wf by blast
  then have load: "config_load (de_read demo_daemon) (de_from_str demo_daemon) DEFAULT_CONFIG_PATH = Inr demo_config"
    by (simp add: config_load_def demo_daemon_def demo_config_defaults)
  have dm: "dm_ip_path (c_daemon demo_config) = lit ''ip''" "dm_state_dir (c_daemon demo_config) = lit ''/var/lib/nixnet''"
    "dm_runtime_dir (c_daemon demo_config) = lit ''nixnet''" by (simp_all add: demo_config_def)
  have "\<And>x. de_make_dir demo_daemon x = None" "\<And>x. de_hosts demo_daemon x = ReadNotFound"
    "de_signals demo_daemon = None" "de_watchdog_usec demo_daemon = None" by (simp_all add: demo_daemon_def)
  with load show ?thesis
    by (simp add: daemon_main_def daemon_run_def daemon_dirs_def daemon_start_def hosts_new_def runtime_dir_of_def state_path_of_def
        dm parse_watchdog_usec_def Let_def) (simp add: str_simps)
qed

lemma demo_restored_entries: "\<exists>e \<in> set (peer_entries (\<lambda>_. None) demo_restored). e_address e = lit ''10.8.0.1''"
proof -
  let ?new = "new_peer_group (lit ''h'') (snd (hd (c_peers demo_config)))"
  let ?g = "fst (restore_group (lit ''h'') 7 demo_saved ?new)"
  have ts: "g_transports ?new = [new_runtime Peer (lit ''h'') 0 (demo_transport (lit ''lan'') (lit ''192.0.2.10'') 10),
      new_runtime Peer (lit ''h'') (Suc 0) (demo_transport (lit ''vpn'') [] 20)]"
    by (simp add: new_peer_group_def new_runtimes_def demo_config_def)
  have "en_peers demo_restored = fst (restore_groups 7 [(lit ''h'', demo_saved)] (en_peers (new_state demo_config)))"
    by (simp add: demo_restored_def engine_new_def load_state_def restore_def split_beta)
  moreover have "en_peers (new_state demo_config) = [(lit ''h'', ?new)]"
    by (simp add: new_state_def demo_config_def)
  ultimately have "en_peers demo_restored = [(lit ''h'', ?g)]" by (simp add: restore_groups_alt)
  moreover have "g_published ?g = lit ''10.8.0.1''"
  proof -
    have "\<not> restore_moved demo_saved ?new" by (simp add: restore_moved_def saved_by_id_def demo_saved_def)
    moreover have "\<not> restore_stale 7 demo_saved ?new"
      by (simp add: restore_stale_def demo_saved_def new_peer_group_def demo_config_def staleness_def nanos_of_secs_def)
    moreover have "restored_winner demo_saved ?new \<noteq> None"
      unfolding restored_winner_def ts
      by (simp add: demo_saved_def new_runtime_def demo_transport_def str_simps)
    ultimately show ?thesis
      using restore_group_outcome [of "lit ''h''" 7 demo_saved ?new] by (simp add: demo_saved_def)
  qed
  ultimately show ?thesis by (simp add: peer_entries_def entry_of_group_def str_simps)
qed


end
